(* ===== verification/Byte_Prelude.thy ===== *)
theory Byte_Prelude
  imports Main "HOL-Library.Word" "HOL-Library.Char_ord"
begin

text \<open>
  What the components share: bytes as C sees them (a \<open>char\<close> is one of 256 byte values; the
  server is built by gcc for x86-64, where a plain \<open>char\<close> is signed), the three control bytes
  the code names, C's \<open>memchr\<close> and \<open>strtoul\<close>, and the generic lemmas on lists, words and
  bit masks that the component proofs rest on.

  Two collections carry the automation: \<open>byte_simps\<close> holds the characterisations of the
  byte predicates, \<open>flag_simps\<close> those of the bit masks.
\<close>

unbundle bit_operations_syntax

named_theorems byte_simps
named_theorems flag_simps

section \<open>Bytes\<close>

type_synonym byte = char
type_synonym uint8 = "8 word"
type_synonym uint16 = "16 word"
type_synonym uint32 = "32 word"
type_synonym uint64 = "64 word"

text \<open>The value of a (signed) \<open>char\<close> after C's integer promotion.\<close>

definition schar :: "byte \<Rightarrow> int" where
  "schar c = (if (of_char c :: int) < 128 then of_char c else of_char c - 256)"

abbreviation NUL :: byte where "NUL \<equiv> CHR 0x00"
abbreviation TAB :: byte where "TAB \<equiv> CHR 0x09"
abbreviation LF :: byte where "LF \<equiv> CHR 0x0A"
abbreviation FF :: byte where "FF \<equiv> CHR 0x0C"
abbreviation CR :: byte where "CR \<equiv> CHR 0x0D"

text \<open>All bytes, so that a statement about one byte is a finite computation.\<close>

definition ascii_bytes :: "byte list" where
  "ascii_bytes =
     [CHR 0x00, CHR 0x01, CHR 0x02, CHR 0x03, CHR 0x04, CHR 0x05, CHR 0x06, CHR 0x07,
      CHR 0x08, CHR 0x09, CHR 0x0A, CHR 0x0B, CHR 0x0C, CHR 0x0D, CHR 0x0E, CHR 0x0F,
      CHR 0x10, CHR 0x11, CHR 0x12, CHR 0x13, CHR 0x14, CHR 0x15, CHR 0x16, CHR 0x17,
      CHR 0x18, CHR 0x19, CHR 0x1A, CHR 0x1B, CHR 0x1C, CHR 0x1D, CHR 0x1E, CHR 0x1F,
      CHR 0x20, CHR 0x21, CHR 0x22, CHR 0x23, CHR 0x24, CHR 0x25, CHR 0x26, CHR 0x27,
      CHR 0x28, CHR 0x29, CHR 0x2A, CHR 0x2B, CHR 0x2C, CHR 0x2D, CHR 0x2E, CHR 0x2F,
      CHR 0x30, CHR 0x31, CHR 0x32, CHR 0x33, CHR 0x34, CHR 0x35, CHR 0x36, CHR 0x37,
      CHR 0x38, CHR 0x39, CHR 0x3A, CHR 0x3B, CHR 0x3C, CHR 0x3D, CHR 0x3E, CHR 0x3F,
      CHR 0x40, CHR 0x41, CHR 0x42, CHR 0x43, CHR 0x44, CHR 0x45, CHR 0x46, CHR 0x47,
      CHR 0x48, CHR 0x49, CHR 0x4A, CHR 0x4B, CHR 0x4C, CHR 0x4D, CHR 0x4E, CHR 0x4F,
      CHR 0x50, CHR 0x51, CHR 0x52, CHR 0x53, CHR 0x54, CHR 0x55, CHR 0x56, CHR 0x57,
      CHR 0x58, CHR 0x59, CHR 0x5A, CHR 0x5B, CHR 0x5C, CHR 0x5D, CHR 0x5E, CHR 0x5F,
      CHR 0x60, CHR 0x61, CHR 0x62, CHR 0x63, CHR 0x64, CHR 0x65, CHR 0x66, CHR 0x67,
      CHR 0x68, CHR 0x69, CHR 0x6A, CHR 0x6B, CHR 0x6C, CHR 0x6D, CHR 0x6E, CHR 0x6F,
      CHR 0x70, CHR 0x71, CHR 0x72, CHR 0x73, CHR 0x74, CHR 0x75, CHR 0x76, CHR 0x77,
      CHR 0x78, CHR 0x79, CHR 0x7A, CHR 0x7B, CHR 0x7C, CHR 0x7D, CHR 0x7E, CHR 0x7F]"

definition high_bytes :: "byte list" where
  "high_bytes =
     [CHR 0x80, CHR 0x81, CHR 0x82, CHR 0x83, CHR 0x84, CHR 0x85, CHR 0x86, CHR 0x87,
      CHR 0x88, CHR 0x89, CHR 0x8A, CHR 0x8B, CHR 0x8C, CHR 0x8D, CHR 0x8E, CHR 0x8F,
      CHR 0x90, CHR 0x91, CHR 0x92, CHR 0x93, CHR 0x94, CHR 0x95, CHR 0x96, CHR 0x97,
      CHR 0x98, CHR 0x99, CHR 0x9A, CHR 0x9B, CHR 0x9C, CHR 0x9D, CHR 0x9E, CHR 0x9F,
      CHR 0xA0, CHR 0xA1, CHR 0xA2, CHR 0xA3, CHR 0xA4, CHR 0xA5, CHR 0xA6, CHR 0xA7,
      CHR 0xA8, CHR 0xA9, CHR 0xAA, CHR 0xAB, CHR 0xAC, CHR 0xAD, CHR 0xAE, CHR 0xAF,
      CHR 0xB0, CHR 0xB1, CHR 0xB2, CHR 0xB3, CHR 0xB4, CHR 0xB5, CHR 0xB6, CHR 0xB7,
      CHR 0xB8, CHR 0xB9, CHR 0xBA, CHR 0xBB, CHR 0xBC, CHR 0xBD, CHR 0xBE, CHR 0xBF,
      CHR 0xC0, CHR 0xC1, CHR 0xC2, CHR 0xC3, CHR 0xC4, CHR 0xC5, CHR 0xC6, CHR 0xC7,
      CHR 0xC8, CHR 0xC9, CHR 0xCA, CHR 0xCB, CHR 0xCC, CHR 0xCD, CHR 0xCE, CHR 0xCF,
      CHR 0xD0, CHR 0xD1, CHR 0xD2, CHR 0xD3, CHR 0xD4, CHR 0xD5, CHR 0xD6, CHR 0xD7,
      CHR 0xD8, CHR 0xD9, CHR 0xDA, CHR 0xDB, CHR 0xDC, CHR 0xDD, CHR 0xDE, CHR 0xDF,
      CHR 0xE0, CHR 0xE1, CHR 0xE2, CHR 0xE3, CHR 0xE4, CHR 0xE5, CHR 0xE6, CHR 0xE7,
      CHR 0xE8, CHR 0xE9, CHR 0xEA, CHR 0xEB, CHR 0xEC, CHR 0xED, CHR 0xEE, CHR 0xEF,
      CHR 0xF0, CHR 0xF1, CHR 0xF2, CHR 0xF3, CHR 0xF4, CHR 0xF5, CHR 0xF6, CHR 0xF7,
      CHR 0xF8, CHR 0xF9, CHR 0xFA, CHR 0xFB, CHR 0xFC, CHR 0xFD, CHR 0xFE, CHR 0xFF]"

definition all_byte_list :: "byte list" where
  "all_byte_list = ascii_bytes @ high_bytes"

lemma map_of_char_all_byte_list: "map of_char all_byte_list = [0..<256 :: nat]"
  by (simp add: all_byte_list_def ascii_bytes_def high_bytes_def upt_rec)

lemma length_all_byte_list: "length all_byte_list = 256"
  using arg_cong [OF map_of_char_all_byte_list, of length] by simp

lemma all_bytes:
  assumes "list_all P all_byte_list"
  shows "\<forall>c. P c"
proof
  fix c
  have "(of_char c :: nat) \<in> set [0..<256]" by simp
  then have "(of_char c :: nat) \<in> of_char ` set all_byte_list"
    by (simp only: map_of_char_all_byte_list [symmetric] list.set_map)
  then obtain b where "b \<in> set all_byte_list" and "(of_char c :: nat) = of_char b" by blast
  then have "c \<in> set all_byte_list" by simp
  with assms show "P c" by (simp add: list_all_iff)
qed

text \<open>The same for a table of 256 entries of which 128 are initialised, indexed by a byte.\<close>

lemma all_table_entries:
  fixes P :: "byte \<Rightarrow> 'a \<Rightarrow> bool"
  assumes ascii: "list_all2 P ascii_bytes ts" and high: "list_all (\<lambda>b. P b z) high_bytes"
  shows "P c ((ts @ replicate 128 z) ! of_char c)"
proof -
  have len: "(of_char c :: nat) < length all_byte_list"
    by (simp add: length_all_byte_list)
  have "map of_char all_byte_list ! of_char c = (of_char c :: nat)"
    by (simp add: map_of_char_all_byte_list)
  with len have "(of_char (all_byte_list ! of_char c) :: nat) = of_char c"
    by simp
  then have nth: "all_byte_list ! of_char c = c" by simp
  have "length high_bytes = 128" by (simp add: high_bytes_def)
  with high have "list_all2 P high_bytes (replicate 128 z)"
    by (simp add: list_all2_conv_all_nth list_all_length)
  with ascii have "list_all2 P all_byte_list (ts @ replicate 128 z)"
    unfolding all_byte_list_def by (rule list_all2_appendI)
  from list_all2_nthD [OF this len] show ?thesis by (simp only: nth)
qed

section \<open>C library routines the program calls\<close>

text \<open>\<open>memchr (p, c, limit)\<close>: the offset of the first \<open>c\<close> among the first \<open>limit\<close> bytes.\<close>

fun memchr :: "byte list \<Rightarrow> byte \<Rightarrow> nat \<Rightarrow> nat option" where
  "memchr [] c limit = None"
| "memchr (x # xs) c limit =
     (case limit of
        0 \<Rightarrow> None
      | Suc l \<Rightarrow> if x = c then Some 0 else map_option Suc (memchr xs c l))"

lemma memchr_SomeD:
  "memchr xs c limit = Some i \<Longrightarrow> i < length xs \<and> i < limit \<and> xs ! i = c \<and> c \<notin> set (take i xs)"
  by (induction xs c limit arbitrary: i rule: memchr.induct)
    (auto split: nat.splits if_splits)

lemma memchr_NoneD: "memchr xs c limit = None \<Longrightarrow> c \<notin> set (take limit xs)"
  by (induction xs c limit rule: memchr.induct) (auto split: nat.splits if_splits)

lemma memchr_Some_pos: "memchr (x # xs) c limit = Some i \<Longrightarrow> x \<noteq> c \<Longrightarrow> 0 < i"
  by (auto split: nat.splits if_splits)

section \<open>Lists\<close>

text \<open>The bytes a pointer and a length denote, as a callback sees them.\<close>

definition byte_range :: "'a list \<Rightarrow> nat \<Rightarrow> nat \<Rightarrow> 'a list" where
  "byte_range d off n = take n (drop off d)"

lemma length_byte_range [simp]: "off + n \<le> length d \<Longrightarrow> length (byte_range d off n) = n"
  by (simp add: byte_range_def)

lemma byte_range_0 [simp]: "byte_range d off 0 = []"
  by (simp add: byte_range_def)

lemma byte_range_whole [simp]: "byte_range d 0 (length d) = d"
  by (simp add: byte_range_def)

lemma byte_range_append:
  "byte_range d off (m + n) = byte_range d off m @ byte_range d (off + m) n"
  by (simp add: byte_range_def take_add add.commute)

lemma drop_eq_Cons_nth: "drop i xs = y # ys \<Longrightarrow> i < length xs \<and> xs ! i = y \<and> ys = drop (Suc i) xs"
  by (metis Cons_nth_drop_Suc drop_all list.inject list.simps(3) not_le)

section \<open>Words\<close>

lemma unat_of_nat_small: "n < 2 ^ LENGTH('a) \<Longrightarrow> unat (of_nat n :: 'a::len word) = n"
  by (simp add: unat_of_nat take_bit_nat_eq_self)

lemma unat_inc_word: "unat (i :: 'a::len word) + 1 < 2 ^ LENGTH('a) \<Longrightarrow> unat (i + 1) = unat i + 1"
  by (cases "LENGTH('a) = 1") (auto simp: unat_word_ariths)

end
