(* ===== verification/Parser_Types.thy ===== *)
theory Parser_Types
  imports Byte_Prelude
begin

text \<open>
  The data of the HTTP parser: \<open>src/http_parser.h\<close> and the enumerations at the head of
  \<open>src/http_parser.c\<close>. Enumerations are datatypes with the source's constructors, \<open>struct
  http_parser\<close> is a record whose fields have the width of the bit fields and integers of the
  struct, and a callback is a function from the parser, the bytes it is shown and the
  application's state to C's result, parser and state.
\<close>

section \<open>Enumerations of http\_parser.h\<close>

datatype (plugins only: code size) http_method =
    HTTP_DELETE | HTTP_GET | HTTP_HEAD | HTTP_POST | HTTP_PUT
  | HTTP_CONNECT | HTTP_OPTIONS | HTTP_TRACE
  | HTTP_COPY | HTTP_LOCK | HTTP_MKCOL | HTTP_MOVE | HTTP_PROPFIND | HTTP_PROPPATCH
  | HTTP_SEARCH | HTTP_UNLOCK
  | HTTP_REPORT | HTTP_MKACTIVITY | HTTP_CHECKOUT | HTTP_MERGE
  | HTTP_MSEARCH | HTTP_NOTIFY | HTTP_SUBSCRIBE | HTTP_UNSUBSCRIBE
  | HTTP_PATCH | HTTP_PURGE
  | HTTP_MKCALENDAR

text \<open>\<open>HTTP_METHOD_MAP\<close> numbers the methods in this order, from 0.\<close>

definition http_method_map :: "http_method list" where
  "http_method_map =
     [HTTP_DELETE, HTTP_GET, HTTP_HEAD, HTTP_POST, HTTP_PUT,
      HTTP_CONNECT, HTTP_OPTIONS, HTTP_TRACE,
      HTTP_COPY, HTTP_LOCK, HTTP_MKCOL, HTTP_MOVE, HTTP_PROPFIND, HTTP_PROPPATCH,
      HTTP_SEARCH, HTTP_UNLOCK,
      HTTP_REPORT, HTTP_MKACTIVITY, HTTP_CHECKOUT, HTTP_MERGE,
      HTTP_MSEARCH, HTTP_NOTIFY, HTTP_SUBSCRIBE, HTTP_UNSUBSCRIBE,
      HTTP_PATCH, HTTP_PURGE,
      HTTP_MKCALENDAR]"

datatype http_parser_type = HTTP_REQUEST | HTTP_RESPONSE | HTTP_BOTH

text \<open>\<open>enum flags\<close>: the bits of the 7-bit field \<open>flags\<close>.\<close>

type_synonym flag_bits = "7 word"

definition F_CHUNKED :: flag_bits where "F_CHUNKED = push_bit 0 1"
definition F_CONNECTION_KEEP_ALIVE :: flag_bits where "F_CONNECTION_KEEP_ALIVE = push_bit 1 1"
definition F_CONNECTION_CLOSE :: flag_bits where "F_CONNECTION_CLOSE = push_bit 2 1"
definition F_CONNECTION_UPGRADE :: flag_bits where "F_CONNECTION_UPGRADE = push_bit 3 1"
definition F_TRAILING :: flag_bits where "F_TRAILING = push_bit 4 1"
definition F_UPGRADE :: flag_bits where "F_UPGRADE = push_bit 5 1"
definition F_SKIPBODY :: flag_bits where "F_SKIPBODY = push_bit 6 1"

lemmas flag_defs = F_CHUNKED_def F_CONNECTION_KEEP_ALIVE_def F_CONNECTION_CLOSE_def
  F_CONNECTION_UPGRADE_def F_TRAILING_def F_UPGRADE_def F_SKIPBODY_def

text \<open>C's \<open>if (flags & F)\<close>.\<close>

definition has_flag :: "flag_bits \<Rightarrow> flag_bits \<Rightarrow> bool" where
  "has_flag fs f \<longleftrightarrow> fs AND f \<noteq> 0"

datatype (plugins only: code size) http_errno =
    HPE_OK
  | HPE_CB_message_begin | HPE_CB_url | HPE_CB_header_field | HPE_CB_header_value
  | HPE_CB_headers_complete | HPE_CB_body | HPE_CB_message_complete | HPE_CB_status
  | HPE_CB_chunk_header | HPE_CB_chunk_complete
  | HPE_INVALID_EOF_STATE | HPE_HEADER_OVERFLOW | HPE_CLOSED_CONNECTION
  | HPE_INVALID_VERSION | HPE_INVALID_STATUS | HPE_INVALID_METHOD | HPE_INVALID_URL
  | HPE_INVALID_HOST | HPE_INVALID_PORT | HPE_INVALID_PATH | HPE_INVALID_QUERY_STRING
  | HPE_INVALID_FRAGMENT | HPE_LF_EXPECTED | HPE_INVALID_HEADER_TOKEN
  | HPE_INVALID_CONTENT_LENGTH | HPE_INVALID_CHUNK_SIZE | HPE_INVALID_CONSTANT
  | HPE_INVALID_INTERNAL_STATE | HPE_STRICT | HPE_PAUSED | HPE_UNKNOWN

section \<open>Enumerations of http\_parser.c\<close>

datatype (plugins only: code size) state =
    s_dead
  | s_start_req_or_res | s_res_or_resp_H
  | s_start_res | s_res_H | s_res_HT | s_res_HTT | s_res_HTTP
  | s_res_first_http_major | s_res_http_major | s_res_first_http_minor | s_res_http_minor
  | s_res_first_status_code | s_res_status_code | s_res_status_start | s_res_status
  | s_res_line_almost_done
  | s_start_req
  | s_req_method | s_req_spaces_before_url
  | s_req_schema | s_req_schema_slash | s_req_schema_slash_slash
  | s_req_server_start | s_req_server | s_req_server_with_at | s_req_path
  | s_req_query_string_start | s_req_query_string | s_req_fragment_start | s_req_fragment
  | s_req_http_start | s_req_http_H | s_req_http_HT | s_req_http_HTT | s_req_http_HTTP
  | s_req_first_http_major | s_req_http_major | s_req_first_http_minor | s_req_http_minor
  | s_req_line_almost_done
  | s_header_field_start | s_header_field
  | s_header_value_discard_ws | s_header_value_discard_ws_almost_done
  | s_header_value_discard_lws | s_header_value_start | s_header_value | s_header_value_lws
  | s_header_almost_done
  | s_chunk_size_start | s_chunk_size | s_chunk_parameters | s_chunk_size_almost_done
  | s_headers_almost_done | s_headers_done
  | s_chunk_data | s_chunk_data_almost_done | s_chunk_data_done
  | s_body_identity | s_body_identity_eof
  | s_message_done

datatype (plugins only: code size) header_states =
    h_general | h_C | h_CO | h_CON
  | h_matching_connection | h_matching_proxy_connection | h_matching_content_length
  | h_matching_transfer_encoding | h_matching_upgrade
  | h_connection | h_content_length | h_transfer_encoding | h_upgrade
  | h_matching_transfer_encoding_chunked | h_matching_connection_token_start
  | h_matching_connection_keep_alive | h_matching_connection_close
  | h_matching_connection_upgrade | h_matching_connection_token
  | h_transfer_encoding_chunked | h_connection_keep_alive | h_connection_close
  | h_connection_upgrade

datatype http_host_state =
    s_http_host_dead
  | s_http_userinfo_start | s_http_userinfo
  | s_http_host_start | s_http_host_v6_start | s_http_host | s_http_host_v6
  | s_http_host_v6_end | s_http_host_port_start | s_http_host_port

text \<open>
  The enumerators of \<open>enum state\<close> are numbered from \<open>s_dead = 1\<close> in the order of their
  declaration, and \<open>PARSING_HEADER\<close> compares states by that number. The order makes \<open>state\<close> a
  \<open>linorder\<close>.
\<close>

primrec state_num :: "state \<Rightarrow> nat" where
  "state_num s_dead = 1"
| "state_num s_start_req_or_res = 2"
| "state_num s_res_or_resp_H = 3"
| "state_num s_start_res = 4"
| "state_num s_res_H = 5"
| "state_num s_res_HT = 6"
| "state_num s_res_HTT = 7"
| "state_num s_res_HTTP = 8"
| "state_num s_res_first_http_major = 9"
| "state_num s_res_http_major = 10"
| "state_num s_res_first_http_minor = 11"
| "state_num s_res_http_minor = 12"
| "state_num s_res_first_status_code = 13"
| "state_num s_res_status_code = 14"
| "state_num s_res_status_start = 15"
| "state_num s_res_status = 16"
| "state_num s_res_line_almost_done = 17"
| "state_num s_start_req = 18"
| "state_num s_req_method = 19"
| "state_num s_req_spaces_before_url = 20"
| "state_num s_req_schema = 21"
| "state_num s_req_schema_slash = 22"
| "state_num s_req_schema_slash_slash = 23"
| "state_num s_req_server_start = 24"
| "state_num s_req_server = 25"
| "state_num s_req_server_with_at = 26"
| "state_num s_req_path = 27"
| "state_num s_req_query_string_start = 28"
| "state_num s_req_query_string = 29"
| "state_num s_req_fragment_start = 30"
| "state_num s_req_fragment = 31"
| "state_num s_req_http_start = 32"
| "state_num s_req_http_H = 33"
| "state_num s_req_http_HT = 34"
| "state_num s_req_http_HTT = 35"
| "state_num s_req_http_HTTP = 36"
| "state_num s_req_first_http_major = 37"
| "state_num s_req_http_major = 38"
| "state_num s_req_first_http_minor = 39"
| "state_num s_req_http_minor = 40"
| "state_num s_req_line_almost_done = 41"
| "state_num s_header_field_start = 42"
| "state_num s_header_field = 43"
| "state_num s_header_value_discard_ws = 44"
| "state_num s_header_value_discard_ws_almost_done = 45"
| "state_num s_header_value_discard_lws = 46"
| "state_num s_header_value_start = 47"
| "state_num s_header_value = 48"
| "state_num s_header_value_lws = 49"
| "state_num s_header_almost_done = 50"
| "state_num s_chunk_size_start = 51"
| "state_num s_chunk_size = 52"
| "state_num s_chunk_parameters = 53"
| "state_num s_chunk_size_almost_done = 54"
| "state_num s_headers_almost_done = 55"
| "state_num s_headers_done = 56"
| "state_num s_chunk_data = 57"
| "state_num s_chunk_data_almost_done = 58"
| "state_num s_chunk_data_done = 59"
| "state_num s_body_identity = 60"
| "state_num s_body_identity_eof = 61"
| "state_num s_message_done = 62"

definition state_enum :: "state list" where
  "state_enum =
     [s_dead, s_start_req_or_res, s_res_or_resp_H, s_start_res, s_res_H, s_res_HT,
      s_res_HTT, s_res_HTTP, s_res_first_http_major, s_res_http_major,
      s_res_first_http_minor, s_res_http_minor, s_res_first_status_code, s_res_status_code,
      s_res_status_start, s_res_status, s_res_line_almost_done, s_start_req, s_req_method,
      s_req_spaces_before_url, s_req_schema, s_req_schema_slash, s_req_schema_slash_slash,
      s_req_server_start, s_req_server, s_req_server_with_at, s_req_path,
      s_req_query_string_start, s_req_query_string, s_req_fragment_start, s_req_fragment,
      s_req_http_start, s_req_http_H, s_req_http_HT, s_req_http_HTT, s_req_http_HTTP,
      s_req_first_http_major, s_req_http_major, s_req_first_http_minor, s_req_http_minor,
      s_req_line_almost_done, s_header_field_start, s_header_field,
      s_header_value_discard_ws, s_header_value_discard_ws_almost_done,
      s_header_value_discard_lws, s_header_value_start, s_header_value, s_header_value_lws,
      s_header_almost_done, s_chunk_size_start, s_chunk_size, s_chunk_parameters,
      s_chunk_size_almost_done, s_headers_almost_done, s_headers_done, s_chunk_data,
      s_chunk_data_almost_done, s_chunk_data_done, s_body_identity, s_body_identity_eof,
      s_message_done]"

lemma state_enum_num: "state_enum ! (state_num s - 1) = s"
  by (cases s) (simp_all add: state_enum_def)

lemma state_num_inj: "state_num s = state_num t \<Longrightarrow> s = t"
  by (metis state_enum_num)

instantiation state :: linorder
begin

definition less_eq_state :: "state \<Rightarrow> state \<Rightarrow> bool" where
  "less_eq_state s t \<longleftrightarrow> state_num s \<le> state_num t"

definition less_state :: "state \<Rightarrow> state \<Rightarrow> bool" where
  "less_state s t \<longleftrightarrow> state_num s < state_num t"

instance
  by standard (auto simp: less_eq_state_def less_state_def intro: state_num_inj)

end

definition PARSING_HEADER :: "state \<Rightarrow> bool" where
  "PARSING_HEADER s \<longleftrightarrow> s \<le> s_headers_done"

lemma PARSING_HEADER_iff:
  "PARSING_HEADER s \<longleftrightarrow>
     s \<notin> {s_chunk_data, s_chunk_data_almost_done, s_chunk_data_done, s_body_identity,
           s_body_identity_eof, s_message_done}"
  by (cases s) (simp_all add: PARSING_HEADER_def less_eq_state_def)

section \<open>Flag bits\<close>

lemma has_flag_bit:
  "has_flag fs F_CHUNKED = bit fs 0"
  "has_flag fs F_CONNECTION_KEEP_ALIVE = bit fs 1"
  "has_flag fs F_CONNECTION_CLOSE = bit fs 2"
  "has_flag fs F_CONNECTION_UPGRADE = bit fs 3"
  "has_flag fs F_TRAILING = bit fs 4"
  "has_flag fs F_UPGRADE = bit fs 5"
  "has_flag fs F_SKIPBODY = bit fs 6"
  unfolding has_flag_def flag_defs
  by (simp_all only: push_bit_eq_mult mult_1 and_exp_eq_0_iff_not_bit not_not)

lemma has_flag_0 [simp, flag_simps]: "\<not> has_flag 0 f"
  by (simp add: has_flag_def)

lemma has_flag_or [simp, flag_simps]: "has_flag (fs OR gs) f \<longleftrightarrow> has_flag fs f \<or> has_flag gs f"
  by (auto simp: has_flag_def bit_eq_iff bit_or_iff bit_and_iff)

lemma has_flag_F [simp, flag_simps]:
  "has_flag F_CHUNKED F_CHUNKED"
  "\<not> has_flag F_CONNECTION_KEEP_ALIVE F_CHUNKED"
  "\<not> has_flag F_CONNECTION_CLOSE F_CHUNKED"
  "\<not> has_flag F_CONNECTION_UPGRADE F_CHUNKED"
  "\<not> has_flag F_TRAILING F_CHUNKED"
  "\<not> has_flag F_UPGRADE F_CHUNKED"
  "\<not> has_flag F_SKIPBODY F_CHUNKED"
  "\<not> has_flag F_CHUNKED F_CONNECTION_KEEP_ALIVE"
  "has_flag F_CONNECTION_KEEP_ALIVE F_CONNECTION_KEEP_ALIVE"
  "\<not> has_flag F_CONNECTION_CLOSE F_CONNECTION_KEEP_ALIVE"
  "\<not> has_flag F_CONNECTION_UPGRADE F_CONNECTION_KEEP_ALIVE"
  "\<not> has_flag F_TRAILING F_CONNECTION_KEEP_ALIVE"
  "\<not> has_flag F_UPGRADE F_CONNECTION_KEEP_ALIVE"
  "\<not> has_flag F_SKIPBODY F_CONNECTION_KEEP_ALIVE"
  "\<not> has_flag F_CHUNKED F_CONNECTION_CLOSE"
  "\<not> has_flag F_CONNECTION_KEEP_ALIVE F_CONNECTION_CLOSE"
  "has_flag F_CONNECTION_CLOSE F_CONNECTION_CLOSE"
  "\<not> has_flag F_CONNECTION_UPGRADE F_CONNECTION_CLOSE"
  "\<not> has_flag F_TRAILING F_CONNECTION_CLOSE"
  "\<not> has_flag F_UPGRADE F_CONNECTION_CLOSE"
  "\<not> has_flag F_SKIPBODY F_CONNECTION_CLOSE"
  "\<not> has_flag F_CHUNKED F_CONNECTION_UPGRADE"
  "\<not> has_flag F_CONNECTION_KEEP_ALIVE F_CONNECTION_UPGRADE"
  "\<not> has_flag F_CONNECTION_CLOSE F_CONNECTION_UPGRADE"
  "has_flag F_CONNECTION_UPGRADE F_CONNECTION_UPGRADE"
  "\<not> has_flag F_TRAILING F_CONNECTION_UPGRADE"
  "\<not> has_flag F_UPGRADE F_CONNECTION_UPGRADE"
  "\<not> has_flag F_SKIPBODY F_CONNECTION_UPGRADE"
  "\<not> has_flag F_CHUNKED F_TRAILING"
  "\<not> has_flag F_CONNECTION_KEEP_ALIVE F_TRAILING"
  "\<not> has_flag F_CONNECTION_CLOSE F_TRAILING"
  "\<not> has_flag F_CONNECTION_UPGRADE F_TRAILING"
  "has_flag F_TRAILING F_TRAILING"
  "\<not> has_flag F_UPGRADE F_TRAILING"
  "\<not> has_flag F_SKIPBODY F_TRAILING"
  "\<not> has_flag F_CHUNKED F_UPGRADE"
  "\<not> has_flag F_CONNECTION_KEEP_ALIVE F_UPGRADE"
  "\<not> has_flag F_CONNECTION_CLOSE F_UPGRADE"
  "\<not> has_flag F_CONNECTION_UPGRADE F_UPGRADE"
  "\<not> has_flag F_TRAILING F_UPGRADE"
  "has_flag F_UPGRADE F_UPGRADE"
  "\<not> has_flag F_SKIPBODY F_UPGRADE"
  "\<not> has_flag F_CHUNKED F_SKIPBODY"
  "\<not> has_flag F_CONNECTION_KEEP_ALIVE F_SKIPBODY"
  "\<not> has_flag F_CONNECTION_CLOSE F_SKIPBODY"
  "\<not> has_flag F_CONNECTION_UPGRADE F_SKIPBODY"
  "\<not> has_flag F_TRAILING F_SKIPBODY"
  "\<not> has_flag F_UPGRADE F_SKIPBODY"
  "has_flag F_SKIPBODY F_SKIPBODY"
  by (simp_all add: has_flag_def flag_defs)

section \<open>struct http\_parser\<close>

text \<open>
  \<open>type\<close>, \<open>method\<close> and \<open>data\<close> are the fields \<open>p_type\<close>, \<open>p_method\<close> and \<open>p_data\<close>. The bit
  fields that hold an enumerator are of the enumeration's type; the code never stores another
  value in them. \<open>p_data\<close> is the application's pointer, which the parser only carries.
\<close>

record http_parser =
  p_type :: http_parser_type
  flags :: flag_bits
  state :: state
  header_state :: header_states
  index :: uint8
  nread :: uint32
  content_length :: uint64
  http_major :: uint16
  http_minor :: uint16
  status_code :: uint16
  p_method :: http_method
  http_errno :: http_errno
  upgrade :: bool
  p_data :: uint64

section \<open>Callbacks\<close>

text \<open>
  A notification callback gets the parser and may change it and the application's state (of
  type \<open>'u\<close>); its \<open>int\<close> result comes first. A data callback also gets the pointer and the
  length of the bytes it is shown: the model passes the offset of the pointer in the buffer
  given to \<open>http_parser_execute\<close>, and the bytes themselves.
\<close>

type_synonym 'u http_cb = "http_parser \<Rightarrow> 'u \<Rightarrow> int \<times> http_parser \<times> 'u"
type_synonym 'u http_data_cb = "http_parser \<Rightarrow> nat \<Rightarrow> byte list \<Rightarrow> 'u \<Rightarrow> int \<times> http_parser \<times> 'u"

record 'u http_parser_settings =
  on_message_begin :: "'u http_cb option"
  on_url :: "'u http_data_cb option"
  on_status :: "'u http_data_cb option"
  on_header_field :: "'u http_data_cb option"
  on_header_value :: "'u http_data_cb option"
  on_headers_complete :: "'u http_cb option"
  on_body :: "'u http_data_cb option"
  on_message_complete :: "'u http_cb option"
  on_chunk_header :: "'u http_cb option"
  on_chunk_complete :: "'u http_cb option"

end
