(* ===== verification/Char_Classes.thy ===== *)
theory Char_Classes
  imports Parser_Types
begin

text \<open>
  The byte tables and character-class macros of \<open>src/http_parser.c\<close>, in strict mode
  (\<open>HTTP_PARSER_STRICT\<close> is 1 unless the build sets it, and no makefile here does). The three
  tables are transcribed row by row. A C array of 256 elements with 128 (or 16) initialisers
  is zero in the rest, which matters for \<open>unhex\<close>: a byte of 128 and more reads as the digit 0,
  not as \<open>-1\<close>. Each macro then has a lemma in \<open>byte_simps\<close> that names the bytes it accepts.
\<close>

section \<open>Tables\<close>

text \<open>The rows of the table are the code's rows of eight entries.\<close>

definition tokens :: "byte list" where
  "tokens =
     concat
      [[NUL, NUL, NUL, NUL, NUL, NUL, NUL, NUL],
       [NUL, NUL, NUL, NUL, NUL, NUL, NUL, NUL],
       [NUL, NUL, NUL, NUL, NUL, NUL, NUL, NUL],
       [NUL, NUL, NUL, NUL, NUL, NUL, NUL, NUL],
       [NUL, CHR ''!'', NUL, CHR ''#'', CHR ''$'', CHR ''%'', CHR ''&'', CHR 0x27],
       [NUL, NUL, CHR ''*'', CHR ''+'', NUL, CHR ''-'', CHR ''.'', NUL],
       ''01234567'',
       ''89'' @ [NUL, NUL, NUL, NUL, NUL, NUL],
       NUL # ''abcdefg'',
       ''hijklmno'',
       ''pqrstuvw'',
       ''xyz'' @ [NUL, NUL, NUL] @ ''^_'',
       CHR 0x60 # ''abcdefg'',
       ''hijklmno'',
       ''pqrstuvw'',
       ''xyz'' @ [NUL, CHR ''|'', NUL, CHR ''~'', NUL]]
     @ replicate 128 NUL"

definition unhex :: "int list" where
  "unhex =
     [- 1, - 1, - 1, - 1, - 1, - 1, - 1, - 1, - 1, - 1, - 1, - 1, - 1, - 1, - 1, - 1,
      - 1, - 1, - 1, - 1, - 1, - 1, - 1, - 1, - 1, - 1, - 1, - 1, - 1, - 1, - 1, - 1,
      - 1, - 1, - 1, - 1, - 1, - 1, - 1, - 1, - 1, - 1, - 1, - 1, - 1, - 1, - 1, - 1,
      0, 1, 2, 3, 4, 5, 6, 7, 8, 9, - 1, - 1, - 1, - 1, - 1, - 1,
      - 1, 10, 11, 12, 13, 14, 15, - 1, - 1, - 1, - 1, - 1, - 1, - 1, - 1, - 1,
      - 1, - 1, - 1, - 1, - 1, - 1, - 1, - 1, - 1, - 1, - 1, - 1, - 1, - 1, - 1, - 1,
      - 1, 10, 11, 12, 13, 14, 15, - 1, - 1, - 1, - 1, - 1, - 1, - 1, - 1, - 1,
      - 1, - 1, - 1, - 1, - 1, - 1, - 1, - 1, - 1, - 1, - 1, - 1, - 1, - 1, - 1, - 1] @ replicate 128 0"

definition normal_url_char :: "nat list" where
  "normal_url_char =
     [0 OR 0 OR 0 OR 0 OR 0 OR 0 OR 0 OR 0,
      0 OR 0 OR 0 OR 0 OR 0 OR 0 OR 0 OR 0,
      0 OR 0 OR 0 OR 0 OR 0 OR 0 OR 0 OR 0,
      0 OR 0 OR 0 OR 0 OR 0 OR 0 OR 0 OR 0,
      0 OR 2 OR 4 OR 0 OR 16 OR 32 OR 64 OR 128,
      1 OR 2 OR 4 OR 8 OR 16 OR 32 OR 64 OR 128,
      1 OR 2 OR 4 OR 8 OR 16 OR 32 OR 64 OR 128,
      1 OR 2 OR 4 OR 8 OR 16 OR 32 OR 64 OR 0,
      1 OR 2 OR 4 OR 8 OR 16 OR 32 OR 64 OR 128,
      1 OR 2 OR 4 OR 8 OR 16 OR 32 OR 64 OR 128,
      1 OR 2 OR 4 OR 8 OR 16 OR 32 OR 64 OR 128,
      1 OR 2 OR 4 OR 8 OR 16 OR 32 OR 64 OR 128,
      1 OR 2 OR 4 OR 8 OR 16 OR 32 OR 64 OR 128,
      1 OR 2 OR 4 OR 8 OR 16 OR 32 OR 64 OR 128,
      1 OR 2 OR 4 OR 8 OR 16 OR 32 OR 64 OR 128,
      1 OR 2 OR 4 OR 8 OR 16 OR 32 OR 64 OR 0] @ replicate 16 0"

text \<open>\<open>BIT_AT\<close>: bit \<open>i\<close> of a bit map stored as bytes.\<close>

definition BIT_AT :: "nat list \<Rightarrow> nat \<Rightarrow> bool" where
  "BIT_AT a i \<longleftrightarrow> a ! (drop_bit 3 i) AND push_bit (i AND 7) 1 \<noteq> 0"

section \<open>Macros\<close>

text \<open>\<open>LOWER (c)\<close> is \<open>(unsigned char) (c | 0x20)\<close>: it sets bit 5.\<close>

fun LOWER :: "byte \<Rightarrow> byte" where
  "LOWER (Char b0 b1 b2 b3 b4 b5 b6 b7) = Char b0 b1 b2 b3 b4 True b6 b7"

definition IS_ALPHA :: "byte \<Rightarrow> bool" where
  "IS_ALPHA c \<longleftrightarrow> CHR ''a'' \<le> LOWER c \<and> LOWER c \<le> CHR ''z''"

definition IS_NUM :: "byte \<Rightarrow> bool" where
  "IS_NUM c \<longleftrightarrow> schar (CHR ''0'') \<le> schar c \<and> schar c \<le> schar (CHR ''9'')"

definition IS_ALPHANUM :: "byte \<Rightarrow> bool" where
  "IS_ALPHANUM c \<longleftrightarrow> IS_ALPHA c \<or> IS_NUM c"

definition IS_HEX :: "byte \<Rightarrow> bool" where
  "IS_HEX c \<longleftrightarrow> IS_NUM c \<or> (CHR ''a'' \<le> LOWER c \<and> LOWER c \<le> CHR ''f'')"

definition IS_MARK :: "byte \<Rightarrow> bool" where
  "IS_MARK c \<longleftrightarrow> c = CHR ''-'' \<or> c = CHR ''_'' \<or> c = CHR ''.'' \<or> c = CHR ''!'' \<or> c = CHR ''~''
     \<or> c = CHR ''*'' \<or> c = CHR 0x27 \<or> c = CHR ''('' \<or> c = CHR '')''"

definition IS_USERINFO_CHAR :: "byte \<Rightarrow> bool" where
  "IS_USERINFO_CHAR c \<longleftrightarrow> IS_ALPHANUM c \<or> IS_MARK c \<or> c = CHR ''%'' \<or> c = CHR '';''
     \<or> c = CHR '':'' \<or> c = CHR ''&'' \<or> c = CHR ''='' \<or> c = CHR ''+'' \<or> c = CHR ''$''
     \<or> c = CHR '',''"

definition STRICT_TOKEN :: "byte \<Rightarrow> byte" where
  "STRICT_TOKEN c = tokens ! of_char c"

definition TOKEN :: "byte \<Rightarrow> byte" where
  "TOKEN c = tokens ! of_char c"

definition IS_URL_CHAR :: "byte \<Rightarrow> bool" where
  "IS_URL_CHAR c \<longleftrightarrow> BIT_AT normal_url_char (of_char c)"

definition IS_HOST_CHAR :: "byte \<Rightarrow> bool" where
  "IS_HOST_CHAR c \<longleftrightarrow> IS_ALPHANUM c \<or> c = CHR ''.'' \<or> c = CHR ''-''"

text \<open>\<open>unhex[(unsigned char) ch]\<close> and the digit value \<open>ch - '0'\<close>.\<close>

definition unhex_val :: "byte \<Rightarrow> int" where
  "unhex_val c = unhex ! of_char c"

definition digit_val :: "byte \<Rightarrow> int" where
  "digit_val c = schar c - schar (CHR ''0'')"

section \<open>What the tables and macros accept\<close>

lemma length_tokens: "length tokens = 256"
  by (simp add: tokens_def)

lemma length_unhex: "length unhex = 256"
  by (simp add: unhex_def)

lemma length_normal_url_char: "length normal_url_char = 32"
  by (simp add: normal_url_char_def)

text \<open>No table is read out of range: an unsigned char is below 256, and \<open>BIT_AT\<close> shifts it by 3.\<close>

lemma table_index_bounds:
  "of_char c < length tokens" "of_char c < length unhex"
  "drop_bit 3 (of_char c) < length normal_url_char"
proof -
  have "(of_char c :: nat) < 256" by simp
  then show "of_char c < length tokens" "of_char c < length unhex"
    "drop_bit 3 (of_char c) < length normal_url_char"
    by (simp_all add: length_tokens length_unhex length_normal_url_char drop_bit_eq_div div_less_iff_less_mult)
qed

text \<open>
  The byte predicates, decided over the 256 bytes; \<open>by_bytes\<close> is what such a proof unfolds.
\<close>

lemmas by_bytes = all_byte_list_def ascii_bytes_def high_bytes_def schar_def IS_NUM_def IS_ALPHA_def
  IS_ALPHANUM_def IS_HEX_def

lemma IS_NUM_iff [rule_format, byte_simps]: "\<forall>c. IS_NUM c \<longleftrightarrow> c \<in> set ''0123456789''"
  by (rule all_bytes) (simp add: by_bytes)

text \<open>The comparison is the same whether \<open>char\<close> is signed or not.\<close>

lemma IS_NUM_unsigned [rule_format]: "\<forall>c. IS_NUM c \<longleftrightarrow> CHR ''0'' \<le> c \<and> c \<le> CHR ''9''"
  by (rule all_bytes) (simp add: by_bytes)

lemma IS_ALPHA_iff [rule_format, byte_simps]:
  "\<forall>c. IS_ALPHA c \<longleftrightarrow> (CHR ''a'' \<le> c \<and> c \<le> CHR ''z'') \<or> (CHR ''A'' \<le> c \<and> c \<le> CHR ''Z'')"
  by (rule all_bytes) (simp add: by_bytes)

lemma IS_HEX_iff [rule_format, byte_simps]:
  "\<forall>c. IS_HEX c \<longleftrightarrow>
     IS_NUM c \<or> (CHR ''a'' \<le> c \<and> c \<le> CHR ''f'') \<or> (CHR ''A'' \<le> c \<and> c \<le> CHR ''F'')"
  by (rule all_bytes) (simp add: by_bytes)

lemma TOKEN_NUL_iff [byte_simps]:
  "TOKEN c = NUL \<longleftrightarrow> \<not> IS_ALPHANUM c \<and> c \<noteq> CHR 0x27 \<and> c \<noteq> CHR 0x60 \<and> c \<notin> set ''!#$%&*+-.^_|~''"
  unfolding TOKEN_def tokens_def
  by (rule all_table_entries [where P = "\<lambda>c t. t = NUL \<longleftrightarrow>
        \<not> IS_ALPHANUM c \<and> c \<noteq> CHR 0x27 \<and> c \<noteq> CHR 0x60 \<and> c \<notin> set ''!#$%&*+-.^_|~''"])
    (simp_all add: by_bytes)

text \<open>A token byte is mapped to its lower-case form.\<close>

lemma TOKEN_lower [rule_format]: "TOKEN c \<noteq> NUL \<longrightarrow> TOKEN c = (if IS_ALPHA c then LOWER c else c)"
  unfolding TOKEN_def tokens_def
  by (rule all_table_entries [where P = "\<lambda>c t. t \<noteq> NUL \<longrightarrow> t = (if IS_ALPHA c then LOWER c else c)"])
    (simp_all add: by_bytes)

lemma normal_url_char_eq:
  "normal_url_char = [0, 0, 0, 0, 246, 255, 255, 127, 255, 255, 255, 255, 255, 255, 255, 127]
     @ replicate 16 0"
  by (simp add: normal_url_char_def)

lemma IS_URL_CHAR_iff [rule_format, byte_simps]:
  "\<forall>c. IS_URL_CHAR c \<longleftrightarrow> CHR 0x21 \<le> c \<and> c \<le> CHR 0x7E \<and> c \<noteq> CHR ''#'' \<and> c \<noteq> CHR ''?''"
  unfolding IS_URL_CHAR_def BIT_AT_def normal_url_char_eq
  by (rule all_bytes) (simp add: by_bytes nth_append numeral_2_eq_2 [symmetric] numeral_3_eq_3 [symmetric])

lemma digit_val_range: "IS_NUM c \<Longrightarrow> 0 \<le> digit_val c \<and> digit_val c \<le> 9"
  by (simp add: IS_NUM_def digit_val_def schar_def split: if_splits)

lemma digit_val_nat:
  assumes "IS_NUM c"
  obtains n where "digit_val c = int n" and "n < 10"
proof -
  have ge: "0 \<le> digit_val c" and le: "digit_val c \<le> 9" using digit_val_range [OF assms] by simp_all
  from ge obtain n where n: "digit_val c = int n" by (rule nonneg_int_cases)
  with le have "n < 10" by simp
  with n show thesis by (rule that)
qed

lemma unhex_val_range: "- 1 \<le> unhex_val c \<and> unhex_val c \<le> 15"
  unfolding unhex_val_def unhex_def
  by (rule all_table_entries [where P = "\<lambda>c t. - 1 \<le> t \<and> t \<le> 15"]) (simp_all add: by_bytes)

text \<open>The bytes \<open>unhex\<close> rejects: those below 128 that are no hexadecimal digit.\<close>

lemma unhex_val_reject: "unhex_val c = - 1 \<longleftrightarrow> \<not> IS_HEX c \<and> (of_char c :: nat) < 128"
  unfolding unhex_val_def unhex_def
  by (rule all_table_entries
      [where P = "\<lambda>c t. t = - 1 \<longleftrightarrow> \<not> IS_HEX c \<and> (of_char c :: nat) < 128"])
    (simp_all add: by_bytes)

lemma unhex_val_high [rule_format]: "128 \<le> (of_char c :: nat) \<longrightarrow> unhex_val c = 0"
  unfolding unhex_val_def unhex_def
  by (rule all_table_entries [where P = "\<lambda>c t. 128 \<le> (of_char c :: nat) \<longrightarrow> t = 0"])
    (simp_all add: by_bytes)

end
