(* ===== verification/Url_Char.thy ===== *)
theory Url_Char
  imports Char_Classes
begin

text \<open>
  \<open>parse_url_char\<close> of \<open>src/http_parser.c\<close>: the byte-for-byte transition function of the URL
  parser, shared by \<open>http_parser_execute\<close> (which validates request URLs with it) and
  \<open>http_parser_parse_url\<close> (which splits a URL with it). The lemmas give the states it can reach
  and the bytes each of them accepts.
\<close>

section \<open>The transition function\<close>

text \<open>The cases \<open>s_req_server_start\<close> and \<open>s_req_server\<close>, which \<open>s_req_server_with_at\<close> falls into.\<close>

definition parse_url_server :: "byte \<Rightarrow> state" where
  "parse_url_server ch =
     (if ch = CHR ''/'' then s_req_path
      else if ch = CHR ''?'' then s_req_query_string_start
      else if ch = CHR ''@'' then s_req_server_with_at
      else if IS_USERINFO_CHAR ch \<or> ch = CHR ''['' \<or> ch = CHR '']'' then s_req_server
      else s_dead)"

definition parse_url_char :: "state \<Rightarrow> byte \<Rightarrow> state" where
  "parse_url_char s ch =
     (if ch = CHR '' '' \<or> ch = CR \<or> ch = LF then s_dead
      else if ch = TAB \<or> ch = FF then s_dead
      else case s of
        s_req_spaces_before_url \<Rightarrow>
          if ch = CHR ''/'' \<or> ch = CHR ''*'' then s_req_path
          else if IS_ALPHA ch then s_req_schema
          else s_dead
      | s_req_schema \<Rightarrow>
          if IS_ALPHA ch then s
          else if ch = CHR '':'' then s_req_schema_slash
          else s_dead
      | s_req_schema_slash \<Rightarrow>
          if ch = CHR ''/'' then s_req_schema_slash_slash else s_dead
      | s_req_schema_slash_slash \<Rightarrow>
          if ch = CHR ''/'' then s_req_server_start else s_dead
      | s_req_server_with_at \<Rightarrow>
          if ch = CHR ''@'' then s_dead else parse_url_server ch
      | s_req_server_start \<Rightarrow> parse_url_server ch
      | s_req_server \<Rightarrow> parse_url_server ch
      | s_req_path \<Rightarrow>
          if IS_URL_CHAR ch then s
          else if ch = CHR ''?'' then s_req_query_string_start
          else if ch = CHR ''#'' then s_req_fragment_start
          else s_dead
      | s_req_query_string_start \<Rightarrow>
          if IS_URL_CHAR ch then s_req_query_string
          else if ch = CHR ''?'' then s_req_query_string
          else if ch = CHR ''#'' then s_req_fragment_start
          else s_dead
      | s_req_query_string \<Rightarrow>
          if IS_URL_CHAR ch then s_req_query_string
          else if ch = CHR ''?'' then s_req_query_string
          else if ch = CHR ''#'' then s_req_fragment_start
          else s_dead
      | s_req_fragment_start \<Rightarrow>
          if IS_URL_CHAR ch then s_req_fragment
          else if ch = CHR ''?'' then s_req_fragment
          else if ch = CHR ''#'' then s
          else s_dead
      | s_req_fragment \<Rightarrow>
          if IS_URL_CHAR ch then s
          else if ch = CHR ''?'' \<or> ch = CHR ''#'' then s
          else s_dead
      | _ \<Rightarrow> s_dead)"

section \<open>Reachable states and accepted bytes\<close>

text \<open>The states of the URL parser once it has read a byte.\<close>

definition url_state :: "state \<Rightarrow> bool" where
  "url_state s \<longleftrightarrow> s \<in> {s_req_schema, s_req_schema_slash, s_req_schema_slash_slash,
     s_req_server_start, s_req_server, s_req_server_with_at, s_req_path,
     s_req_query_string_start, s_req_query_string, s_req_fragment_start, s_req_fragment}"

lemma parse_url_server_range:
  "parse_url_server ch \<in> {s_dead, s_req_path, s_req_query_string_start, s_req_server_with_at,
     s_req_server}"
  by (simp add: parse_url_server_def)

lemma parse_url_char_range: "parse_url_char s ch = s_dead \<or> url_state (parse_url_char s ch)"
  using parse_url_server_range [of ch]
  by (cases s) (auto simp: parse_url_char_def url_state_def)

lemma url_state_not_dead [simp]: "url_state s \<Longrightarrow> s \<noteq> s_dead"
  by (auto simp: url_state_def)

lemma parse_url_char_stuck: "s \<noteq> s_req_spaces_before_url \<Longrightarrow> \<not> url_state s \<Longrightarrow> parse_url_char s ch = s_dead"
  by (cases s) (auto simp: parse_url_char_def url_state_def)

text \<open>Only printable ASCII bytes are ever accepted.\<close>

lemma unprintable [rule_format]:
  "\<forall>ch. ch < CHR 0x21 \<or> CHR 0x7E < ch \<longrightarrow>
     \<not> IS_ALPHA ch \<and> \<not> IS_URL_CHAR ch \<and> parse_url_server ch = s_dead
     \<and> ch \<noteq> CHR ''/'' \<and> ch \<noteq> CHR ''*'' \<and> ch \<noteq> CHR '':'' \<and> ch \<noteq> CHR ''?'' \<and> ch \<noteq> CHR ''#''"
  by (rule all_bytes)
    (simp add: parse_url_server_def IS_USERINFO_CHAR_def IS_MARK_def IS_URL_CHAR_iff by_bytes)

lemma parse_url_char_printable:
  assumes "parse_url_char s ch \<noteq> s_dead"
  shows "CHR 0x21 \<le> ch \<and> ch \<le> CHR 0x7E"
proof (rule ccontr)
  assume "\<not> ?thesis"
  then have "ch < CHR 0x21 \<or> CHR 0x7E < ch" by (simp add: not_le)
  from unprintable [OF this] have "parse_url_char s ch = s_dead"
    by (cases s) (simp_all add: parse_url_char_def)
  with assms show False by simp
qed

end
