(* ===== verification/Parser_Core.thy ===== *)
theory Parser_Core
  imports Url_Char
begin

text \<open>
  The frame of \<open>http_parser_execute\<close> (\<open>src/http_parser.c\<close>): its local variables, what a case
  of the state switch can end in, the macros that the cases are written with, and the
  predicates on a parser that they consult.

  A case of the switch ends in \<open>break\<close> (go on with the next byte), \<open>REEXECUTE\<close> (run the switch
  again on the same byte), \<open>goto error\<close>, a \<open>return\<close> from a callback macro, or a fault: an
  \<open>assert\<close> that fails (the debug build) or a read past a string's end. The macros that may
  leave the function take the rest of the case as a continuation.
\<close>

section \<open>Predicates on a parser\<close>

definition ULLONG_MAX :: uint64 where
  "ULLONG_MAX = 0xFFFFFFFFFFFFFFFF"

definition HTTP_MAX_HEADER_SIZE :: nat where
  "HTTP_MAX_HEADER_SIZE = 80 * 1024"

definition http_message_needs_eof :: "http_parser \<Rightarrow> bool" where
  "http_message_needs_eof ps =
     (if p_type ps = HTTP_REQUEST then False
      else if status_code ps div 100 = 1 \<or> status_code ps = 204 \<or> status_code ps = 304
        \<or> has_flag (flags ps) F_SKIPBODY then False
      else if has_flag (flags ps) F_CHUNKED \<or> content_length ps \<noteq> ULLONG_MAX then False
      else True)"

definition http_should_keep_alive :: "http_parser \<Rightarrow> bool" where
  "http_should_keep_alive ps =
     (if 0 < http_major ps \<and> 0 < http_minor ps
      then (if has_flag (flags ps) F_CONNECTION_CLOSE then False
            else \<not> http_message_needs_eof ps)
      else (if \<not> has_flag (flags ps) F_CONNECTION_KEEP_ALIVE then False
            else \<not> http_message_needs_eof ps))"

definition start_state :: "http_parser \<Rightarrow> state" where
  "start_state ps = (if p_type ps = HTTP_REQUEST then s_start_req else s_start_res)"

definition NEW_MESSAGE :: "http_parser \<Rightarrow> state" where
  "NEW_MESSAGE ps = (if http_should_keep_alive ps then start_state ps else s_dead)"

section \<open>Local variables and outcomes\<close>

text \<open>
  \<open>FOR\<close> in the data callback macros: the kind of data, which selects the mark \<open>FOR_mark\<close>, the
  callback \<open>on_FOR\<close> and the error \<open>HPE_CB_FOR\<close>. The same for the notification macros.
\<close>

datatype data_for = FOR_header_field | FOR_header_value | FOR_url | FOR_body | FOR_status

datatype notify_for =
  FOR_message_begin | FOR_message_complete | FOR_chunk_header | FOR_chunk_complete

fun on_data :: "'u http_parser_settings \<Rightarrow> data_for \<Rightarrow> 'u http_data_cb option" where
  "on_data cfg FOR_header_field = on_header_field cfg"
| "on_data cfg FOR_header_value = on_header_value cfg"
| "on_data cfg FOR_url = on_url cfg"
| "on_data cfg FOR_body = on_body cfg"
| "on_data cfg FOR_status = on_status cfg"

fun data_errno :: "data_for \<Rightarrow> http_errno" where
  "data_errno FOR_header_field = HPE_CB_header_field"
| "data_errno FOR_header_value = HPE_CB_header_value"
| "data_errno FOR_url = HPE_CB_url"
| "data_errno FOR_body = HPE_CB_body"
| "data_errno FOR_status = HPE_CB_status"

fun on_notify :: "'u http_parser_settings \<Rightarrow> notify_for \<Rightarrow> 'u http_cb option" where
  "on_notify cfg FOR_message_begin = on_message_begin cfg"
| "on_notify cfg FOR_message_complete = on_message_complete cfg"
| "on_notify cfg FOR_chunk_header = on_chunk_header cfg"
| "on_notify cfg FOR_chunk_complete = on_chunk_complete cfg"

fun notify_errno :: "notify_for \<Rightarrow> http_errno" where
  "notify_errno FOR_message_begin = HPE_CB_message_begin"
| "notify_errno FOR_message_complete = HPE_CB_message_complete"
| "notify_errno FOR_chunk_header = HPE_CB_chunk_header"
| "notify_errno FOR_chunk_complete = HPE_CB_chunk_complete"

text \<open>
  The locals: \<open>pos\<close> is \<open>p - data\<close>, \<open>cur\<close> is \<open>ch\<close>, \<open>marks\<close> holds the five \<open>FOR_mark\<close> pointers
  as offsets, and \<open>user\<close> is what the callbacks can reach besides the parser.
\<close>

record 'u locals =
  parser :: http_parser
  p_state :: state
  pos :: nat
  cur :: byte
  marks :: "data_for \<Rightarrow> nat option"
  user :: 'u

datatype 'u outcome =
    Break "'u locals"
  | Reexecute "'u locals"
  | Goto_error "'u locals"
  | Return nat http_parser 'u
  | Fault

section \<open>Macros\<close>

abbreviation UPDATE_STATE :: "state \<Rightarrow> 'u locals \<Rightarrow> 'u locals" where
  "UPDATE_STATE s l \<equiv> l\<lparr>p_state := s\<rparr>"

text \<open>\<open>SET_ERRNO (e); goto error\<close>, and \<open>RETURN (v)\<close>.\<close>

definition set_errno_goto_error :: "http_errno \<Rightarrow> 'u locals \<Rightarrow> 'u outcome" where
  "set_errno_goto_error e l = Goto_error (l\<lparr>parser := (parser l)\<lparr>http_errno := e\<rparr>\<rparr>)"

definition RETURN :: "nat \<Rightarrow> 'u locals \<Rightarrow> 'u outcome" where
  "RETURN v l = Return v ((parser l)\<lparr>state := p_state l\<rparr>) (user l)"

definition STRICT_CHECK :: "bool \<Rightarrow> ('u locals \<Rightarrow> 'u outcome) \<Rightarrow> 'u locals \<Rightarrow> 'u outcome" where
  "STRICT_CHECK cond k l = (if cond then set_errno_goto_error HPE_STRICT l else k l)"

definition assert_then :: "bool \<Rightarrow> ('u locals \<Rightarrow> 'u outcome) \<Rightarrow> 'u locals \<Rightarrow> 'u outcome" where
  "assert_then cond k l = (if cond then k l else Fault)"

definition MARK :: "data_for \<Rightarrow> 'u locals \<Rightarrow> 'u locals" where
  "MARK FOR l = (if marks l FOR = None then l\<lparr>marks := (marks l)(FOR := Some (pos l))\<rparr> else l)"

definition COUNT_HEADER_SIZE ::
  "nat \<Rightarrow> ('u locals \<Rightarrow> 'u outcome) \<Rightarrow> 'u locals \<Rightarrow> 'u outcome" where
  "COUNT_HEADER_SIZE V k l =
     (let l' = l\<lparr>parser := (parser l)\<lparr>nread := nread (parser l) + of_nat V\<rparr>\<rparr>
      in if HTTP_MAX_HEADER_SIZE < unat (nread (parser l'))
         then set_errno_goto_error HPE_HEADER_OVERFLOW l'
         else k l')"

text \<open>
  After a callback: a result other than 0 is an error, the state is read back from the parser,
  and an errno (from the result, or set by the callback itself, as a pause is) leaves the
  function with \<open>ER\<close> bytes parsed. This tail is common to the two macros.
\<close>

definition after_callback ::
  "http_errno \<Rightarrow> nat \<Rightarrow> ('u locals \<Rightarrow> 'u outcome) \<Rightarrow> 'u locals \<Rightarrow> int \<times> http_parser \<times> 'u \<Rightarrow> 'u outcome"
where
  "after_callback err ER k l res =
     (case res of (r, ps, u) \<Rightarrow>
        let ps' = (if r \<noteq> 0 then ps\<lparr>http_errno := err\<rparr> else ps)
        in if http_errno ps' \<noteq> HPE_OK then Return ER ps' u
           else k (l\<lparr>parser := ps', p_state := state ps', user := u\<rparr>))"

definition CALLBACK_NOTIFY_at ::
  "'u http_parser_settings \<Rightarrow> notify_for \<Rightarrow> nat \<Rightarrow> ('u locals \<Rightarrow> 'u outcome) \<Rightarrow> 'u locals \<Rightarrow> 'u outcome"
where
  "CALLBACK_NOTIFY_at cfg FOR ER k l =
     assert_then (http_errno (parser l) = HPE_OK) (\<lambda>l.
       case on_notify cfg FOR of
         None \<Rightarrow> k l
       | Some f \<Rightarrow> after_callback (notify_errno FOR) ER k l
                     (f ((parser l)\<lparr>state := p_state l\<rparr>) (user l))) l"

definition CALLBACK_NOTIFY where
  "CALLBACK_NOTIFY cfg FOR k l = CALLBACK_NOTIFY_at cfg FOR (pos l + 1) k l"

definition CALLBACK_NOTIFY_NOADVANCE where
  "CALLBACK_NOTIFY_NOADVANCE cfg FOR k l = CALLBACK_NOTIFY_at cfg FOR (pos l) k l"

text \<open>\<open>LEN\<close> is an expression over \<open>FOR_mark\<close>, here a function of the mark.\<close>

definition CALLBACK_DATA_at ::
  "'u http_parser_settings \<Rightarrow> byte list \<Rightarrow> data_for \<Rightarrow> (nat \<Rightarrow> nat) \<Rightarrow> nat
    \<Rightarrow> ('u locals \<Rightarrow> 'u outcome) \<Rightarrow> 'u locals \<Rightarrow> 'u outcome"
where
  "CALLBACK_DATA_at cfg d FOR LEN ER k l =
     assert_then (http_errno (parser l) = HPE_OK) (\<lambda>l.
       case marks l FOR of
         None \<Rightarrow> k l
       | Some m \<Rightarrow>
           let k' = (\<lambda>l. k (l\<lparr>marks := (marks l)(FOR := None)\<rparr>))
           in case on_data cfg FOR of
                None \<Rightarrow> k' l
              | Some f \<Rightarrow> after_callback (data_errno FOR) ER k' l
                  (f ((parser l)\<lparr>state := p_state l\<rparr>) m (byte_range d m (LEN m)) (user l))) l"

definition CALLBACK_DATA where
  "CALLBACK_DATA cfg d FOR k l = CALLBACK_DATA_at cfg d FOR (\<lambda>m. pos l - m) (pos l + 1) k l"

definition CALLBACK_DATA_NOADVANCE where
  "CALLBACK_DATA_NOADVANCE cfg d FOR k l = CALLBACK_DATA_at cfg d FOR (\<lambda>m. pos l - m) (pos l) k l"

section \<open>Numbers read digit by digit\<close>

text \<open>
  The guard \<open>(ULLONG_MAX - b) / b < content_length\<close> that precedes
  \<open>content_length = content_length * b + digit\<close> for \<open>b = 10\<close> and \<open>b = 16\<close>: where it does not
  reject, the 64-bit arithmetic does not wrap, and the result is never \<open>ULLONG_MAX\<close>, the value
  that stands for an unknown length.
\<close>

lemma accumulate_no_wrap:
  fixes cl :: uint64
  assumes guard: "\<not> (ULLONG_MAX - of_nat b) div of_nat b < cl" and b: "b = 10 \<or> b = 16"
    and v: "0 \<le> v" "v < int b"
  shows "unat (cl * of_nat b + of_int v) = unat cl * b + nat v" (is ?eq)
    and "cl * of_nat b + of_int v \<noteq> ULLONG_MAX"
proof -
  obtain n where n: "v = int n" using v(1) by (rule nonneg_int_cases)
  with v(2) have "n < b" by simp
  have bound: "unat cl * b + n < 2 ^ 64 - 1"
    using guard b \<open>n < b\<close> by (auto simp: ULLONG_MAX_def not_less word_le_nat_alt)
  then have "unat (of_nat (unat cl * b + n) :: uint64) = unat cl * b + n"
    by (intro unat_of_nat_small) simp
  moreover have "cl * of_nat b + of_int v = of_nat (unat cl * b + n)"
    by (simp add: n)
  ultimately show ?eq by (simp add: n)
  with bound n show "cl * of_nat b + of_int v \<noteq> ULLONG_MAX"
    by (auto simp: ULLONG_MAX_def)
qed

lemma small_not_ULLONG_MAX:
  assumes "0 \<le> v" "v < 16"
  shows "(of_int v :: uint64) \<noteq> ULLONG_MAX"
proof -
  obtain n where n: "v = int n" using assms(1) by (rule nonneg_int_cases)
  with assms(2) have "n < 16" by simp
  with n have "unat (of_int v :: uint64) = n"
    using unat_of_nat_small [of n, where 'a = 64] by simp
  with \<open>n < 16\<close> show ?thesis by (auto simp: ULLONG_MAX_def)
qed

end
