(* ===== verification/Parser_Start.thy ===== *)
theory Parser_Start
  imports Parser_Core
begin

text \<open>
  The cases of the switch in \<open>http_parser_execute\<close> for the first line of a message: dead and
  start states, the response line, the request method, the URL and the protocol version.
  \<open>exec_s\<close> is the body of \<open>case s\<close>; states whose case the code shares have one definition.
\<close>

section \<open>Reading a version or status number digit by digit\<close>

text \<open>\<open>x = ch - '0'\<close>, and \<open>x *= 10; x += ch - '0'\<close>, on the 16-bit fields.\<close>

definition first_digit16 :: "byte \<Rightarrow> uint16" where
  "first_digit16 ch = of_int (digit_val ch)"

definition next_digit16 :: "uint16 \<Rightarrow> byte \<Rightarrow> uint16" where
  "next_digit16 x ch = x * 10 + of_int (digit_val ch)"

section \<open>Dead and start states\<close>

definition exec_s_dead :: "byte \<Rightarrow> 'u locals \<Rightarrow> 'u outcome" where
  "exec_s_dead ch l =
     (if ch = CR \<or> ch = LF then Break l
      else set_errno_goto_error HPE_CLOSED_CONNECTION l)"

definition exec_s_start_req_or_res ::
  "'u http_parser_settings \<Rightarrow> byte \<Rightarrow> 'u locals \<Rightarrow> 'u outcome" where
  "exec_s_start_req_or_res cfg ch l =
     (if ch = CR \<or> ch = LF then Break l
      else
        let l = l\<lparr>parser := (parser l)\<lparr>flags := 0, content_length := ULLONG_MAX\<rparr>\<rparr>
        in if ch = CHR ''H''
           then CALLBACK_NOTIFY cfg FOR_message_begin Break (UPDATE_STATE s_res_or_resp_H l)
           else Reexecute (UPDATE_STATE s_start_req (l\<lparr>parser := (parser l)\<lparr>p_type := HTTP_REQUEST\<rparr>\<rparr>)))"

definition exec_s_res_or_resp_H :: "byte \<Rightarrow> 'u locals \<Rightarrow> 'u outcome" where
  "exec_s_res_or_resp_H ch l =
     (if ch = CHR ''T''
      then Break (UPDATE_STATE s_res_HT (l\<lparr>parser := (parser l)\<lparr>p_type := HTTP_RESPONSE\<rparr>\<rparr>))
      else if ch \<noteq> CHR ''E'' then set_errno_goto_error HPE_INVALID_CONSTANT l
      else Break (UPDATE_STATE s_req_method
        (l\<lparr>parser := (parser l)\<lparr>p_type := HTTP_REQUEST, p_method := HTTP_HEAD, index := 2\<rparr>\<rparr>)))"

section \<open>The response line\<close>

definition exec_s_start_res ::
  "'u http_parser_settings \<Rightarrow> byte \<Rightarrow> 'u locals \<Rightarrow> 'u outcome" where
  "exec_s_start_res cfg ch l =
     (let l = l\<lparr>parser := (parser l)\<lparr>flags := 0, content_length := ULLONG_MAX\<rparr>\<rparr>
      in if ch = CHR ''H''
         then CALLBACK_NOTIFY cfg FOR_message_begin Break (UPDATE_STATE s_res_H l)
         else if ch = CR \<or> ch = LF
         then CALLBACK_NOTIFY cfg FOR_message_begin Break l
         else set_errno_goto_error HPE_INVALID_CONSTANT l)"

definition exec_s_res_H :: "byte \<Rightarrow> 'u locals \<Rightarrow> 'u outcome" where
  "exec_s_res_H ch l = STRICT_CHECK (ch \<noteq> CHR ''T'') (\<lambda>l. Break (UPDATE_STATE s_res_HT l)) l"

definition exec_s_res_HT :: "byte \<Rightarrow> 'u locals \<Rightarrow> 'u outcome" where
  "exec_s_res_HT ch l = STRICT_CHECK (ch \<noteq> CHR ''T'') (\<lambda>l. Break (UPDATE_STATE s_res_HTT l)) l"

definition exec_s_res_HTT :: "byte \<Rightarrow> 'u locals \<Rightarrow> 'u outcome" where
  "exec_s_res_HTT ch l = STRICT_CHECK (ch \<noteq> CHR ''P'') (\<lambda>l. Break (UPDATE_STATE s_res_HTTP l)) l"

definition exec_s_res_HTTP :: "byte \<Rightarrow> 'u locals \<Rightarrow> 'u outcome" where
  "exec_s_res_HTTP ch l =
     STRICT_CHECK (ch \<noteq> CHR ''/'') (\<lambda>l. Break (UPDATE_STATE s_res_first_http_major l)) l"

definition exec_s_res_first_http_major :: "byte \<Rightarrow> 'u locals \<Rightarrow> 'u outcome" where
  "exec_s_res_first_http_major ch l =
     (if schar ch < schar (CHR ''0'') \<or> schar (CHR ''9'') < schar ch
      then set_errno_goto_error HPE_INVALID_VERSION l
      else Break (UPDATE_STATE s_res_http_major
        (l\<lparr>parser := (parser l)\<lparr>http_major := first_digit16 ch\<rparr>\<rparr>)))"

text \<open>
  The two cases that read further digits of the major version, and the two that read further
  digits of the minor version, differ in the bytes that end the number only.
\<close>

definition more_http_major :: "byte \<Rightarrow> 'u locals \<Rightarrow> 'u outcome" where
  "more_http_major ch l =
     (if \<not> IS_NUM ch then set_errno_goto_error HPE_INVALID_VERSION l
      else
        let l = l\<lparr>parser := (parser l)\<lparr>http_major := next_digit16 (http_major (parser l)) ch\<rparr>\<rparr>
        in if 999 < http_major (parser l) then set_errno_goto_error HPE_INVALID_VERSION l
           else Break l)"

definition more_http_minor :: "byte \<Rightarrow> 'u locals \<Rightarrow> 'u outcome" where
  "more_http_minor ch l =
     (if \<not> IS_NUM ch then set_errno_goto_error HPE_INVALID_VERSION l
      else
        let l = l\<lparr>parser := (parser l)\<lparr>http_minor := next_digit16 (http_minor (parser l)) ch\<rparr>\<rparr>
        in if 999 < http_minor (parser l) then set_errno_goto_error HPE_INVALID_VERSION l
           else Break l)"

definition exec_s_res_http_major :: "byte \<Rightarrow> 'u locals \<Rightarrow> 'u outcome" where
  "exec_s_res_http_major ch l =
     (if ch = CHR ''.'' then Break (UPDATE_STATE s_res_first_http_minor l)
      else more_http_major ch l)"

definition exec_s_res_first_http_minor :: "byte \<Rightarrow> 'u locals \<Rightarrow> 'u outcome" where
  "exec_s_res_first_http_minor ch l =
     (if \<not> IS_NUM ch then set_errno_goto_error HPE_INVALID_VERSION l
      else Break (UPDATE_STATE s_res_http_minor
        (l\<lparr>parser := (parser l)\<lparr>http_minor := first_digit16 ch\<rparr>\<rparr>)))"

definition exec_s_res_http_minor :: "byte \<Rightarrow> 'u locals \<Rightarrow> 'u outcome" where
  "exec_s_res_http_minor ch l =
     (if ch = CHR '' '' then Break (UPDATE_STATE s_res_first_status_code l)
      else more_http_minor ch l)"

definition exec_s_res_first_status_code :: "byte \<Rightarrow> 'u locals \<Rightarrow> 'u outcome" where
  "exec_s_res_first_status_code ch l =
     (if \<not> IS_NUM ch
      then (if ch = CHR '' '' then Break l else set_errno_goto_error HPE_INVALID_STATUS l)
      else Break (UPDATE_STATE s_res_status_code
        (l\<lparr>parser := (parser l)\<lparr>status_code := first_digit16 ch\<rparr>\<rparr>)))"

definition exec_s_res_status_code :: "byte \<Rightarrow> 'u locals \<Rightarrow> 'u outcome" where
  "exec_s_res_status_code ch l =
     (if \<not> IS_NUM ch
      then (if ch = CHR '' '' then Break (UPDATE_STATE s_res_status_start l)
            else if ch = CR then Break (UPDATE_STATE s_res_line_almost_done l)
            else if ch = LF then Break (UPDATE_STATE s_header_field_start l)
            else set_errno_goto_error HPE_INVALID_STATUS l)
      else
        let l = l\<lparr>parser := (parser l)\<lparr>status_code := next_digit16 (status_code (parser l)) ch\<rparr>\<rparr>
        in if 999 < status_code (parser l) then set_errno_goto_error HPE_INVALID_STATUS l
           else Break l)"

definition exec_s_res_status_start :: "byte \<Rightarrow> 'u locals \<Rightarrow> 'u outcome" where
  "exec_s_res_status_start ch l =
     (if ch = CR then Break (UPDATE_STATE s_res_line_almost_done l)
      else if ch = LF then Break (UPDATE_STATE s_header_field_start l)
      else
        let l = UPDATE_STATE s_res_status (MARK FOR_status l)
        in Break (l\<lparr>parser := (parser l)\<lparr>index := 0\<rparr>\<rparr>))"

definition exec_s_res_status ::
  "'u http_parser_settings \<Rightarrow> byte list \<Rightarrow> byte \<Rightarrow> 'u locals \<Rightarrow> 'u outcome" where
  "exec_s_res_status cfg d ch l =
     (if ch = CR
      then CALLBACK_DATA cfg d FOR_status Break (UPDATE_STATE s_res_line_almost_done l)
      else if ch = LF
      then CALLBACK_DATA cfg d FOR_status Break (UPDATE_STATE s_header_field_start l)
      else Break l)"

definition exec_s_res_line_almost_done :: "byte \<Rightarrow> 'u locals \<Rightarrow> 'u outcome" where
  "exec_s_res_line_almost_done ch l =
     STRICT_CHECK (ch \<noteq> LF) (\<lambda>l. Break (UPDATE_STATE s_header_field_start l)) l"

section \<open>The request method\<close>

text \<open>\<open>method_strings\<close>, in the order of \<open>HTTP_METHOD_MAP\<close>.\<close>

fun method_string :: "http_method \<Rightarrow> byte list" where
  "method_string HTTP_DELETE = ''DELETE''"
| "method_string HTTP_GET = ''GET''"
| "method_string HTTP_HEAD = ''HEAD''"
| "method_string HTTP_POST = ''POST''"
| "method_string HTTP_PUT = ''PUT''"
| "method_string HTTP_CONNECT = ''CONNECT''"
| "method_string HTTP_OPTIONS = ''OPTIONS''"
| "method_string HTTP_TRACE = ''TRACE''"
| "method_string HTTP_COPY = ''COPY''"
| "method_string HTTP_LOCK = ''LOCK''"
| "method_string HTTP_MKCOL = ''MKCOL''"
| "method_string HTTP_MOVE = ''MOVE''"
| "method_string HTTP_PROPFIND = ''PROPFIND''"
| "method_string HTTP_PROPPATCH = ''PROPPATCH''"
| "method_string HTTP_SEARCH = ''SEARCH''"
| "method_string HTTP_UNLOCK = ''UNLOCK''"
| "method_string HTTP_REPORT = ''REPORT''"
| "method_string HTTP_MKACTIVITY = ''MKACTIVITY''"
| "method_string HTTP_CHECKOUT = ''CHECKOUT''"
| "method_string HTTP_MERGE = ''MERGE''"
| "method_string HTTP_MSEARCH = ''M-SEARCH''"
| "method_string HTTP_NOTIFY = ''NOTIFY''"
| "method_string HTTP_SUBSCRIBE = ''SUBSCRIBE''"
| "method_string HTTP_UNSUBSCRIBE = ''UNSUBSCRIBE''"
| "method_string HTTP_PATCH = ''PATCH''"
| "method_string HTTP_PURGE = ''PURGE''"
| "method_string HTTP_MKCALENDAR = ''MKCALENDAR''"

definition method_strings :: "byte list list" where
  "method_strings = map method_string http_method_map"

text \<open>
  \<open>s[i]\<close> for a C string: its bytes and then the terminating NUL. A read past the NUL is not
  defined by C; the callers below check for it.
\<close>

definition cstr_at :: "byte list \<Rightarrow> nat \<Rightarrow> byte" where
  "cstr_at s i = (s @ [NUL]) ! i"

text \<open>The method that the first byte selects.\<close>

definition first_method :: "byte \<Rightarrow> http_method option" where
  "first_method ch =
     (if ch = CHR ''C'' then Some HTTP_CONNECT
      else if ch = CHR ''D'' then Some HTTP_DELETE
      else if ch = CHR ''G'' then Some HTTP_GET
      else if ch = CHR ''H'' then Some HTTP_HEAD
      else if ch = CHR ''L'' then Some HTTP_LOCK
      else if ch = CHR ''M'' then Some HTTP_MKCOL
      else if ch = CHR ''N'' then Some HTTP_NOTIFY
      else if ch = CHR ''O'' then Some HTTP_OPTIONS
      else if ch = CHR ''P'' then Some HTTP_POST
      else if ch = CHR ''R'' then Some HTTP_REPORT
      else if ch = CHR ''S'' then Some HTTP_SUBSCRIBE
      else if ch = CHR ''T'' then Some HTTP_TRACE
      else if ch = CHR ''U'' then Some HTTP_UNLOCK
      else None)"

definition exec_s_start_req ::
  "'u http_parser_settings \<Rightarrow> byte \<Rightarrow> 'u locals \<Rightarrow> 'u outcome" where
  "exec_s_start_req cfg ch l =
     (if ch = CR \<or> ch = LF then Break l
      else
        let l = l\<lparr>parser := (parser l)\<lparr>flags := 0, content_length := ULLONG_MAX\<rparr>\<rparr>
        in if \<not> IS_ALPHA ch then set_errno_goto_error HPE_INVALID_METHOD l
           else
             let l = l\<lparr>parser := (parser l)\<lparr>p_method := HTTP_DELETE, index := 1\<rparr>\<rparr>
             in case first_method ch of
                  None \<Rightarrow> set_errno_goto_error HPE_INVALID_METHOD l
                | Some m \<Rightarrow>
                    CALLBACK_NOTIFY cfg FOR_message_begin Break
                      (UPDATE_STATE s_req_method (l\<lparr>parser := (parser l)\<lparr>p_method := m\<rparr>\<rparr>)))"

text \<open>
  The \<open>else if\<close> chain of \<open>s_req_method\<close> for a byte that is not the next one of the current
  method's name: the method to go on with, or None for \<open>HPE_INVALID_METHOD\<close>.
\<close>

definition other_method :: "http_method \<Rightarrow> uint8 \<Rightarrow> byte \<Rightarrow> http_method option" where
  "other_method m idx ch =
     (if m = HTTP_CONNECT then
        (if idx = 1 \<and> ch = CHR ''H'' then Some HTTP_CHECKOUT
         else if idx = 2 \<and> ch = CHR ''P'' then Some HTTP_COPY
         else None)
      else if m = HTTP_MKCOL then
        (if idx = 1 \<and> ch = CHR ''O'' then Some HTTP_MOVE
         else if idx = 1 \<and> ch = CHR ''E'' then Some HTTP_MERGE
         else if idx = 1 \<and> ch = CHR ''-'' then Some HTTP_MSEARCH
         else if idx = 2 \<and> ch = CHR ''A'' then Some HTTP_MKACTIVITY
         else if idx = 3 \<and> ch = CHR ''A'' then Some HTTP_MKCALENDAR
         else None)
      else if m = HTTP_SUBSCRIBE then
        (if idx = 1 \<and> ch = CHR ''E'' then Some HTTP_SEARCH else None)
      else if idx = 1 \<and> m = HTTP_POST then
        (if ch = CHR ''R'' then Some HTTP_PROPFIND
         else if ch = CHR ''U'' then Some HTTP_PUT
         else if ch = CHR ''A'' then Some HTTP_PATCH
         else None)
      else if idx = 2 then
        (if m = HTTP_PUT then (if ch = CHR ''R'' then Some HTTP_PURGE else None)
         else if m = HTTP_UNLOCK then (if ch = CHR ''S'' then Some HTTP_UNSUBSCRIBE else None)
         else None)
      else if idx = 4 \<and> m = HTTP_PROPFIND \<and> ch = CHR ''P'' then Some HTTP_PROPPATCH
      else None)"

definition exec_s_req_method :: "byte \<Rightarrow> 'u locals \<Rightarrow> 'u outcome" where
  "exec_s_req_method ch l =
     (if ch = NUL then set_errno_goto_error HPE_INVALID_METHOD l
      else
        let m = p_method (parser l); matcher = method_string m; i = index (parser l);
            step = (\<lambda>l. Break (l\<lparr>parser := (parser l)\<lparr>index := index (parser l) + 1\<rparr>\<rparr>))
        in if length matcher < unat i then Fault
           else if ch = CHR '' '' \<and> cstr_at matcher (unat i) = NUL
           then step (UPDATE_STATE s_req_spaces_before_url l)
           else if ch = cstr_at matcher (unat i) then step l
           else case other_method m i ch of
                  None \<Rightarrow> set_errno_goto_error HPE_INVALID_METHOD l
                | Some m' \<Rightarrow> step (l\<lparr>parser := (parser l)\<lparr>p_method := m'\<rparr>\<rparr>))"

section \<open>The request URL\<close>

definition exec_s_req_spaces_before_url :: "byte \<Rightarrow> 'u locals \<Rightarrow> 'u outcome" where
  "exec_s_req_spaces_before_url ch l =
     (if ch = CHR '' '' then Break l
      else
        let l = MARK FOR_url l;
            l = (if p_method (parser l) = HTTP_CONNECT then UPDATE_STATE s_req_server_start l else l);
            l = UPDATE_STATE (parse_url_char (p_state l) ch) l
        in if p_state l = s_dead then set_errno_goto_error HPE_INVALID_URL l else Break l)"

text \<open>The \<open>default\<close> branch of the two shared URL cases.\<close>

definition url_default :: "byte \<Rightarrow> 'u locals \<Rightarrow> 'u outcome" where
  "url_default ch l =
     (let l = UPDATE_STATE (parse_url_char (p_state l) ch) l
      in if p_state l = s_dead then set_errno_goto_error HPE_INVALID_URL l else Break l)"

text \<open>\<open>s_req_schema\<close>, \<open>s_req_schema_slash\<close>, \<open>s_req_schema_slash_slash\<close>, \<open>s_req_server_start\<close>.\<close>

definition exec_s_req_schema :: "byte \<Rightarrow> 'u locals \<Rightarrow> 'u outcome" where
  "exec_s_req_schema ch l =
     (if ch = CHR '' '' \<or> ch = CR \<or> ch = LF then set_errno_goto_error HPE_INVALID_URL l
      else url_default ch l)"

text \<open>
  \<open>s_req_server\<close>, \<open>s_req_server_with_at\<close>, \<open>s_req_path\<close>, \<open>s_req_query_string_start\<close>,
  \<open>s_req_query_string\<close>, \<open>s_req_fragment_start\<close>, \<open>s_req_fragment\<close>.
\<close>

definition exec_s_req_url ::
  "'u http_parser_settings \<Rightarrow> byte list \<Rightarrow> byte \<Rightarrow> 'u locals \<Rightarrow> 'u outcome" where
  "exec_s_req_url cfg d ch l =
     (if ch = CHR '' '' then CALLBACK_DATA cfg d FOR_url Break (UPDATE_STATE s_req_http_start l)
      else if ch = CR \<or> ch = LF then
        CALLBACK_DATA cfg d FOR_url Break
          (UPDATE_STATE (if ch = CR then s_req_line_almost_done else s_header_field_start)
            (l\<lparr>parser := (parser l)\<lparr>http_major := 0, http_minor := 9\<rparr>\<rparr>))
      else url_default ch l)"

section \<open>The protocol version of a request\<close>

definition exec_s_req_http_start :: "byte \<Rightarrow> 'u locals \<Rightarrow> 'u outcome" where
  "exec_s_req_http_start ch l =
     (if ch = CHR ''H'' then Break (UPDATE_STATE s_req_http_H l)
      else if ch = CHR '' '' then Break l
      else set_errno_goto_error HPE_INVALID_CONSTANT l)"

definition exec_s_req_http_H :: "byte \<Rightarrow> 'u locals \<Rightarrow> 'u outcome" where
  "exec_s_req_http_H ch l =
     STRICT_CHECK (ch \<noteq> CHR ''T'') (\<lambda>l. Break (UPDATE_STATE s_req_http_HT l)) l"

definition exec_s_req_http_HT :: "byte \<Rightarrow> 'u locals \<Rightarrow> 'u outcome" where
  "exec_s_req_http_HT ch l =
     STRICT_CHECK (ch \<noteq> CHR ''T'') (\<lambda>l. Break (UPDATE_STATE s_req_http_HTT l)) l"

definition exec_s_req_http_HTT :: "byte \<Rightarrow> 'u locals \<Rightarrow> 'u outcome" where
  "exec_s_req_http_HTT ch l =
     STRICT_CHECK (ch \<noteq> CHR ''P'') (\<lambda>l. Break (UPDATE_STATE s_req_http_HTTP l)) l"

definition exec_s_req_http_HTTP :: "byte \<Rightarrow> 'u locals \<Rightarrow> 'u outcome" where
  "exec_s_req_http_HTTP ch l =
     STRICT_CHECK (ch \<noteq> CHR ''/'') (\<lambda>l. Break (UPDATE_STATE s_req_first_http_major l)) l"

definition exec_s_req_first_http_major :: "byte \<Rightarrow> 'u locals \<Rightarrow> 'u outcome" where
  "exec_s_req_first_http_major ch l =
     (if schar ch < schar (CHR ''1'') \<or> schar (CHR ''9'') < schar ch
      then set_errno_goto_error HPE_INVALID_VERSION l
      else Break (UPDATE_STATE s_req_http_major
        (l\<lparr>parser := (parser l)\<lparr>http_major := first_digit16 ch\<rparr>\<rparr>)))"

definition exec_s_req_http_major :: "byte \<Rightarrow> 'u locals \<Rightarrow> 'u outcome" where
  "exec_s_req_http_major ch l =
     (if ch = CHR ''.'' then Break (UPDATE_STATE s_req_first_http_minor l)
      else more_http_major ch l)"

definition exec_s_req_first_http_minor :: "byte \<Rightarrow> 'u locals \<Rightarrow> 'u outcome" where
  "exec_s_req_first_http_minor ch l =
     (if \<not> IS_NUM ch then set_errno_goto_error HPE_INVALID_VERSION l
      else Break (UPDATE_STATE s_req_http_minor
        (l\<lparr>parser := (parser l)\<lparr>http_minor := first_digit16 ch\<rparr>\<rparr>)))"

definition exec_s_req_http_minor :: "byte \<Rightarrow> 'u locals \<Rightarrow> 'u outcome" where
  "exec_s_req_http_minor ch l =
     (if ch = CR then Break (UPDATE_STATE s_req_line_almost_done l)
      else if ch = LF then Break (UPDATE_STATE s_header_field_start l)
      else more_http_minor ch l)"

definition exec_s_req_line_almost_done :: "byte \<Rightarrow> 'u locals \<Rightarrow> 'u outcome" where
  "exec_s_req_line_almost_done ch l =
     (if ch \<noteq> LF then set_errno_goto_error HPE_LF_EXPECTED l
      else Break (UPDATE_STATE s_header_field_start l))"

end
