(* ===== verification/Parser_Headers.thy ===== *)
theory Parser_Headers
  imports Parser_Start
begin

text \<open>
  The cases of \<open>http_parser_execute\<close> that read header fields and values. The two inner loops
  (over the bytes of a field name and of a value) are recursive functions on the rest of the
  buffer; what they end in is a value that the case then acts on, as the code does after (or
  at the point where it leaves) the loop.
\<close>

section \<open>Header names\<close>

definition exec_s_header_field_start :: "byte \<Rightarrow> 'u locals \<Rightarrow> 'u outcome" where
  "exec_s_header_field_start ch l =
     (if ch = CR then Break (UPDATE_STATE s_headers_almost_done l)
      else if ch = LF then Reexecute (UPDATE_STATE s_headers_almost_done l)
      else
        let c = TOKEN ch
        in if c = NUL then set_errno_goto_error HPE_INVALID_HEADER_TOKEN l
           else
             let l = UPDATE_STATE s_header_field (MARK FOR_header_field l);
                 h = (if c = CHR ''c'' then h_C
                      else if c = CHR ''p'' then h_matching_proxy_connection
                      else if c = CHR ''t'' then h_matching_transfer_encoding
                      else if c = CHR ''u'' then h_matching_upgrade
                      else h_general)
             in Break (l\<lparr>parser := (parser l)\<lparr>index := 0, header_state := h\<rparr>\<rparr>))"

text \<open>
  The comparison with a known name or value \<open>X\<close>, after \<open>index++\<close>: \<open>miss\<close> if
  \<open>index > sizeof (X) - 1 || c != X[index]\<close>, \<open>hit\<close> if \<open>index == sizeof (X) - 2\<close>, and otherwise
  go on in the state \<open>same\<close>.
\<close>

definition match_next ::
  "byte list \<Rightarrow> header_states \<Rightarrow> header_states \<Rightarrow> header_states \<Rightarrow> byte \<Rightarrow> uint8 \<Rightarrow> header_states" where
  "match_next X same hit miss c idx =
     (if length X < unat idx \<or> c \<noteq> cstr_at X (unat idx) then miss
      else if unat idx = length X - 1 then hit
      else same)"

text \<open>One byte of a name in the inner loop of \<open>s_header_field\<close>; None is the failed assertion.\<close>

definition header_field_step :: "byte \<Rightarrow> byte \<Rightarrow> http_parser \<Rightarrow> http_parser option" where
  "header_field_step ch c ps =
     (let i = index ps + 1;
          matching = (\<lambda>X hit. Some (ps\<lparr>index := i,
            header_state := match_next X (header_state ps) hit h_general c i\<rparr>))
      in case header_state ps of
        h_general \<Rightarrow> Some ps
      | h_C \<Rightarrow> Some (ps\<lparr>index := i, header_state := if c = CHR ''o'' then h_CO else h_general\<rparr>)
      | h_CO \<Rightarrow> Some (ps\<lparr>index := i, header_state := if c = CHR ''n'' then h_CON else h_general\<rparr>)
      | h_CON \<Rightarrow> Some (ps\<lparr>index := i, header_state :=
            if c = CHR ''n'' then h_matching_connection
            else if c = CHR ''t'' then h_matching_content_length
            else h_general\<rparr>)
      | h_matching_connection \<Rightarrow> matching ''connection'' h_connection
      | h_matching_proxy_connection \<Rightarrow> matching ''proxy-connection'' h_connection
      | h_matching_content_length \<Rightarrow> matching ''content-length'' h_content_length
      | h_matching_transfer_encoding \<Rightarrow> matching ''transfer-encoding'' h_transfer_encoding
      | h_matching_upgrade \<Rightarrow> matching ''upgrade'' h_upgrade
      | h_connection \<Rightarrow> Some (if ch \<noteq> CHR '' '' then ps\<lparr>header_state := h_general\<rparr> else ps)
      | h_content_length \<Rightarrow> Some (if ch \<noteq> CHR '' '' then ps\<lparr>header_state := h_general\<rparr> else ps)
      | h_transfer_encoding \<Rightarrow> Some (if ch \<noteq> CHR '' '' then ps\<lparr>header_state := h_general\<rparr> else ps)
      | h_upgrade \<Rightarrow> Some (if ch \<noteq> CHR '' '' then ps\<lparr>header_state := h_general\<rparr> else ps)
      | _ \<Rightarrow> None)"

text \<open>
  The inner loop: from the rest of the buffer, the parser and the number \<open>n\<close> of bytes read so
  far, to the parser, the number of bytes read, and the byte that is no token byte (None at the
  end of the buffer).
\<close>

fun header_field_loop ::
  "byte list \<Rightarrow> http_parser \<Rightarrow> nat \<Rightarrow> (http_parser \<times> nat \<times> byte option) option" where
  "header_field_loop [] ps n = Some (ps, n, None)"
| "header_field_loop (ch # rest) ps n =
     (let c = TOKEN ch
      in if c = NUL then Some (ps, n, Some ch)
         else case header_field_step ch c ps of
                None \<Rightarrow> None
              | Some ps' \<Rightarrow> header_field_loop rest ps' (n + 1))"

definition exec_s_header_field ::
  "'u http_parser_settings \<Rightarrow> byte list \<Rightarrow> 'u locals \<Rightarrow> 'u outcome" where
  "exec_s_header_field cfg d l =
     (case header_field_loop (drop (pos l) d) (parser l) 0 of
        None \<Rightarrow> Fault
      | Some (ps, n, stop) \<Rightarrow>
          COUNT_HEADER_SIZE n
            (\<lambda>l. case stop of
                   None \<Rightarrow> Break (l\<lparr>pos := pos l - 1\<rparr>)
                 | Some ch \<Rightarrow>
                     if ch = CHR '':''
                     then CALLBACK_DATA cfg d FOR_header_field Break
                            (UPDATE_STATE s_header_value_discard_ws l)
                     else set_errno_goto_error HPE_INVALID_HEADER_TOKEN l)
            (l\<lparr>parser := ps, pos := pos l + n\<rparr>))"

section \<open>The start of a header value\<close>

definition exec_s_header_value_start :: "byte \<Rightarrow> 'u locals \<Rightarrow> 'u outcome" where
  "exec_s_header_value_start ch l =
     (let l = UPDATE_STATE s_header_value (MARK FOR_header_value l);
          l = l\<lparr>parser := (parser l)\<lparr>index := 0\<rparr>\<rparr>;
          c = LOWER ch;
          to = (\<lambda>h. Break (l\<lparr>parser := (parser l)\<lparr>header_state := h\<rparr>\<rparr>))
      in case header_state (parser l) of
           h_upgrade \<Rightarrow>
             Break (l\<lparr>parser := (parser l)\<lparr>flags := flags (parser l) OR F_UPGRADE,
                                         header_state := h_general\<rparr>\<rparr>)
         | h_transfer_encoding \<Rightarrow>
             to (if c = CHR ''c'' then h_matching_transfer_encoding_chunked else h_general)
         | h_content_length \<Rightarrow>
             if \<not> IS_NUM ch then set_errno_goto_error HPE_INVALID_CONTENT_LENGTH l
             else Break (l\<lparr>parser := (parser l)\<lparr>content_length := of_int (digit_val ch)\<rparr>\<rparr>)
         | h_connection \<Rightarrow>
             to (if c = CHR ''k'' then h_matching_connection_keep_alive
                 else if c = CHR ''c'' then h_matching_connection_close
                 else if c = CHR ''u'' then h_matching_connection_upgrade
                 else h_matching_connection_token)
         | h_matching_connection_token_start \<Rightarrow> Break l
         | _ \<Rightarrow> to h_general)"

definition exec_s_header_value_discard_ws :: "byte \<Rightarrow> 'u locals \<Rightarrow> 'u outcome" where
  "exec_s_header_value_discard_ws ch l =
     (if ch = CHR '' '' \<or> ch = TAB then Break l
      else if ch = CR then Break (UPDATE_STATE s_header_value_discard_ws_almost_done l)
      else if ch = LF then Break (UPDATE_STATE s_header_value_discard_lws l)
      else exec_s_header_value_start ch l)"

section \<open>Header values\<close>

text \<open>
  \<open>h_general\<close>: how far the pointer moves, to the first CR or LF within the limit or else to the
  end of the buffer. (The code sets \<open>p\<close> to that place, steps back, and the loop's \<open>p++\<close> steps
  forward again.)
\<close>

definition general_skip :: "byte list \<Rightarrow> nat" where
  "general_skip bs =
     (let limit = min (length bs) HTTP_MAX_HEADER_SIZE;
          p_cr = memchr bs CR limit;
          p_lf = memchr bs LF limit
      in case p_cr of
           Some cr \<Rightarrow> (case p_lf of Some lf \<Rightarrow> if lf \<le> cr then lf else cr | None \<Rightarrow> cr)
         | None \<Rightarrow> (case p_lf of Some lf \<Rightarrow> lf | None \<Rightarrow> length bs))"

lemma general_skip_pos:
  assumes "ch \<noteq> CR" and "ch \<noteq> LF"
  shows "0 < general_skip (ch # rest)"
  using memchr_Some_pos [of ch rest CR] memchr_Some_pos [of ch rest LF] assms
  by (auto simp: general_skip_def Let_def simp del: memchr.simps split: option.splits)

text \<open>
  One byte of a value in the inner loop of \<open>s_header_value\<close>: go on with a header state and a
  parser, skip (\<open>h_general\<close>), stop with \<open>HPE_INVALID_CONTENT_LENGTH\<close>, or a failed assertion.
  \<open>h_state\<close> is the local copy of \<open>parser->header_state\<close>. The case \<open>default\<close> also sets the state
  to \<open>s_header_value\<close>, which it is.
\<close>

datatype value_step =
    Value_next header_states http_parser
  | Value_skip
  | Value_bad_length
  | Value_assert

definition set_flag :: "flag_bits \<Rightarrow> http_parser \<Rightarrow> http_parser" where
  "set_flag f ps = ps\<lparr>flags := flags ps OR f\<rparr>"

definition header_value_step :: "byte \<Rightarrow> header_states \<Rightarrow> http_parser \<Rightarrow> value_step" where
  "header_value_step ch h_state ps =
     (let c = LOWER ch;
          i = index ps + 1;
          matching = (\<lambda>X hit miss. Value_next (match_next X h_state hit miss c i) (ps\<lparr>index := i\<rparr>));
          token_end = (\<lambda>f.
            if ch = CHR '',''
            then Value_next h_matching_connection_token_start (set_flag f ps\<lparr>index := 0\<rparr>)
            else if ch \<noteq> CHR '' '' then Value_next h_matching_connection_token ps
            else Value_next h_state ps)
      in case h_state of
           h_general \<Rightarrow> Value_skip
         | h_connection \<Rightarrow> Value_assert
         | h_transfer_encoding \<Rightarrow> Value_assert
         | h_content_length \<Rightarrow>
             if ch = CHR '' '' then Value_next h_state ps
             else if \<not> IS_NUM ch then Value_bad_length
             else if (ULLONG_MAX - 10) div 10 < content_length ps then Value_bad_length
             else Value_next h_state
                    (ps\<lparr>content_length := content_length ps * 10 + of_int (digit_val ch)\<rparr>)
         | h_matching_transfer_encoding_chunked \<Rightarrow>
             matching ''chunked'' h_transfer_encoding_chunked h_general
         | h_matching_connection_token_start \<Rightarrow>
             if c = CHR ''k'' then Value_next h_matching_connection_keep_alive ps
             else if c = CHR ''c'' then Value_next h_matching_connection_close ps
             else if c = CHR ''u'' then Value_next h_matching_connection_upgrade ps
             else if STRICT_TOKEN c \<noteq> NUL then Value_next h_matching_connection_token ps
             else if c = CHR '' '' \<or> c = TAB then Value_next h_state ps
             else Value_next h_general ps
         | h_matching_connection_keep_alive \<Rightarrow>
             matching ''keep-alive'' h_connection_keep_alive h_matching_connection_token
         | h_matching_connection_close \<Rightarrow>
             matching ''close'' h_connection_close h_matching_connection_token
         | h_matching_connection_upgrade \<Rightarrow>
             matching ''upgrade'' h_connection_upgrade h_matching_connection_token
         | h_matching_connection_token \<Rightarrow>
             if ch = CHR '',''
             then Value_next h_matching_connection_token_start (ps\<lparr>index := 0\<rparr>)
             else Value_next h_state ps
         | h_transfer_encoding_chunked \<Rightarrow>
             Value_next (if ch \<noteq> CHR '' '' then h_general else h_state) ps
         | h_connection_keep_alive \<Rightarrow> token_end F_CONNECTION_KEEP_ALIVE
         | h_connection_close \<Rightarrow> token_end F_CONNECTION_CLOSE
         | h_connection_upgrade \<Rightarrow> token_end F_CONNECTION_UPGRADE
         | _ \<Rightarrow> Value_next h_general ps)"

text \<open>
  How the inner loop ends: at a CR, at an LF, at the end of the buffer, or in an error, each
  with the local \<open>h_state\<close>, the parser and the number of bytes passed.
\<close>

datatype value_end = At_CR | At_LF | At_end | At_bad_length

function header_value_loop ::
  "byte list \<Rightarrow> header_states \<Rightarrow> http_parser \<Rightarrow> nat
    \<Rightarrow> (value_end \<times> header_states \<times> http_parser \<times> nat) option"
where
  "header_value_loop [] h ps n = Some (At_end, h, ps, n)"
| "header_value_loop (ch # rest) h ps n =
     (if ch = CR then Some (At_CR, h, ps, n)
      else if ch = LF then Some (At_LF, h, ps, n)
      else case header_value_step ch h ps of
             Value_next h' ps' \<Rightarrow> header_value_loop rest h' ps' (n + 1)
           | Value_skip \<Rightarrow>
               header_value_loop (drop (general_skip (ch # rest)) (ch # rest)) h ps
                 (n + general_skip (ch # rest))
           | Value_bad_length \<Rightarrow> Some (At_bad_length, h, ps, n)
           | Value_assert \<Rightarrow> None)"
  by pat_completeness auto
termination
  by (relation "measure (\<lambda>(bs, h, ps, n). length bs)") (auto simp: general_skip_pos)

definition exec_s_header_value ::
  "'u http_parser_settings \<Rightarrow> byte list \<Rightarrow> 'u locals \<Rightarrow> 'u outcome" where
  "exec_s_header_value cfg d l =
     (case header_value_loop (drop (pos l) d) (header_state (parser l)) (parser l) 0 of
        None \<Rightarrow> Fault
      | Some (stop, h_state, ps, n) \<Rightarrow>
          let set_h = (\<lambda>l. l\<lparr>parser := (parser l)\<lparr>header_state := h_state\<rparr>\<rparr>);
              l = l\<lparr>parser := ps, pos := pos l + n\<rparr>
          in case stop of
               At_bad_length \<Rightarrow> set_errno_goto_error HPE_INVALID_CONTENT_LENGTH (set_h l)
             | At_CR \<Rightarrow>
                 CALLBACK_DATA cfg d FOR_header_value
                   (\<lambda>l. COUNT_HEADER_SIZE n Break (set_h l))
                   (set_h (UPDATE_STATE s_header_almost_done l))
             | At_LF \<Rightarrow>
                 COUNT_HEADER_SIZE n
                   (\<lambda>l. CALLBACK_DATA_NOADVANCE cfg d FOR_header_value Reexecute (set_h l))
                   (UPDATE_STATE s_header_almost_done (l\<lparr>cur := LF\<rparr>))
             | At_end \<Rightarrow> COUNT_HEADER_SIZE n (\<lambda>l. Break (l\<lparr>pos := pos l - 1\<rparr>)) (set_h l))"

section \<open>The end of a header line and of the headers\<close>

definition exec_s_header_almost_done :: "byte \<Rightarrow> 'u locals \<Rightarrow> 'u outcome" where
  "exec_s_header_almost_done ch l =
     STRICT_CHECK (ch \<noteq> LF) (\<lambda>l. Break (UPDATE_STATE s_header_value_lws l)) l"

text \<open>The flag that a finished header sets, in \<open>s_header_value_lws\<close> and \<open>s_header_value_discard_lws\<close>.\<close>

definition header_flag :: "http_parser \<Rightarrow> http_parser" where
  "header_flag ps =
     (case header_state ps of
        h_connection_keep_alive \<Rightarrow> set_flag F_CONNECTION_KEEP_ALIVE ps
      | h_connection_close \<Rightarrow> set_flag F_CONNECTION_CLOSE ps
      | h_transfer_encoding_chunked \<Rightarrow> set_flag F_CHUNKED ps
      | h_connection_upgrade \<Rightarrow> set_flag F_CONNECTION_UPGRADE ps
      | _ \<Rightarrow> ps)"

definition exec_s_header_value_lws :: "byte \<Rightarrow> 'u locals \<Rightarrow> 'u outcome" where
  "exec_s_header_value_lws ch l =
     (if ch = CHR '' '' \<or> ch = TAB then Reexecute (UPDATE_STATE s_header_value_start l)
      else Reexecute (UPDATE_STATE s_header_field_start (l\<lparr>parser := header_flag (parser l)\<rparr>)))"

definition exec_s_header_value_discard_ws_almost_done :: "byte \<Rightarrow> 'u locals \<Rightarrow> 'u outcome" where
  "exec_s_header_value_discard_ws_almost_done ch l =
     STRICT_CHECK (ch \<noteq> LF) (\<lambda>l. Break (UPDATE_STATE s_header_value_discard_lws l)) l"

definition exec_s_header_value_discard_lws ::
  "'u http_parser_settings \<Rightarrow> byte list \<Rightarrow> byte \<Rightarrow> 'u locals \<Rightarrow> 'u outcome" where
  "exec_s_header_value_discard_lws cfg d ch l =
     (if ch = CHR '' '' \<or> ch = TAB then Break (UPDATE_STATE s_header_value_discard_ws l)
      else CALLBACK_DATA_NOADVANCE cfg d FOR_header_value Reexecute
             (UPDATE_STATE s_header_field_start
               (MARK FOR_header_value (l\<lparr>parser := header_flag (parser l)\<rparr>))))"

text \<open>
  \<open>s_headers_almost_done\<close> calls \<open>on_headers_complete\<close> without the macro: the state is not
  stored before the call nor read back after it, the result 1 sets \<open>F_SKIPBODY\<close>, and both error
  exits store the state.
\<close>

definition exec_s_headers_almost_done ::
  "'u http_parser_settings \<Rightarrow> byte \<Rightarrow> 'u locals \<Rightarrow> 'u outcome" where
  "exec_s_headers_almost_done cfg ch l =
     STRICT_CHECK (ch \<noteq> LF) (\<lambda>l.
       if has_flag (flags (parser l)) F_TRAILING
       then CALLBACK_NOTIFY_NOADVANCE cfg FOR_chunk_complete Reexecute (UPDATE_STATE s_message_done l)
       else
         let l = UPDATE_STATE s_headers_done l;
             ps = parser l;
             both = F_UPGRADE OR F_CONNECTION_UPGRADE;
             l = l\<lparr>parser := ps\<lparr>upgrade := flags ps AND both = both \<or> p_method ps = HTTP_CONNECT\<rparr>\<rparr>;
             finish = (\<lambda>l. if http_errno (parser l) \<noteq> HPE_OK then RETURN (pos l) l else Reexecute l)
         in case on_headers_complete cfg of
              None \<Rightarrow> finish l
            | Some f \<Rightarrow>
                (case f (parser l) (user l) of (r, ps, u) \<Rightarrow>
                   let l = l\<lparr>parser := ps, user := u\<rparr>
                   in if r = 0 then finish l
                      else if r = 1 then finish (l\<lparr>parser := set_flag F_SKIPBODY ps\<rparr>)
                      else RETURN (pos l)
                             (l\<lparr>parser := ps\<lparr>http_errno := HPE_CB_headers_complete\<rparr>\<rparr>))) l"

end
