(* ===== verification/Parser_Exec.thy ===== *)
theory Parser_Exec
  imports Parser_Headers
begin

text \<open>
  The cases of \<open>http_parser_execute\<close> for the end of the headers and for bodies (identity, until
  end of file, chunked), the switch over all states, the loop over the bytes and the function
  itself. The loop is a \<open>partial_function\<close>: callbacks may change the state of the parser, so its
  termination is a theorem (\<open>Parser_Safety\<close>) and not a given.
\<close>

section \<open>End of headers\<close>

definition exec_s_headers_done ::
  "'u http_parser_settings \<Rightarrow> byte \<Rightarrow> 'u locals \<Rightarrow> 'u outcome" where
  "exec_s_headers_done cfg ch l =
     STRICT_CHECK (ch \<noteq> LF) (\<lambda>l.
       let l = l\<lparr>parser := (parser l)\<lparr>nread := 0\<rparr>\<rparr>;
           ps = parser l;
           hasBody = (has_flag (flags ps) F_CHUNKED
                      \<or> 0 < content_length ps \<and> content_length ps \<noteq> ULLONG_MAX);
           new_message = (\<lambda>k. CALLBACK_NOTIFY cfg FOR_message_complete k
                                (UPDATE_STATE (NEW_MESSAGE ps) l))
       in if upgrade ps \<and> (p_method ps = HTTP_CONNECT \<or> has_flag (flags ps) F_SKIPBODY \<or> \<not> hasBody)
          then new_message (\<lambda>l. RETURN (pos l + 1) l)
          else if has_flag (flags ps) F_SKIPBODY then new_message Break
          else if has_flag (flags ps) F_CHUNKED then Break (UPDATE_STATE s_chunk_size_start l)
          else if content_length ps = 0 then new_message Break
          else if content_length ps \<noteq> ULLONG_MAX then Break (UPDATE_STATE s_body_identity l)
          else if \<not> http_message_needs_eof ps then new_message Break
          else Break (UPDATE_STATE s_body_identity_eof l)) l"

section \<open>Bodies\<close>

text \<open>
  \<open>to_read = MIN (content_length, (uint64_t) ((data + len) - p))\<close>, and the three lines that
  the identity and the chunked body share: mark, count down, and move \<open>p\<close> to the last byte read.
\<close>

definition body_to_read :: "byte list \<Rightarrow> 'u locals \<Rightarrow> uint64" where
  "body_to_read d l = min (content_length (parser l)) (of_nat (length d - pos l))"

definition consume_body :: "byte list \<Rightarrow> 'u locals \<Rightarrow> 'u locals" where
  "consume_body d l =
     (let to_read = body_to_read d l;
          l = MARK FOR_body l;
          l = l\<lparr>parser := (parser l)\<lparr>content_length := content_length (parser l) - to_read\<rparr>\<rparr>
      in l\<lparr>pos := pos l + unat to_read - 1\<rparr>)"

definition exec_s_body_identity ::
  "'u http_parser_settings \<Rightarrow> byte list \<Rightarrow> 'u locals \<Rightarrow> 'u outcome" where
  "exec_s_body_identity cfg d l =
     assert_then (content_length (parser l) \<noteq> 0 \<and> content_length (parser l) \<noteq> ULLONG_MAX) (\<lambda>l.
       let l = consume_body d l
       in if content_length (parser l) = 0
          then CALLBACK_DATA_at cfg d FOR_body (\<lambda>m. pos l - m + 1) (pos l) Reexecute
                 (UPDATE_STATE s_message_done l)
          else Break l) l"

definition exec_s_body_identity_eof :: "byte list \<Rightarrow> 'u locals \<Rightarrow> 'u outcome" where
  "exec_s_body_identity_eof d l = (let l = MARK FOR_body l in Break (l\<lparr>pos := length d - 1\<rparr>))"

definition exec_s_message_done :: "'u http_parser_settings \<Rightarrow> 'u locals \<Rightarrow> 'u outcome" where
  "exec_s_message_done cfg l =
     CALLBACK_NOTIFY cfg FOR_message_complete
       (\<lambda>l. if upgrade (parser l) then RETURN (pos l + 1) l else Break l)
       (UPDATE_STATE (NEW_MESSAGE (parser l)) l)"

abbreviation is_chunked :: "'u locals \<Rightarrow> bool" where
  "is_chunked l \<equiv> has_flag (flags (parser l)) F_CHUNKED"

definition exec_s_chunk_size_start :: "byte \<Rightarrow> 'u locals \<Rightarrow> 'u outcome" where
  "exec_s_chunk_size_start ch l =
     assert_then (nread (parser l) = 1) (assert_then (is_chunked l) (\<lambda>l.
       if unhex_val ch = - 1 then set_errno_goto_error HPE_INVALID_CHUNK_SIZE l
       else Break (UPDATE_STATE s_chunk_size
              (l\<lparr>parser := (parser l)\<lparr>content_length := of_int (unhex_val ch)\<rparr>\<rparr>)))) l"

definition exec_s_chunk_size :: "byte \<Rightarrow> 'u locals \<Rightarrow> 'u outcome" where
  "exec_s_chunk_size ch l =
     assert_then (is_chunked l) (\<lambda>l.
       if ch = CR then Break (UPDATE_STATE s_chunk_size_almost_done l)
       else if unhex_val ch = - 1 then
         (if ch = CHR '';'' \<or> ch = CHR '' '' then Break (UPDATE_STATE s_chunk_parameters l)
          else set_errno_goto_error HPE_INVALID_CHUNK_SIZE l)
       else
         let t = content_length (parser l) * 16 + of_int (unhex_val ch)
         in if (ULLONG_MAX - 16) div 16 < content_length (parser l)
            then set_errno_goto_error HPE_INVALID_CONTENT_LENGTH l
            else Break (l\<lparr>parser := (parser l)\<lparr>content_length := t\<rparr>\<rparr>)) l"

definition exec_s_chunk_parameters :: "byte \<Rightarrow> 'u locals \<Rightarrow> 'u outcome" where
  "exec_s_chunk_parameters ch l =
     assert_then (is_chunked l) (\<lambda>l.
       if ch = CR then Break (UPDATE_STATE s_chunk_size_almost_done l) else Break l) l"

definition exec_s_chunk_size_almost_done ::
  "'u http_parser_settings \<Rightarrow> byte \<Rightarrow> 'u locals \<Rightarrow> 'u outcome" where
  "exec_s_chunk_size_almost_done cfg ch l =
     assert_then (is_chunked l) (STRICT_CHECK (ch \<noteq> LF) (\<lambda>l.
       let l = l\<lparr>parser := (parser l)\<lparr>nread := 0\<rparr>\<rparr>;
           l = (if content_length (parser l) = 0
                then UPDATE_STATE s_header_field_start (l\<lparr>parser := set_flag F_TRAILING (parser l)\<rparr>)
                else UPDATE_STATE s_chunk_data l)
       in CALLBACK_NOTIFY cfg FOR_chunk_header Break l)) l"

definition exec_s_chunk_data :: "byte list \<Rightarrow> 'u locals \<Rightarrow> 'u outcome" where
  "exec_s_chunk_data d l =
     assert_then (is_chunked l)
       (assert_then (content_length (parser l) \<noteq> 0 \<and> content_length (parser l) \<noteq> ULLONG_MAX) (\<lambda>l.
         let l = consume_body d l
         in if content_length (parser l) = 0
            then Break (UPDATE_STATE s_chunk_data_almost_done l)
            else Break l)) l"

definition exec_s_chunk_data_almost_done ::
  "'u http_parser_settings \<Rightarrow> byte list \<Rightarrow> byte \<Rightarrow> 'u locals \<Rightarrow> 'u outcome" where
  "exec_s_chunk_data_almost_done cfg d ch l =
     assert_then (is_chunked l) (assert_then (content_length (parser l) = 0)
       (STRICT_CHECK (ch \<noteq> CR) (\<lambda>l.
         CALLBACK_DATA cfg d FOR_body Break (UPDATE_STATE s_chunk_data_done l)))) l"

definition exec_s_chunk_data_done ::
  "'u http_parser_settings \<Rightarrow> byte \<Rightarrow> 'u locals \<Rightarrow> 'u outcome" where
  "exec_s_chunk_data_done cfg ch l =
     assert_then (is_chunked l) (STRICT_CHECK (ch \<noteq> LF) (\<lambda>l.
       CALLBACK_NOTIFY cfg FOR_chunk_complete Break
         (UPDATE_STATE s_chunk_size_start (l\<lparr>parser := (parser l)\<lparr>nread := 0\<rparr>\<rparr>)))) l"

section \<open>The switch\<close>

definition exec_switch ::
  "'u http_parser_settings \<Rightarrow> byte list \<Rightarrow> byte \<Rightarrow> 'u locals \<Rightarrow> 'u outcome" where
  "exec_switch cfg d ch l =
     (case p_state l of
        s_dead \<Rightarrow> exec_s_dead ch l
      | s_start_req_or_res \<Rightarrow> exec_s_start_req_or_res cfg ch l
      | s_res_or_resp_H \<Rightarrow> exec_s_res_or_resp_H ch l
      | s_start_res \<Rightarrow> exec_s_start_res cfg ch l
      | s_res_H \<Rightarrow> exec_s_res_H ch l
      | s_res_HT \<Rightarrow> exec_s_res_HT ch l
      | s_res_HTT \<Rightarrow> exec_s_res_HTT ch l
      | s_res_HTTP \<Rightarrow> exec_s_res_HTTP ch l
      | s_res_first_http_major \<Rightarrow> exec_s_res_first_http_major ch l
      | s_res_http_major \<Rightarrow> exec_s_res_http_major ch l
      | s_res_first_http_minor \<Rightarrow> exec_s_res_first_http_minor ch l
      | s_res_http_minor \<Rightarrow> exec_s_res_http_minor ch l
      | s_res_first_status_code \<Rightarrow> exec_s_res_first_status_code ch l
      | s_res_status_code \<Rightarrow> exec_s_res_status_code ch l
      | s_res_status_start \<Rightarrow> exec_s_res_status_start ch l
      | s_res_status \<Rightarrow> exec_s_res_status cfg d ch l
      | s_res_line_almost_done \<Rightarrow> exec_s_res_line_almost_done ch l
      | s_start_req \<Rightarrow> exec_s_start_req cfg ch l
      | s_req_method \<Rightarrow> exec_s_req_method ch l
      | s_req_spaces_before_url \<Rightarrow> exec_s_req_spaces_before_url ch l
      | s_req_schema \<Rightarrow> exec_s_req_schema ch l
      | s_req_schema_slash \<Rightarrow> exec_s_req_schema ch l
      | s_req_schema_slash_slash \<Rightarrow> exec_s_req_schema ch l
      | s_req_server_start \<Rightarrow> exec_s_req_schema ch l
      | s_req_server \<Rightarrow> exec_s_req_url cfg d ch l
      | s_req_server_with_at \<Rightarrow> exec_s_req_url cfg d ch l
      | s_req_path \<Rightarrow> exec_s_req_url cfg d ch l
      | s_req_query_string_start \<Rightarrow> exec_s_req_url cfg d ch l
      | s_req_query_string \<Rightarrow> exec_s_req_url cfg d ch l
      | s_req_fragment_start \<Rightarrow> exec_s_req_url cfg d ch l
      | s_req_fragment \<Rightarrow> exec_s_req_url cfg d ch l
      | s_req_http_start \<Rightarrow> exec_s_req_http_start ch l
      | s_req_http_H \<Rightarrow> exec_s_req_http_H ch l
      | s_req_http_HT \<Rightarrow> exec_s_req_http_HT ch l
      | s_req_http_HTT \<Rightarrow> exec_s_req_http_HTT ch l
      | s_req_http_HTTP \<Rightarrow> exec_s_req_http_HTTP ch l
      | s_req_first_http_major \<Rightarrow> exec_s_req_first_http_major ch l
      | s_req_http_major \<Rightarrow> exec_s_req_http_major ch l
      | s_req_first_http_minor \<Rightarrow> exec_s_req_first_http_minor ch l
      | s_req_http_minor \<Rightarrow> exec_s_req_http_minor ch l
      | s_req_line_almost_done \<Rightarrow> exec_s_req_line_almost_done ch l
      | s_header_field_start \<Rightarrow> exec_s_header_field_start ch l
      | s_header_field \<Rightarrow> exec_s_header_field cfg d l
      | s_header_value_discard_ws \<Rightarrow> exec_s_header_value_discard_ws ch l
      | s_header_value_start \<Rightarrow> exec_s_header_value_start ch l
      | s_header_value \<Rightarrow> exec_s_header_value cfg d l
      | s_header_almost_done \<Rightarrow> exec_s_header_almost_done ch l
      | s_header_value_lws \<Rightarrow> exec_s_header_value_lws ch l
      | s_header_value_discard_ws_almost_done \<Rightarrow> exec_s_header_value_discard_ws_almost_done ch l
      | s_header_value_discard_lws \<Rightarrow> exec_s_header_value_discard_lws cfg d ch l
      | s_headers_almost_done \<Rightarrow> exec_s_headers_almost_done cfg ch l
      | s_headers_done \<Rightarrow> exec_s_headers_done cfg ch l
      | s_body_identity \<Rightarrow> exec_s_body_identity cfg d l
      | s_body_identity_eof \<Rightarrow> exec_s_body_identity_eof d l
      | s_message_done \<Rightarrow> exec_s_message_done cfg l
      | s_chunk_size_start \<Rightarrow> exec_s_chunk_size_start ch l
      | s_chunk_size \<Rightarrow> exec_s_chunk_size ch l
      | s_chunk_parameters \<Rightarrow> exec_s_chunk_parameters ch l
      | s_chunk_size_almost_done \<Rightarrow> exec_s_chunk_size_almost_done cfg ch l
      | s_chunk_data \<Rightarrow> exec_s_chunk_data d l
      | s_chunk_data_almost_done \<Rightarrow> exec_s_chunk_data_almost_done cfg d ch l
      | s_chunk_data_done \<Rightarrow> exec_s_chunk_data_done cfg ch l)"

section \<open>http\_parser\_execute\<close>

text \<open>
  What a call ends in: the number of bytes parsed with the parser and the application's state,
  or a fault.
\<close>

datatype 'u result = Returned nat http_parser 'u | Faulted

text \<open>The label \<open>error\<close>.\<close>

definition error_label :: "'u locals \<Rightarrow> 'u result" where
  "error_label l =
     (let ps = parser l;
          ps = (if http_errno ps = HPE_OK then ps\<lparr>http_errno := HPE_UNKNOWN\<rparr> else ps)
      in Returned (pos l) (ps\<lparr>state := p_state l\<rparr>) (user l))"

definition outcome_result :: "'u outcome \<Rightarrow> 'u result" where
  "outcome_result out =
     (case out of
        Return n ps u \<Rightarrow> Returned n ps u
      | Goto_error l \<Rightarrow> error_label l
      | _ \<Rightarrow> Faulted)"

text \<open>After the loop: at most one mark is left, and the data it begins is shown to the callback.\<close>

definition exec_finish :: "'u http_parser_settings \<Rightarrow> byte list \<Rightarrow> 'u locals \<Rightarrow> 'u result" where
  "exec_finish cfg d l =
     outcome_result
       (assert_then
         (length (filter (\<lambda>f. marks l f \<noteq> None)
            [FOR_header_field, FOR_header_value, FOR_url, FOR_body, FOR_status]) \<le> 1)
         (CALLBACK_DATA_NOADVANCE cfg d FOR_header_field
         (CALLBACK_DATA_NOADVANCE cfg d FOR_header_value
         (CALLBACK_DATA_NOADVANCE cfg d FOR_url
         (CALLBACK_DATA_NOADVANCE cfg d FOR_body
         (CALLBACK_DATA_NOADVANCE cfg d FOR_status
         (RETURN (length d))))))) l)"

text \<open>
  The loop. With \<open>re = False\<close> it is at the loop head \<open>for (...; p != data + len; p++)\<close>, with
  \<open>re = True\<close> at the label \<open>reexecute\<close>. Past the end of the buffer, where \<open>p != data + len\<close> would
  let the loop read on, is a fault.
\<close>

definition count_header_byte :: "('u locals \<Rightarrow> 'u outcome) \<Rightarrow> 'u locals \<Rightarrow> 'u outcome" where
  "count_header_byte k l = (if PARSING_HEADER (p_state l) then COUNT_HEADER_SIZE 1 k l else k l)"

partial_function (option) exec_loop ::
  "'u http_parser_settings \<Rightarrow> byte list \<Rightarrow> bool \<Rightarrow> 'u locals \<Rightarrow> 'u result option"
where
  "exec_loop cfg d re l =
     (if re then
        case exec_switch cfg d (cur l) l of
          Break l' \<Rightarrow> exec_loop cfg d False (l'\<lparr>pos := pos l' + 1\<rparr>)
        | Reexecute l' \<Rightarrow> exec_loop cfg d True l'
        | Goto_error l' \<Rightarrow> Some (error_label l')
        | Return n ps u \<Rightarrow> Some (Returned n ps u)
        | Fault \<Rightarrow> Some Faulted
      else if pos l = length d then Some (exec_finish cfg d l)
      else if length d < pos l then Some Faulted
      else
        case count_header_byte Reexecute (l\<lparr>cur := d ! pos l\<rparr>) of
          Reexecute l' \<Rightarrow> exec_loop cfg d True l'
        | out \<Rightarrow> Some (outcome_result out))"

declare exec_loop.simps [code]

text \<open>The marks at the start of a call: data that began in an earlier buffer goes on at \<open>data\<close>.\<close>

definition initial_marks :: "state \<Rightarrow> data_for \<Rightarrow> nat option" where
  "initial_marks s =
     (\<lambda>f. None)
       (FOR_header_field := if s = s_header_field then Some 0 else None,
        FOR_header_value := if s = s_header_value then Some 0 else None,
        FOR_url := if s \<in> {s_req_path, s_req_schema, s_req_schema_slash, s_req_schema_slash_slash,
             s_req_server_start, s_req_server, s_req_server_with_at, s_req_query_string_start,
             s_req_query_string, s_req_fragment_start, s_req_fragment} then Some 0 else None,
        FOR_status := if s = s_res_status then Some 0 else None)"

definition initial_locals :: "http_parser \<Rightarrow> 'u \<Rightarrow> 'u locals" where
  "initial_locals ps u =
     \<lparr>parser = ps, p_state = state ps, pos = 0, cur = NUL, marks = initial_marks (state ps),
      user = u\<rparr>"

text \<open>The end of the stream is a call with no bytes.\<close>

definition execute_eof :: "'u http_parser_settings \<Rightarrow> http_parser \<Rightarrow> 'u \<Rightarrow> 'u result" where
  "execute_eof cfg ps u =
     (if state ps = s_body_identity_eof
      then outcome_result
             (CALLBACK_NOTIFY_NOADVANCE cfg FOR_message_complete
               (\<lambda>l. Return 0 (parser l) (user l)) (initial_locals ps u))
      else if state ps \<in> {s_dead, s_start_req_or_res, s_start_res, s_start_req}
      then Returned 0 ps u
      else Returned 1 (ps\<lparr>http_errno := HPE_INVALID_EOF_STATE\<rparr>) u)"

definition http_parser_execute ::
  "'u http_parser_settings \<Rightarrow> byte list \<Rightarrow> http_parser \<Rightarrow> 'u \<Rightarrow> 'u result option" where
  "http_parser_execute cfg d ps u =
     (if http_errno ps \<noteq> HPE_OK then Some (Returned 0 ps u)
      else if d = [] then Some (execute_eof cfg ps u)
      else exec_loop cfg d False (initial_locals ps u))"

text \<open>At the loop head the byte that the locals hold does not matter: the next one is fetched.\<close>

lemma CALLBACK_DATA_at_cur:
  assumes "\<And>l c. k (l\<lparr>cur := c\<rparr>) = k l"
  shows "CALLBACK_DATA_at cfg d FOR LEN ER k (l\<lparr>cur := c\<rparr>) = CALLBACK_DATA_at cfg d FOR LEN ER k l"
proof -
  have k: "k \<lparr>parser = ps, p_state = s, pos = i, cur = c, marks = mk, user = u\<rparr>
      = k \<lparr>parser = ps, p_state = s, pos = i, cur = c', marks = mk, user = u\<rparr>" for ps s i c c' mk u
    using assms [where l = "\<lparr>parser = ps, p_state = s, pos = i, cur = c', marks = mk, user = u\<rparr>" and c = c]
    by simp
  show ?thesis
    by (cases l) (auto simp: CALLBACK_DATA_at_def assert_then_def after_callback_def Let_def
        intro: k split: option.split prod.split)
qed

lemma exec_finish_cur: "exec_finish cfg d (l\<lparr>cur := c\<rparr>) = exec_finish cfg d l"
proof -
  have "RETURN n (l\<lparr>cur := c\<rparr>) = RETURN n l" for l :: "'a locals" and n c
    by (simp add: RETURN_def)
  then show ?thesis
    by (simp add: exec_finish_def assert_then_def CALLBACK_DATA_NOADVANCE_def CALLBACK_DATA_at_cur)
qed

lemma exec_loop_cur: "exec_loop cfg d False (l\<lparr>cur := c\<rparr>) = exec_loop cfg d False l"
  by (subst (1 2) exec_loop.simps) (simp add: exec_finish_cur)

end
