(* ===== verification/Parser_Invariant.thy ===== *)
theory Parser_Invariant
  imports Parser_Exec
begin

text \<open>
  The invariant of \<open>http_parser_execute\<close>: what holds of the parser in each state (\<open>core_ok\<close>),
  which mark can be set in it (\<open>marks_ok\<close>), and what a case of the switch may end in
  (\<open>outcome_ok\<close>). It is kept by every case; those that neither run a callback nor compute a
  length are settled here.
\<close>

section \<open>The invariant\<close>

definition header_name_states :: "header_states set" where
  "header_name_states =
     {h_general, h_C, h_CO, h_CON, h_matching_connection, h_matching_proxy_connection,
      h_matching_content_length, h_matching_transfer_encoding, h_matching_upgrade,
      h_connection, h_content_length, h_transfer_encoding, h_upgrade}"

definition core_ok :: "state \<Rightarrow> http_parser \<Rightarrow> bool" where
  "core_ok s ps =
     (case s of
        s_req_method \<Rightarrow> unat (index ps) \<le> length (method_string (p_method ps))
      | s_header_field \<Rightarrow> header_state ps \<in> header_name_states
      | s_header_value \<Rightarrow> header_state ps \<noteq> h_connection \<and> header_state ps \<noteq> h_transfer_encoding
      | s_body_identity \<Rightarrow> content_length ps \<noteq> 0 \<and> content_length ps \<noteq> ULLONG_MAX
      | s_chunk_size_start \<Rightarrow> has_flag (flags ps) F_CHUNKED
      | s_chunk_size \<Rightarrow> has_flag (flags ps) F_CHUNKED \<and> content_length ps \<noteq> ULLONG_MAX
      | s_chunk_parameters \<Rightarrow> has_flag (flags ps) F_CHUNKED \<and> content_length ps \<noteq> ULLONG_MAX
      | s_chunk_size_almost_done \<Rightarrow> has_flag (flags ps) F_CHUNKED \<and> content_length ps \<noteq> ULLONG_MAX
      | s_chunk_data \<Rightarrow> has_flag (flags ps) F_CHUNKED
          \<and> content_length ps \<noteq> 0 \<and> content_length ps \<noteq> ULLONG_MAX
      | s_chunk_data_almost_done \<Rightarrow> has_flag (flags ps) F_CHUNKED \<and> content_length ps = 0
      | s_chunk_data_done \<Rightarrow> has_flag (flags ps) F_CHUNKED
      | _ \<Rightarrow> True)"

text \<open>Between two bytes, \<open>nread\<close> is 0 at the start of a chunk; on its first byte it is 1.\<close>

definition chunk_nread :: "nat \<Rightarrow> state \<Rightarrow> http_parser \<Rightarrow> bool" where
  "chunk_nread n s ps \<longleftrightarrow> (s = s_chunk_size_start \<longrightarrow> nread ps = of_nat n)"

text \<open>
  What bounds the numbers of a parser: the header size that the code allows, and three digits
  for the version numbers and the status.
\<close>

definition bounds_ok :: "http_parser \<Rightarrow> bool" where
  "bounds_ok ps \<longleftrightarrow>
     unat (nread ps) \<le> HTTP_MAX_HEADER_SIZE
     \<and> http_major ps \<le> 999 \<and> http_minor ps \<le> 999 \<and> status_code ps \<le> 999"

text \<open>
  A parser that \<open>http_parser_execute\<close> can be called with. One in an error state (a pause is
  none) is not run again, and nothing is known of it.
\<close>

definition parser_ok :: "http_parser \<Rightarrow> bool" where
  "parser_ok ps \<longleftrightarrow>
     (http_errno ps = HPE_OK \<or> http_errno ps = HPE_PAUSED \<longrightarrow>
        core_ok (state ps) ps \<and> chunk_nread 0 (state ps) ps \<and> bounds_ok ps)"

fun mark_states :: "data_for \<Rightarrow> state set" where
  "mark_states FOR_header_field = {s_header_field}"
| "mark_states FOR_header_value = {s_header_value}"
| "mark_states FOR_url = {s_req_schema, s_req_schema_slash, s_req_schema_slash_slash,
     s_req_server_start, s_req_server, s_req_server_with_at, s_req_path,
     s_req_query_string_start, s_req_query_string, s_req_fragment_start, s_req_fragment}"
| "mark_states FOR_body = {s_body_identity, s_body_identity_eof, s_chunk_data,
     s_chunk_data_almost_done}"
| "mark_states FOR_status = {s_res_status}"

definition marks_ok :: "state \<Rightarrow> nat \<Rightarrow> (data_for \<Rightarrow> nat option) \<Rightarrow> bool" where
  "marks_ok s n m \<longleftrightarrow> (\<forall>f i. m f = Some i \<longrightarrow> i \<le> n \<and> s \<in> mark_states f)"

lemma mark_states_disjoint: "s \<in> mark_states f \<Longrightarrow> s \<in> mark_states g \<Longrightarrow> f = g"
  by (cases f; cases g) auto

lemma marks_ok_empty [simp]: "marks_ok s n (\<lambda>f. None)"
  by (simp add: marks_ok_def)

lemma marks_ok_mono: "marks_ok s n m \<Longrightarrow> n \<le> n' \<Longrightarrow> marks_ok s n' m"
  by (fastforce simp: marks_ok_def)

text \<open>Outside the states of a mark it is not set; within them only that mark can be set.\<close>

lemma marks_ok_none: "marks_ok s n m \<Longrightarrow> \<forall>f. s \<notin> mark_states f \<Longrightarrow> m = (\<lambda>f. None)"
  by (rule ext) (metis marks_ok_def not_None_eq)

lemma marks_ok_only: "marks_ok s n m \<Longrightarrow> s \<in> mark_states f \<Longrightarrow> m(f := None) = (\<lambda>f. None)"
  by (rule ext) (metis fun_upd_apply marks_ok_def mark_states_disjoint not_None_eq)

lemma marks_ok_upd:
  "marks_ok s n m \<Longrightarrow> s \<in> mark_states f \<Longrightarrow> s' \<in> mark_states f \<Longrightarrow> marks_ok s' n m"
  by (metis marks_ok_def mark_states_disjoint)

lemma marks_ok_single [simp]:
  "marks_ok s n ((\<lambda>f. None)(f := Some i)) \<longleftrightarrow> i \<le> n \<and> s \<in> mark_states f"
  by (auto simp: marks_ok_def)

text \<open>At most one mark is set: the assertion after the loop.\<close>

lemma marks_ok_count:
  assumes "marks_ok s n m"
  shows "length (filter (\<lambda>f. m f \<noteq> None)
           [FOR_header_field, FOR_header_value, FOR_url, FOR_body, FOR_status]) \<le> 1"
proof (cases "\<exists>f. m f \<noteq> None")
  case True
  then obtain f i where f: "m f = Some i" by auto
  with assms have s: "s \<in> mark_states f" by (auto simp: marks_ok_def)
  have "m g = None" if "g \<noteq> f" for g
    using marks_ok_only [OF assms s] that by (metis fun_upd_apply)
  then have "m g \<noteq> None \<longleftrightarrow> g = f" for g
    using f by (cases "g = f") auto
  then show ?thesis by (cases f) simp_all
next
  case False
  then show ?thesis by simp
qed

text \<open>The bound on re-executions of one byte.\<close>

fun rank :: "state \<Rightarrow> nat" where
  "rank s =
     (if s = s_header_value_lws \<or> s = s_header_value_discard_lws then 3
      else if s = s_header_field_start then 2
      else if s \<in> {s_headers_almost_done, s_body_identity, s_start_req_or_res, s_header_value} then 1
      else 0)"

declare rank.simps [simp del]

text \<open>
  The invariant at the switch, for a byte of the buffer \<open>d\<close>, and what a case of the switch may
  end in when it is run in the locals \<open>l\<close>.
\<close>

definition switch_ok :: "byte list \<Rightarrow> ('u \<Rightarrow> bool) \<Rightarrow> 'u locals \<Rightarrow> bool" where
  "switch_ok d U l \<longleftrightarrow>
     http_errno (parser l) = HPE_OK \<and> U (user l) \<and> pos l < length d
     \<and> marks_ok (p_state l) (pos l) (marks l)
     \<and> core_ok (p_state l) (parser l) \<and> chunk_nread 1 (p_state l) (parser l)
     \<and> bounds_ok (parser l)"

definition break_ok :: "byte list \<Rightarrow> ('u \<Rightarrow> bool) \<Rightarrow> nat \<Rightarrow> 'u locals \<Rightarrow> bool" where
  "break_ok d U n l \<longleftrightarrow>
     http_errno (parser l) = HPE_OK \<and> U (user l) \<and> n \<le> pos l \<and> pos l < length d
     \<and> marks_ok (p_state l) (pos l) (marks l)
     \<and> core_ok (p_state l) (parser l) \<and> chunk_nread 0 (p_state l) (parser l)
     \<and> bounds_ok (parser l)"

definition reexecute_ok :: "byte list \<Rightarrow> ('u \<Rightarrow> bool) \<Rightarrow> nat \<Rightarrow> state \<Rightarrow> 'u locals \<Rightarrow> bool" where
  "reexecute_ok d U n s l \<longleftrightarrow> switch_ok d U l \<and> n \<le> pos l \<and> rank (p_state l) < rank s"

definition error_ok :: "byte list \<Rightarrow> ('u \<Rightarrow> bool) \<Rightarrow> 'u locals \<Rightarrow> bool" where
  "error_ok d U l \<longleftrightarrow>
     U (user l) \<and> pos l \<le> length d
     \<and> http_errno (parser l) \<noteq> HPE_OK \<and> http_errno (parser l) \<noteq> HPE_PAUSED"

text \<open>The outcome of a case that began at position \<open>n\<close> in state \<open>s\<close>.\<close>

fun outcome_ok :: "byte list \<Rightarrow> ('u \<Rightarrow> bool) \<Rightarrow> nat \<Rightarrow> state \<Rightarrow> 'u outcome \<Rightarrow> bool" where
  "outcome_ok d U n s (Break l) = break_ok d U n l"
| "outcome_ok d U n s (Reexecute l) = reexecute_ok d U n s l"
| "outcome_ok d U n s (Goto_error l) = error_ok d U l"
| "outcome_ok d U n s (Return v ps u) = (v \<le> length d \<and> parser_ok ps \<and> U u)"
| "outcome_ok d U n s Fault = False"

text \<open>The state and the bookkeeping fields are not looked at by \<open>core_ok\<close>.\<close>

lemma core_ok_frame [simp]:
  "core_ok s (ps\<lparr>state := x1\<rparr>) = core_ok s ps"
  "core_ok s (ps\<lparr>http_errno := x2\<rparr>) = core_ok s ps"
  "core_ok s (ps\<lparr>nread := x3\<rparr>) = core_ok s ps"
  "core_ok s (ps\<lparr>p_data := x4\<rparr>) = core_ok s ps"
  "core_ok s (ps\<lparr>upgrade := x5\<rparr>) = core_ok s ps"
  by (cases s; simp add: core_ok_def)+

lemma chunk_nread_frame [simp]:
  "chunk_nread n s (ps\<lparr>state := x1\<rparr>) = chunk_nread n s ps"
  "chunk_nread n s (ps\<lparr>http_errno := x2\<rparr>) = chunk_nread n s ps"
  "chunk_nread n s (ps\<lparr>p_data := x3\<rparr>) = chunk_nread n s ps"
  "chunk_nread n s (ps\<lparr>flags := x4\<rparr>) = chunk_nread n s ps"
  "chunk_nread n s (ps\<lparr>header_state := x5\<rparr>) = chunk_nread n s ps"
  by (simp_all add: chunk_nread_def)

lemma chunk_nread_other [simp]: "s \<noteq> s_chunk_size_start \<Longrightarrow> chunk_nread n s ps"
  by (simp add: chunk_nread_def)

text \<open>\<open>bounds_ok\<close> looks at its four numbers only, and new digits keep them in bounds.\<close>

lemma bounds_ok_frame [simp]:
  "bounds_ok (ps\<lparr>state := x1\<rparr>) = bounds_ok ps"
  "bounds_ok (ps\<lparr>http_errno := x2\<rparr>) = bounds_ok ps"
  "bounds_ok (ps\<lparr>p_data := x3\<rparr>) = bounds_ok ps"
  "bounds_ok (ps\<lparr>upgrade := x4\<rparr>) = bounds_ok ps"
  "bounds_ok (ps\<lparr>p_type := x5\<rparr>) = bounds_ok ps"
  "bounds_ok (ps\<lparr>p_method := x6\<rparr>) = bounds_ok ps"
  "bounds_ok (ps\<lparr>index := x7\<rparr>) = bounds_ok ps"
  "bounds_ok (ps\<lparr>content_length := x8\<rparr>) = bounds_ok ps"
  "bounds_ok (ps\<lparr>flags := x9\<rparr>) = bounds_ok ps"
  "bounds_ok (ps\<lparr>header_state := x10\<rparr>) = bounds_ok ps"
  by (simp_all add: bounds_ok_def)

lemma bounds_ok_reset [simp]: "bounds_ok ps \<Longrightarrow> bounds_ok (ps\<lparr>nread := 0\<rparr>)"
  by (simp add: bounds_ok_def)

lemma bounds_ok_digits:
  "bounds_ok ps \<Longrightarrow> x \<le> 999 \<Longrightarrow> bounds_ok (ps\<lparr>http_major := x\<rparr>)"
  "bounds_ok ps \<Longrightarrow> x \<le> 999 \<Longrightarrow> bounds_ok (ps\<lparr>http_minor := x\<rparr>)"
  "bounds_ok ps \<Longrightarrow> x \<le> 999 \<Longrightarrow> bounds_ok (ps\<lparr>status_code := x\<rparr>)"
  by (simp_all add: bounds_ok_def)

lemma first_digit16_le:
  assumes "IS_NUM ch"
  shows "first_digit16 ch \<le> 999"
proof -
  obtain n where "digit_val ch = int n" and "n < 10"
    using assms by (rule digit_val_nat)
  moreover from \<open>n < 10\<close> have "unat (of_nat n :: uint16) = n"
    by (intro unat_of_nat_small) simp
  ultimately show ?thesis by (simp add: first_digit16_def word_le_nat_alt)
qed

lemma first_digit16_le_range:
  "\<not> schar ch < schar (CHR ''0'') \<Longrightarrow> \<not> schar (CHR ''9'') < schar ch \<Longrightarrow> first_digit16 ch \<le> 999"
  "\<not> schar ch < schar (CHR ''1'') \<Longrightarrow> \<not> schar (CHR ''9'') < schar ch \<Longrightarrow> first_digit16 ch \<le> 999"
  by (rule first_digit16_le; simp add: IS_NUM_def schar_def)+

lemma error_intro [intro]:
  "U (user l) \<Longrightarrow> pos l \<le> length d \<Longrightarrow> e \<noteq> HPE_OK \<Longrightarrow> e \<noteq> HPE_PAUSED
    \<Longrightarrow> outcome_ok d U n s (set_errno_goto_error e l)"
  by (simp add: set_errno_goto_error_def error_ok_def)

section \<open>Cases that run no callback\<close>

lemma all_data_for: "(\<forall>f. P f) \<longleftrightarrow>
    P FOR_header_field \<and> P FOR_header_value \<and> P FOR_url \<and> P FOR_body \<and> P FOR_status"
  by (metis data_for.exhaust)

lemma outcome_ok_error [simp]:
  "outcome_ok d U n s (set_errno_goto_error e l) \<longleftrightarrow>
     U (user l) \<and> pos l \<le> length d \<and> e \<noteq> HPE_OK \<and> e \<noteq> HPE_PAUSED"
  by (simp add: set_errno_goto_error_def error_ok_def)

lemma switch_okD:
  assumes "switch_ok d U l" and "p_state l = s"
  shows "http_errno (parser l) = HPE_OK" "U (user l)" "pos l < length d" "pos l \<le> length d"
    "marks_ok s (pos l) (marks l)" "core_ok s (parser l)" "chunk_nread 1 s (parser l)"
    "bounds_ok (parser l)"
  using assms by (simp_all add: switch_ok_def)

text \<open>A state of no mark: all marks are unset.\<close>

lemma switch_marks:
  assumes "switch_ok d U l" and "p_state l = s"
    and "s \<notin> mark_states FOR_header_field \<union> mark_states FOR_header_value \<union> mark_states FOR_url
           \<union> mark_states FOR_body \<union> mark_states FOR_status"
  shows "marks l = (\<lambda>f. None)"
  using assms by (intro marks_ok_none [of s "pos l"]) (auto simp: switch_ok_def all_data_for)

lemmas case_defs = break_ok_def reexecute_ok_def switch_ok_def core_ok_def rank.simps
  STRICT_CHECK_def Let_def MARK_def bounds_ok_digits first_digit16_le first_digit16_le_range

lemma s_dead_ok:
  assumes "switch_ok d U l" and "p_state l = s_dead"
  shows "outcome_ok d U (pos l) s_dead (exec_s_dead ch l)"
  using switch_okD [OF assms] switch_marks [OF assms] assms(2)
  by (simp add: exec_s_dead_def case_defs)

lemma s_res_or_resp_H_ok:
  assumes "switch_ok d U l" and "p_state l = s_res_or_resp_H"
  shows "outcome_ok d U (pos l) s_res_or_resp_H (exec_s_res_or_resp_H ch l)"
  using switch_okD [OF assms] switch_marks [OF assms] assms(2)
  by (simp add: exec_s_res_or_resp_H_def case_defs)

lemma s_res_H_ok:
  assumes "switch_ok d U l" and "p_state l = s_res_H"
  shows "outcome_ok d U (pos l) s_res_H (exec_s_res_H ch l)"
  using switch_okD [OF assms] switch_marks [OF assms] assms(2)
  by (simp add: exec_s_res_H_def case_defs)

lemma s_res_HT_ok:
  assumes "switch_ok d U l" and "p_state l = s_res_HT"
  shows "outcome_ok d U (pos l) s_res_HT (exec_s_res_HT ch l)"
  using switch_okD [OF assms] switch_marks [OF assms] assms(2)
  by (simp add: exec_s_res_HT_def case_defs)

lemma s_res_HTT_ok:
  assumes "switch_ok d U l" and "p_state l = s_res_HTT"
  shows "outcome_ok d U (pos l) s_res_HTT (exec_s_res_HTT ch l)"
  using switch_okD [OF assms] switch_marks [OF assms] assms(2)
  by (simp add: exec_s_res_HTT_def case_defs)

lemma s_res_HTTP_ok:
  assumes "switch_ok d U l" and "p_state l = s_res_HTTP"
  shows "outcome_ok d U (pos l) s_res_HTTP (exec_s_res_HTTP ch l)"
  using switch_okD [OF assms] switch_marks [OF assms] assms(2)
  by (simp add: exec_s_res_HTTP_def case_defs)

lemma s_res_first_http_major_ok:
  assumes "switch_ok d U l" and "p_state l = s_res_first_http_major"
  shows "outcome_ok d U (pos l) s_res_first_http_major (exec_s_res_first_http_major ch l)"
  using switch_okD [OF assms] switch_marks [OF assms] assms(2)
  by (simp add: exec_s_res_first_http_major_def case_defs)

lemma s_res_http_major_ok:
  assumes "switch_ok d U l" and "p_state l = s_res_http_major"
  shows "outcome_ok d U (pos l) s_res_http_major (exec_s_res_http_major ch l)"
  using switch_okD [OF assms] switch_marks [OF assms] assms(2)
  by (simp add: exec_s_res_http_major_def more_http_major_def case_defs)

lemma s_res_first_http_minor_ok:
  assumes "switch_ok d U l" and "p_state l = s_res_first_http_minor"
  shows "outcome_ok d U (pos l) s_res_first_http_minor (exec_s_res_first_http_minor ch l)"
  using switch_okD [OF assms] switch_marks [OF assms] assms(2)
  by (simp add: exec_s_res_first_http_minor_def case_defs)

lemma s_res_http_minor_ok:
  assumes "switch_ok d U l" and "p_state l = s_res_http_minor"
  shows "outcome_ok d U (pos l) s_res_http_minor (exec_s_res_http_minor ch l)"
  using switch_okD [OF assms] switch_marks [OF assms] assms(2)
  by (simp add: exec_s_res_http_minor_def more_http_minor_def case_defs)

lemma s_res_first_status_code_ok:
  assumes "switch_ok d U l" and "p_state l = s_res_first_status_code"
  shows "outcome_ok d U (pos l) s_res_first_status_code (exec_s_res_first_status_code ch l)"
  using switch_okD [OF assms] switch_marks [OF assms] assms(2)
  by (simp add: exec_s_res_first_status_code_def case_defs)

lemma s_res_status_code_ok:
  assumes "switch_ok d U l" and "p_state l = s_res_status_code"
  shows "outcome_ok d U (pos l) s_res_status_code (exec_s_res_status_code ch l)"
  using switch_okD [OF assms] switch_marks [OF assms] assms(2)
  by (simp add: exec_s_res_status_code_def case_defs)

lemma s_res_status_start_ok:
  assumes "switch_ok d U l" and "p_state l = s_res_status_start"
  shows "outcome_ok d U (pos l) s_res_status_start (exec_s_res_status_start ch l)"
  using switch_okD [OF assms] switch_marks [OF assms] assms(2)
  by (simp add: exec_s_res_status_start_def case_defs)

lemma s_res_line_almost_done_ok:
  assumes "switch_ok d U l" and "p_state l = s_res_line_almost_done"
  shows "outcome_ok d U (pos l) s_res_line_almost_done (exec_s_res_line_almost_done ch l)"
  using switch_okD [OF assms] switch_marks [OF assms] assms(2)
  by (simp add: exec_s_res_line_almost_done_def case_defs)

lemma s_req_http_start_ok:
  assumes "switch_ok d U l" and "p_state l = s_req_http_start"
  shows "outcome_ok d U (pos l) s_req_http_start (exec_s_req_http_start ch l)"
  using switch_okD [OF assms] switch_marks [OF assms] assms(2)
  by (simp add: exec_s_req_http_start_def case_defs)

lemma s_req_http_H_ok:
  assumes "switch_ok d U l" and "p_state l = s_req_http_H"
  shows "outcome_ok d U (pos l) s_req_http_H (exec_s_req_http_H ch l)"
  using switch_okD [OF assms] switch_marks [OF assms] assms(2)
  by (simp add: exec_s_req_http_H_def case_defs)

lemma s_req_http_HT_ok:
  assumes "switch_ok d U l" and "p_state l = s_req_http_HT"
  shows "outcome_ok d U (pos l) s_req_http_HT (exec_s_req_http_HT ch l)"
  using switch_okD [OF assms] switch_marks [OF assms] assms(2)
  by (simp add: exec_s_req_http_HT_def case_defs)

lemma s_req_http_HTT_ok:
  assumes "switch_ok d U l" and "p_state l = s_req_http_HTT"
  shows "outcome_ok d U (pos l) s_req_http_HTT (exec_s_req_http_HTT ch l)"
  using switch_okD [OF assms] switch_marks [OF assms] assms(2)
  by (simp add: exec_s_req_http_HTT_def case_defs)

lemma s_req_http_HTTP_ok:
  assumes "switch_ok d U l" and "p_state l = s_req_http_HTTP"
  shows "outcome_ok d U (pos l) s_req_http_HTTP (exec_s_req_http_HTTP ch l)"
  using switch_okD [OF assms] switch_marks [OF assms] assms(2)
  by (simp add: exec_s_req_http_HTTP_def case_defs)

lemma s_req_first_http_major_ok:
  assumes "switch_ok d U l" and "p_state l = s_req_first_http_major"
  shows "outcome_ok d U (pos l) s_req_first_http_major (exec_s_req_first_http_major ch l)"
  using switch_okD [OF assms] switch_marks [OF assms] assms(2)
  by (simp add: exec_s_req_first_http_major_def case_defs)

lemma s_req_http_major_ok:
  assumes "switch_ok d U l" and "p_state l = s_req_http_major"
  shows "outcome_ok d U (pos l) s_req_http_major (exec_s_req_http_major ch l)"
  using switch_okD [OF assms] switch_marks [OF assms] assms(2)
  by (simp add: exec_s_req_http_major_def more_http_major_def case_defs)

lemma s_req_first_http_minor_ok:
  assumes "switch_ok d U l" and "p_state l = s_req_first_http_minor"
  shows "outcome_ok d U (pos l) s_req_first_http_minor (exec_s_req_first_http_minor ch l)"
  using switch_okD [OF assms] switch_marks [OF assms] assms(2)
  by (simp add: exec_s_req_first_http_minor_def case_defs)

lemma s_req_http_minor_ok:
  assumes "switch_ok d U l" and "p_state l = s_req_http_minor"
  shows "outcome_ok d U (pos l) s_req_http_minor (exec_s_req_http_minor ch l)"
  using switch_okD [OF assms] switch_marks [OF assms] assms(2)
  by (simp add: exec_s_req_http_minor_def more_http_minor_def case_defs)

lemma s_req_line_almost_done_ok:
  assumes "switch_ok d U l" and "p_state l = s_req_line_almost_done"
  shows "outcome_ok d U (pos l) s_req_line_almost_done (exec_s_req_line_almost_done ch l)"
  using switch_okD [OF assms] switch_marks [OF assms] assms(2)
  by (simp add: exec_s_req_line_almost_done_def case_defs)

lemma s_header_almost_done_ok:
  assumes "switch_ok d U l" and "p_state l = s_header_almost_done"
  shows "outcome_ok d U (pos l) s_header_almost_done (exec_s_header_almost_done ch l)"
  using switch_okD [OF assms] switch_marks [OF assms] assms(2)
  by (simp add: exec_s_header_almost_done_def case_defs)

lemma s_header_value_discard_ws_almost_done_ok:
  assumes "switch_ok d U l" and "p_state l = s_header_value_discard_ws_almost_done"
  shows "outcome_ok d U (pos l) s_header_value_discard_ws_almost_done (exec_s_header_value_discard_ws_almost_done ch l)"
  using switch_okD [OF assms] switch_marks [OF assms] assms(2)
  by (simp add: exec_s_header_value_discard_ws_almost_done_def case_defs)

end
