(* ===== verification/Parser_Cases.thy ===== *)
theory Parser_Cases
  imports Parser_Invariant
begin

text \<open>
  The cases of the switch that run no callback but index a string, compute a length or move
  over several bytes keep the invariant, and the facts about the two inner loops over header
  bytes that the cases with callbacks need.
\<close>

section \<open>The method and the URL\<close>

lemma method_string_length: "length (method_string m) \<le> 11"
  by (cases m) simp_all

lemma cstr_at_eq: "cstr_at s i = (if i < length s then s ! i else if i = length s then NUL else cstr_at s i)"
  by (simp add: cstr_at_def nth_append)

lemma cstr_at_not_NUL: "ch = cstr_at s i \<Longrightarrow> ch \<noteq> NUL \<Longrightarrow> i \<le> length s \<Longrightarrow> i < length s"
  by (cases "i = length s") (simp_all add: cstr_at_def nth_append)

text \<open>The chain of alternatives changes to a method that is at least as long as what was read.\<close>

lemma other_method_length:
  "other_method m i ch = Some m' \<Longrightarrow> unat i < length (method_string m')"
  by (auto simp: other_method_def split: if_splits)

lemma index_inc:
  assumes "unat i < length (method_string m)"
  shows "unat (i + 1 :: uint8) \<le> length (method_string m)"
proof -
  have "unat (i + 1) = unat i + 1"
    using assms method_string_length [of m] by (intro unat_inc_word) simp
  with assms show ?thesis by simp
qed

lemma s_req_method_ok:
  assumes "switch_ok d U l" and "p_state l = s_req_method"
  shows "outcome_ok d U (pos l) s_req_method (exec_s_req_method ch l)"
proof (cases "ch = NUL")
  case True
  with switch_okD [OF assms] show ?thesis by (simp add: exec_s_req_method_def)
next
  case False
  let ?i = "index (parser l)" and ?m = "p_method (parser l)"
  have i: "unat ?i \<le> length (method_string ?m)"
    using switch_okD(6) [OF assms] by (simp add: core_ok_def)
  then have match: "unat (?i + 1) \<le> length (method_string ?m)"
    if "ch = cstr_at (method_string ?m) (unat ?i)"
    using that False by (intro index_inc) (auto intro: cstr_at_not_NUL)
  have other: "unat (?i + 1) \<le> length (method_string m')" if "other_method ?m ?i ch = Some m'" for m'
    using that by (intro index_inc other_method_length)
  show ?thesis
    using switch_okD [OF assms] switch_marks [OF assms] assms(2) i match other
    by (cases "other_method ?m ?i ch") (simp_all add: exec_s_req_method_def case_defs False)
qed

lemma url_state_mark: "url_state s \<longleftrightarrow> s \<in> mark_states FOR_url"
  by (cases s) (simp_all add: url_state_def)

lemma url_state_core: "s \<in> mark_states FOR_url \<Longrightarrow> core_ok s ps" "s \<in> mark_states FOR_url \<Longrightarrow> chunk_nread n s ps"
  by (auto simp: core_ok_def)

text \<open>A byte of the URL leads to a URL state or to the error.\<close>

lemma url_next: "parse_url_char s ch \<noteq> s_dead \<Longrightarrow> parse_url_char s ch \<in> mark_states FOR_url"
  using parse_url_char_range [of s ch] unfolding url_state_mark by blast

lemma url_default_ok:
  assumes "switch_ok d U l" and "p_state l = s" and s: "s \<in> mark_states FOR_url"
  shows "outcome_ok d U (pos l) s (url_default ch l)"
  using switch_okD [OF assms(1,2)] assms(2)
  by (auto simp: url_default_def break_ok_def url_next url_state_core Let_def
      simp del: mark_states.simps intro: marks_ok_upd [OF _ s])

lemma exec_s_req_schema_ok:
  assumes "switch_ok d U l" and "p_state l = s" and "s \<in> mark_states FOR_url"
  shows "outcome_ok d U (pos l) s (exec_s_req_schema ch l)"
  using url_default_ok [OF assms] switch_okD [OF assms(1,2)]
  by (simp add: exec_s_req_schema_def)

lemma s_req_spaces_before_url_ok:
  assumes "switch_ok d U l" and "p_state l = s_req_spaces_before_url"
  shows "outcome_ok d U (pos l) s_req_spaces_before_url (exec_s_req_spaces_before_url ch l)"
proof -
  have "marks l = (\<lambda>f. None)"
    using switch_marks [OF assms] by simp
  then show ?thesis
    using switch_okD [OF assms] assms(2)
    by (auto simp: exec_s_req_spaces_before_url_def break_ok_def url_next url_state_core Let_def MARK_def
          simp del: mark_states.simps)
qed

section \<open>The first byte of a header name or value\<close>

lemma s_header_field_start_ok:
  assumes "switch_ok d U l" and "p_state l = s_header_field_start"
  shows "outcome_ok d U (pos l) s_header_field_start (exec_s_header_field_start ch l)"
  using switch_okD [OF assms] switch_marks [OF assms] assms(2)
  by (simp add: exec_s_header_field_start_def case_defs header_name_states_def)

lemma exec_s_header_value_start_ok:
  assumes "switch_ok d U l" and "p_state l = s" and "marks l = (\<lambda>f. None)"
  shows "outcome_ok d U (pos l) s (exec_s_header_value_start ch l)"
  using switch_okD [OF assms(1,2)] assms(2,3)
  by (cases "header_state (parser l)") (simp_all add: exec_s_header_value_start_def case_defs)

lemma s_header_value_start_ok:
  assumes "switch_ok d U l" and "p_state l = s_header_value_start"
  shows "outcome_ok d U (pos l) s_header_value_start (exec_s_header_value_start ch l)"
  using exec_s_header_value_start_ok [OF assms] switch_marks [OF assms] by simp

lemma s_header_value_discard_ws_ok:
  assumes "switch_ok d U l" and "p_state l = s_header_value_discard_ws"
  shows "outcome_ok d U (pos l) s_header_value_discard_ws (exec_s_header_value_discard_ws ch l)"
  using exec_s_header_value_start_ok [OF assms, of ch] switch_okD [OF assms] switch_marks [OF assms]
    assms(2)
  by (simp add: exec_s_header_value_discard_ws_def case_defs)

lemma header_flag_frame [simp]:
  "nread (header_flag ps) = nread ps" "http_errno (header_flag ps) = http_errno ps"
  "bounds_ok (header_flag ps) = bounds_ok ps"
  by (cases "header_state ps"; simp add: header_flag_def set_flag_def)+

lemma s_header_value_lws_ok:
  assumes "switch_ok d U l" and "p_state l = s_header_value_lws"
  shows "outcome_ok d U (pos l) s_header_value_lws (exec_s_header_value_lws ch l)"
  using switch_okD [OF assms] switch_marks [OF assms] assms(2)
  by (simp add: exec_s_header_value_lws_def case_defs)

section \<open>Bodies and chunk headers\<close>

lemma MARK_ok:
  "marks_ok s (pos l) (marks l) \<Longrightarrow> s \<in> mark_states f \<Longrightarrow> marks_ok s (pos l) (marks (MARK f l))"
  by (simp add: MARK_def marks_ok_def)

lemma MARK_frame [simp]:
  "parser (MARK f l) = parser l" "p_state (MARK f l) = p_state l" "pos (MARK f l) = pos l"
  "cur (MARK f l) = cur l" "user (MARK f l) = user l"
  by (simp_all add: MARK_def)

lemma s_body_identity_eof_ok:
  assumes "switch_ok d U l" and "p_state l = s_body_identity_eof"
  shows "outcome_ok d U (pos l) s_body_identity_eof (exec_s_body_identity_eof d l)"
proof -
  have "marks_ok s_body_identity_eof (pos l) (marks (MARK FOR_body l))"
    using switch_okD(5) [OF assms] by (rule MARK_ok) simp
  moreover have "pos l \<le> length d - 1" and "length d - 1 < length d"
    using switch_okD(3) [OF assms] by simp_all
  ultimately have "marks_ok s_body_identity_eof (length d - 1) (marks (MARK FOR_body l))"
    by (blast intro: marks_ok_mono)
  with \<open>pos l \<le> length d - 1\<close> \<open>length d - 1 < length d\<close> show ?thesis
    using switch_okD [OF assms] assms(2)
    by (simp add: exec_s_body_identity_eof_def break_ok_def core_ok_def)
qed

lemma s_chunk_size_start_ok:
  assumes "switch_ok d U l" and "p_state l = s_chunk_size_start"
  shows "outcome_ok d U (pos l) s_chunk_size_start (exec_s_chunk_size_start ch l)"
proof -
  have "unhex_val ch \<noteq> - 1 \<Longrightarrow> of_int (unhex_val ch) \<noteq> ULLONG_MAX"
    using unhex_val_range [of ch] by (intro small_not_ULLONG_MAX) auto
  then show ?thesis
    using switch_okD [OF assms] switch_marks [OF assms] assms(2)
    by (simp add: exec_s_chunk_size_start_def case_defs assert_then_def chunk_nread_def)
qed

lemma s_chunk_size_ok:
  assumes "switch_ok d U l" and "p_state l = s_chunk_size"
  shows "outcome_ok d U (pos l) s_chunk_size (exec_s_chunk_size ch l)"
proof -
  let ?cl = "content_length (parser l)"
  have "?cl * 16 + of_int (unhex_val ch) \<noteq> ULLONG_MAX"
    if "unhex_val ch \<noteq> - 1" "\<not> (ULLONG_MAX - 16) div 16 < ?cl"
    using accumulate_no_wrap(2) [of 16 ?cl "unhex_val ch"] unhex_val_range [of ch] that by auto
  then show ?thesis
    using switch_okD [OF assms] switch_marks [OF assms] assms(2)
    by (simp add: exec_s_chunk_size_def case_defs assert_then_def)
qed

lemma s_chunk_parameters_ok:
  assumes "switch_ok d U l" and "p_state l = s_chunk_parameters"
  shows "outcome_ok d U (pos l) s_chunk_parameters (exec_s_chunk_parameters ch l)"
  using switch_okD [OF assms] switch_marks [OF assms] assms(2)
  by (simp add: exec_s_chunk_parameters_def case_defs assert_then_def)

text \<open>
  Body bytes: from a buffer that fits the address space, the number of bytes read is positive,
  stays within the buffer, and is taken off the content length without wrapping.
\<close>

lemma body_to_read_unat:
  assumes "length d < 2 ^ 64"
  shows "unat (body_to_read d l) = min (unat (content_length (parser l))) (length d - pos l)"
proof -
  have "unat (of_nat (length d - pos l) :: uint64) = length d - pos l"
    using assms by (intro unat_of_nat_small) simp
  then show ?thesis
    by (simp add: body_to_read_def min_def word_le_nat_alt)
qed

lemma consume_body_content_length:
  assumes "length d < 2 ^ 64"
  shows "unat (content_length (parser (consume_body d l))) =
    unat (content_length (parser l)) - min (unat (content_length (parser l))) (length d - pos l)"
proof -
  have "body_to_read d l \<le> content_length (parser l)"
    by (simp add: body_to_read_def)
  then have "unat (content_length (parser l) - body_to_read d l) =
      unat (content_length (parser l)) - unat (body_to_read d l)"
    by (rule unat_sub)
  then show ?thesis
    using body_to_read_unat [OF assms, of l] by (simp add: consume_body_def Let_def)
qed

lemma consume_body_pos:
  assumes "length d < 2 ^ 64" and "content_length (parser l) \<noteq> 0" and "pos l < length d"
  shows "pos l \<le> pos (consume_body d l)" "pos (consume_body d l) < length d"
proof -
  have "0 < unat (content_length (parser l))"
    using assms(2) by (simp add: unat_gt_0)
  then show "pos l \<le> pos (consume_body d l)" "pos (consume_body d l) < length d"
    using assms(3) body_to_read_unat [OF assms(1), of l] by (simp_all add: consume_body_def Let_def)
qed

lemma consume_body_frame:
  "parser (consume_body d l) = (parser l)\<lparr>content_length := content_length (parser (consume_body d l))\<rparr>"
  "p_state (consume_body d l) = p_state l" "user (consume_body d l) = user l"
  "marks (consume_body d l) = marks (MARK FOR_body l)"
  by (simp_all add: consume_body_def Let_def)

lemma ULLONG_MAX_greatest: "unat (x :: uint64) \<le> unat ULLONG_MAX"
proof -
  have "ULLONG_MAX = - 1" by (simp add: ULLONG_MAX_def)
  then have "x \<le> ULLONG_MAX" using word_n1_ge [of x] by (simp only:)
  then show ?thesis by (simp only: word_le_nat_alt)
qed

lemma consume_body_not_MAX:
  assumes "length d < 2 ^ 64" and "content_length (parser l) \<noteq> 0" and "pos l < length d"
  shows "content_length (parser (consume_body d l)) \<noteq> ULLONG_MAX"
proof -
  have "0 < unat (content_length (parser l))"
    using assms(2) by (simp add: unat_gt_0)
  then have "unat (content_length (parser (consume_body d l))) < unat (content_length (parser l))"
    using assms(3) consume_body_content_length [OF assms(1), of l] by simp
  also have "\<dots> \<le> unat ULLONG_MAX"
    by (rule ULLONG_MAX_greatest)
  finally show ?thesis by auto
qed

lemma consume_body_marks:
  assumes "marks_ok s (pos l) (marks l)" and "s \<in> mark_states FOR_body"
    and "length d < 2 ^ 64" and "content_length (parser l) \<noteq> 0" and "pos l < length d"
  shows "marks_ok s (pos (consume_body d l)) (marks (consume_body d l))"
  using MARK_ok [where f = FOR_body, OF assms(1,2)] consume_body_pos(1) [OF assms(3-5)]
  by (auto simp: consume_body_frame intro: marks_ok_mono)

lemma s_chunk_data_ok:
  assumes "switch_ok d U l" and "p_state l = s_chunk_data" and d: "length d < 2 ^ 64"
  shows "outcome_ok d U (pos l) s_chunk_data (exec_s_chunk_data d l)"
proof -
  note sw = switch_okD [OF assms(1,2)]
  have cl: "content_length (parser l) \<noteq> 0" using sw(6) by (simp add: core_ok_def)
  define l' where "l' = consume_body d l"
  have marks: "marks_ok s_chunk_data (pos l') (marks l')"
    unfolding l'_def using sw(5) _ d cl sw(3) by (rule consume_body_marks) simp
  then have marks': "marks_ok s_chunk_data_almost_done (pos l') (marks l')"
    by (rule marks_ok_upd [where f = FOR_body]) simp_all
  obtain c where frame: "parser l' = (parser l)\<lparr>content_length := c\<rparr>"
    using consume_body_frame(1) [of d l] unfolding l'_def by blast
  have frames: "p_state l' = s_chunk_data" "user l' = user l"
    using assms(2) by (simp_all add: l'_def consume_body_frame)
  have c: "c \<noteq> ULLONG_MAX"
    using consume_body_not_MAX [OF d cl sw(3)] by (simp add: frame flip: l'_def)
  have "pos l \<le> pos l'" "pos l' < length d"
    using consume_body_pos [OF d cl sw(3)] by (simp_all add: l'_def)
  with sw marks marks' c frame frames show ?thesis
    by (simp add: exec_s_chunk_data_def assert_then_def Let_def break_ok_def core_ok_def
        flip: l'_def)
qed

section \<open>The inner loops over header bytes\<close>

lemma match_next_cases: "match_next X same hit miss c i \<in> {same, hit, miss}"
  by (simp add: match_next_def)

text \<open>
  The loop over a name changes the index and the header state only, and stays within the states
  of names; it stops at the end of the buffer or at a byte that is no token byte.
\<close>

lemma header_field_step_names:
  assumes "header_state ps \<in> header_name_states"
  shows "\<exists>ps'. header_field_step ch c ps = Some ps' \<and> header_state ps' \<in> header_name_states
           \<and> ps' = ps\<lparr>index := index ps', header_state := header_state ps'\<rparr>"
proof -
  have match: "match_next X same hit h_general c i \<in> header_name_states"
    if "same \<in> header_name_states" "hit \<in> header_name_states" for X same hit i
    using that match_next_cases [of X same hit h_general c i] by (auto simp: header_name_states_def)
  show ?thesis
    using assms match
    by (cases "header_state ps") (simp_all add: header_field_step_def Let_def header_name_states_def)
qed

lemma header_field_loop_names:
  assumes "header_state ps \<in> header_name_states"
  shows "\<exists>ps' k stop. header_field_loop bs ps n = Some (ps', n + k, stop)
           \<and> header_state ps' \<in> header_name_states
           \<and> ps' = ps\<lparr>index := index ps', header_state := header_state ps'\<rparr>
           \<and> (case stop of None \<Rightarrow> k = length bs | Some ch \<Rightarrow> k < length bs \<and> bs ! k = ch)"
  using assms
proof (induction bs arbitrary: ps n)
  case Nil
  then show ?case by simp
next
  case (Cons ch rest)
  show ?case
  proof (cases "TOKEN ch = NUL")
    case True
    with Cons.prems show ?thesis by (intro exI [of _ ps] exI [of _ 0]) simp
  next
    case False
    from header_field_step_names [OF Cons.prems, of ch "TOKEN ch"] obtain ps1 where
      step: "header_field_step ch (TOKEN ch) ps = Some ps1" "header_state ps1 \<in> header_name_states"
      and ps1: "ps1 = ps\<lparr>index := index ps1, header_state := header_state ps1\<rparr>" by blast
    from Cons.IH [OF step(2), of "n + 1"] obtain ps' k stop where
      IH: "header_field_loop rest ps1 (n + 1) = Some (ps', n + 1 + k, stop)"
        "header_state ps' \<in> header_name_states"
        "case stop of None \<Rightarrow> k = length rest | Some ch \<Rightarrow> k < length rest \<and> rest ! k = ch"
      and ps': "ps' = ps1\<lparr>index := index ps', header_state := header_state ps'\<rparr>" by blast
    have "ps' = ps\<lparr>index := index ps', header_state := header_state ps'\<rparr>"
      by (subst ps', subst ps1) simp
    with step(1) IH False show ?thesis
      by (intro exI [of _ ps'] exI [of _ "Suc k"] exI [of _ stop])
        (simp add: Let_def split: option.splits)
  qed
qed

text \<open>
  The loop over a value never enters the two states that its assertion excludes, changes the
  flags, the index and the content length only, and ends at a CR, an LF, an error or the end of
  the buffer. It passes over a byte in each round.
\<close>

abbreviation value_state :: "header_states \<Rightarrow> bool" where
  "value_state h \<equiv> h \<noteq> h_connection \<and> h \<noteq> h_transfer_encoding"

definition value_frame :: "http_parser \<Rightarrow> http_parser \<Rightarrow> bool" where
  "value_frame ps ps' \<longleftrightarrow>
     ps' = ps\<lparr>flags := flags ps', index := index ps', content_length := content_length ps'\<rparr>"

lemma value_frame_refl: "value_frame ps ps"
  by (simp add: value_frame_def)

lemma value_frame_trans: "value_frame ps ps1 \<Longrightarrow> value_frame ps1 ps2 \<Longrightarrow> value_frame ps ps2"
  by (cases ps; cases ps1; cases ps2) (simp add: value_frame_def)

lemma header_value_step_state:
  assumes "value_state h"
  shows "header_value_step ch h ps \<noteq> Value_assert"
    and "header_value_step ch h ps = Value_next h' ps' \<Longrightarrow> value_state h' \<and> value_frame ps ps'"
proof -
  have match: "value_state (match_next X same hit miss c i)"
    if "value_state same" "value_state hit" "value_state miss" for X same hit miss c i
    using that match_next_cases [of X same hit miss c i] by auto
  show "header_value_step ch h ps \<noteq> Value_assert"
    using assms by (cases h) (simp_all add: header_value_step_def Let_def)
  show "header_value_step ch h ps = Value_next h' ps' \<Longrightarrow> value_state h' \<and> value_frame ps ps'"
    using assms match
    by (cases h) (auto simp: header_value_step_def Let_def value_frame_def set_flag_def split: if_splits)
qed

lemma general_skip_le: "general_skip bs \<le> length bs"
  by (auto simp: general_skip_def Let_def dest!: memchr_SomeD split: option.split)

lemma header_value_loop_ends:
  assumes "value_state h"
  shows "\<exists>stop h' ps' k. header_value_loop bs h ps n = Some (stop, h', ps', n + k)
           \<and> value_state h' \<and> value_frame ps ps'
           \<and> (case stop of At_end \<Rightarrow> k = length bs
              | At_CR \<Rightarrow> k < length bs \<and> bs ! k = CR
              | At_LF \<Rightarrow> k < length bs \<and> bs ! k = LF
              | At_bad_length \<Rightarrow> k < length bs)"
  using assms
proof (induction bs h ps n rule: header_value_loop.induct)
  case (1 h ps n)
  then show ?case by (simp add: value_frame_refl)
next
  case (2 ch rest h ps n)
  consider "ch = CR" | "ch = LF" | "ch \<noteq> CR" "ch \<noteq> LF" by blast
  then show ?case
  proof cases
    case 1
    with 2 show ?thesis
      by (intro exI [of _ At_CR] exI [of _ h] exI [of _ ps] exI [of _ 0]) (simp add: value_frame_refl)
  next
    case 2
    with "2.prems" show ?thesis
      by (intro exI [of _ At_LF] exI [of _ h] exI [of _ ps] exI [of _ 0]) (simp add: value_frame_refl)
  next
    case 3
    show ?thesis
    proof (cases "header_value_step ch h ps")
      case (Value_next h1 ps1)
      note h1 = header_value_step_state(2) [OF "2.prems" Value_next]
      from "2.IH"(1) [OF 3 Value_next] h1 obtain stop h' ps' k where
        "header_value_loop rest h1 ps1 (n + 1) = Some (stop, h', ps', n + 1 + k)"
        "value_state h'" "value_frame ps1 ps'"
        "case stop of At_end \<Rightarrow> k = length rest | At_CR \<Rightarrow> k < length rest \<and> rest ! k = CR
         | At_LF \<Rightarrow> k < length rest \<and> rest ! k = LF | At_bad_length \<Rightarrow> k < length rest"
        by blast
      with 3 Value_next h1 show ?thesis
        by (intro exI [of _ stop] exI [of _ h'] exI [of _ ps'] exI [of _ "Suc k"])
          (auto intro: value_frame_trans split: value_end.splits)
    next
      case Value_skip
      let ?s = "general_skip (ch # rest)"
      have s: "0 < ?s" "?s \<le> length (ch # rest)"
        using 3 by (rule general_skip_pos) (rule general_skip_le)
      from "2.IH"(2) [OF 3 Value_skip "2.prems"] obtain stop h' ps' k where
        "header_value_loop (drop ?s (ch # rest)) h ps (n + ?s) = Some (stop, h', ps', n + ?s + k)"
        "value_state h'" "value_frame ps ps'"
        "case stop of At_end \<Rightarrow> k = length (drop ?s (ch # rest))
         | At_CR \<Rightarrow> k < length (drop ?s (ch # rest)) \<and> drop ?s (ch # rest) ! k = CR
         | At_LF \<Rightarrow> k < length (drop ?s (ch # rest)) \<and> drop ?s (ch # rest) ! k = LF
         | At_bad_length \<Rightarrow> k < length (drop ?s (ch # rest))"
        by blast
      with 3 Value_skip s show ?thesis
        by (intro exI [of _ stop] exI [of _ h'] exI [of _ ps'] exI [of _ "?s + k"])
          (auto simp del: drop_Suc_Cons length_drop simp: length_drop [of ?s "ch # rest"]
            split: value_end.splits)
    next
      case Value_bad_length
      with 3 "2.prems" show ?thesis
        by (intro exI [of _ At_bad_length] exI [of _ h] exI [of _ ps] exI [of _ 0])
          (simp add: value_frame_refl)
    next
      case Value_assert
      with header_value_step_state(1) [OF "2.prems"] show ?thesis by blast
    qed
  qed
qed

end
