(* ===== verification/Parser_Safety.thy ===== *)
theory Parser_Safety
  imports Parser_Cases
begin

text \<open>
  Safety and termination of \<open>http_parser_execute\<close>. The interface to the application is the
  locale \<open>parser_client\<close>: callbacks leave the parser alone except for its errno (they may pause
  it) and its \<open>data\<close> pointer, and they keep a predicate \<open>U\<close> of the application's state when
  they are shown bytes of the buffer. Under it, every case of the switch keeps the invariant and
  no assertion fails, no string is read past its end, no data callback is shown bytes outside
  the buffer, and the loop ends.
\<close>

section \<open>The interface to the application\<close>

text \<open>What a callback may do to the parser: set its errno (pause it) and its \<open>data\<close> pointer.\<close>

definition frames :: "http_parser \<Rightarrow> http_parser \<Rightarrow> bool" where
  "frames ps ps' \<longleftrightarrow> ps' = ps\<lparr>http_errno := http_errno ps', p_data := p_data ps'\<rparr>"

lemma frames_refl [simp]: "frames ps ps"
  by (simp add: frames_def)

definition notify_law :: "('u \<Rightarrow> bool) \<Rightarrow> 'u http_cb option \<Rightarrow> bool" where
  "notify_law U cb \<longleftrightarrow>
     (\<forall>f ps u. cb = Some f \<longrightarrow> U u \<longrightarrow> (case f ps u of (r, ps', u') \<Rightarrow> frames ps ps' \<and> U u'))"

definition data_law :: "byte list \<Rightarrow> ('u \<Rightarrow> bool) \<Rightarrow> 'u http_data_cb option \<Rightarrow> bool" where
  "data_law d U cb \<longleftrightarrow>
     (\<forall>f ps m n u. cb = Some f \<longrightarrow> U u \<longrightarrow> m + n \<le> length d \<longrightarrow>
        (case f ps m (byte_range d m n) u of (r, ps', u') \<Rightarrow> frames ps ps' \<and> U u'))"

lemma callback_errnos [simp]:
  "data_errno FOR \<noteq> HPE_OK" "data_errno FOR \<noteq> HPE_PAUSED"
  "notify_errno NFOR \<noteq> HPE_OK" "notify_errno NFOR \<noteq> HPE_PAUSED"
  by (cases FOR; simp)+ (cases NFOR; simp)+

lemma outcome_ok_COUNT:
  assumes "U (user l)" "pos l \<le> length d"
    and "\<And>x. unat x \<le> HTTP_MAX_HEADER_SIZE \<Longrightarrow>
      outcome_ok d U n s (k (l\<lparr>parser := (parser l)\<lparr>nread := x\<rparr>\<rparr>))"
  shows "outcome_ok d U n s (COUNT_HEADER_SIZE V k l)"
  using assms by (simp add: COUNT_HEADER_SIZE_def Let_def not_less)

lemma bounds_ok_nread:
  "bounds_ok ps \<Longrightarrow> unat x \<le> HTTP_MAX_HEADER_SIZE \<Longrightarrow> bounds_ok (ps\<lparr>nread := x\<rparr>)"
  by (simp add: bounds_ok_def)

text \<open>The state after a message: a start state or \<open>s_dead\<close>.\<close>

lemma NEW_MESSAGE_cases: "NEW_MESSAGE ps \<in> {s_dead, s_start_req, s_start_res}"
  by (simp add: NEW_MESSAGE_def start_state_def)

lemma NEW_MESSAGE_core [simp]: "core_ok (NEW_MESSAGE ps) ps'" "chunk_nread n (NEW_MESSAGE ps) ps'"
  using NEW_MESSAGE_cases [of ps] by (auto simp: core_ok_def)

text \<open>
  What holds of the locals when a callback runs, apart from the marks: the parser that the
  callback sees and may leave in a pause.
\<close>

definition callable_in :: "('u \<Rightarrow> bool) \<Rightarrow> 'u locals \<Rightarrow> bool" where
  "callable_in U l \<longleftrightarrow>
     http_errno (parser l) = HPE_OK \<and> U (user l)
     \<and> core_ok (p_state l) (parser l) \<and> chunk_nread 0 (p_state l) (parser l) \<and> bounds_ok (parser l)"

text \<open>What holds of the locals at the end of the buffer.\<close>

definition finish_in :: "byte list \<Rightarrow> ('u \<Rightarrow> bool) \<Rightarrow> 'u locals \<Rightarrow> bool" where
  "finish_in d U l \<longleftrightarrow>
     callable_in U l \<and> pos l = length d \<and> marks_ok (p_state l) (length d) (marks l)"

text \<open>What a call ends in: it returns, within the buffer, a parser that can be called again.\<close>

definition done_ok :: "byte list \<Rightarrow> ('u \<Rightarrow> bool) \<Rightarrow> 'u result option \<Rightarrow> bool" where
  "done_ok d U r \<longleftrightarrow>
     (\<exists>n ps u. r = Some (Returned n ps u) \<and> n \<le> max 1 (length d) \<and> (d \<noteq> [] \<longrightarrow> n \<le> length d)
        \<and> parser_ok ps \<and> U u)"

locale parser_client =
  fixes cfg :: "'u http_parser_settings" and d :: "byte list" and U :: "'u \<Rightarrow> bool"
  assumes notify: "notify_law U (on_notify cfg FOR)"
    and headers_complete: "notify_law U (on_headers_complete cfg)"
    and data: "data_law d U (on_data cfg DFOR)"
    and size: "length d < 2 ^ 64"
begin

abbreviation good :: "nat \<Rightarrow> state \<Rightarrow> 'u outcome \<Rightarrow> bool" where
  "good \<equiv> outcome_ok d U"

abbreviation callable :: "'u locals \<Rightarrow> bool" where
  "callable \<equiv> callable_in U"

text \<open>
  The callback macros: the continuation runs in locals that differ in the application's state
  and in the parser's \<open>state\<close> and \<open>data\<close> fields.
\<close>

lemma after_callback_ok:
  assumes l: "callable l"
    and res: "case res of (r, ps', u') \<Rightarrow> frames ((parser l)\<lparr>state := p_state l\<rparr>) ps' \<and> U u'"
    and er: "err \<noteq> HPE_OK" "err \<noteq> HPE_PAUSED" and ER: "ER \<le> length d"
    and k: "\<And>x u. U u \<Longrightarrow>
      good n s (k (l\<lparr>parser := (parser l)\<lparr>state := p_state l, p_data := x\<rparr>, user := u\<rparr>))"
  shows "good n s (after_callback err ER k l res)"
proof -
  obtain r ps' u' where res_eq: "res = (r, ps', u')" by (cases res)
  with res have u': "U u'"
    and ps': "ps' = (parser l)\<lparr>state := p_state l, http_errno := http_errno ps', p_data := p_data ps'\<rparr>"
    by (simp_all add: frames_def)
  then obtain e x where ps'_eq: "ps' = (parser l)\<lparr>state := p_state l, http_errno := e, p_data := x\<rparr>"
    by blast
  show ?thesis
  proof (cases "r = 0 \<and> e = HPE_OK")
    case True
    with ps'_eq l have ps'_OK: "ps' = (parser l)\<lparr>state := p_state l, p_data := x\<rparr>"
      by (cases "parser l") (simp add: callable_in_def)
    from True k [OF u', of x] l show ?thesis
      by (simp add: after_callback_def res_eq ps'_OK callable_in_def)
  next
    case False
    then show ?thesis
      using u' er l ER
      by (auto simp: after_callback_def res_eq ps'_eq parser_ok_def callable_in_def)
  qed
qed

lemma CALLBACK_NOTIFY_at_ok:
  assumes l: "callable l" and ER: "ER \<le> length d"
    and k: "\<And>x y u. U u \<Longrightarrow> x = state (parser l) \<or> x = p_state l \<Longrightarrow>
      good n s (k (l\<lparr>parser := (parser l)\<lparr>state := x, p_data := y\<rparr>, user := u\<rparr>))"
  shows "good n s (CALLBACK_NOTIFY_at cfg FOR ER k l)"
proof (cases "on_notify cfg FOR")
  case None
  have "good n s (k (l\<lparr>parser := (parser l)\<lparr>state := state (parser l), p_data := p_data (parser l)\<rparr>,
      user := user l\<rparr>))"
    using l by (intro k) (simp_all add: callable_in_def)
  with None l show ?thesis
    by (simp add: CALLBACK_NOTIFY_at_def assert_then_def callable_in_def)
next
  case (Some f)
  have res: "case f ((parser l)\<lparr>state := p_state l\<rparr>) (user l) of
      (r, ps', u') \<Rightarrow> frames ((parser l)\<lparr>state := p_state l\<rparr>) ps' \<and> U u'"
    using notify [of FOR] Some l by (simp add: notify_law_def callable_in_def)
  have "good n s (after_callback (notify_errno FOR) ER k l (f ((parser l)\<lparr>state := p_state l\<rparr>) (user l)))"
    by (rule after_callback_ok [OF l res]) (simp_all add: ER k)
  with Some l show ?thesis
    by (simp add: CALLBACK_NOTIFY_at_def assert_then_def callable_in_def)
qed

lemma CALLBACK_DATA_at_ok:
  assumes l: "callable l" and ER: "ER \<le> length d"
    and range: "\<And>m. marks l FOR = Some m \<Longrightarrow> m + LEN m \<le> length d"
    and k: "\<And>x y u. U u \<Longrightarrow> good n s (k (l\<lparr>parser := (parser l)\<lparr>state := x, p_data := y\<rparr>,
              user := u, marks := (marks l)(FOR := None)\<rparr>))"
  shows "good n s (CALLBACK_DATA_at cfg d FOR LEN ER k l)"
proof -
  have here: "good n s (k (l\<lparr>marks := (marks l)(FOR := None)\<rparr>))"
    using k [where x = "state (parser l)" and y = "p_data (parser l)" and u = "user l"] l
    by (simp add: callable_in_def)
  show ?thesis
  proof (cases "marks l FOR")
    case None
    then have "(marks l)(FOR := None) = marks l" by (simp add: fun_upd_idem)
    with here None l show ?thesis
      by (simp add: CALLBACK_DATA_at_def assert_then_def callable_in_def)
  next
    case mark: (Some m)
    show ?thesis
    proof (cases "on_data cfg FOR")
      case None
      with mark here l show ?thesis
        by (simp add: CALLBACK_DATA_at_def assert_then_def callable_in_def)
    next
      case (Some f)
      let ?res = "f ((parser l)\<lparr>state := p_state l\<rparr>) m (byte_range d m (LEN m)) (user l)"
      let ?k = "\<lambda>l. k (l\<lparr>marks := (marks l)(FOR := None)\<rparr>)"
      have res: "case ?res of
          (r, ps', u') \<Rightarrow> frames ((parser l)\<lparr>state := p_state l\<rparr>) ps' \<and> U u'"
        using data [of FOR] Some l range [OF mark] by (simp add: data_law_def callable_in_def)
      have "good n s (after_callback (data_errno FOR) ER ?k l ?res)"
        using k by (intro after_callback_ok [OF l res]) (simp_all add: ER)
      with Some mark l show ?thesis
        by (simp add: CALLBACK_DATA_at_def assert_then_def callable_in_def)
    qed
  qed
qed

text \<open>
  The forms used in the cases: the notification that consumes the byte and goes on, and the
  data callbacks that begin in a state of the mark \<open>FOR\<close> and leave it.
\<close>

lemma NOTIFY_Break_ok:
  assumes "callable l" "n \<le> pos l" "pos l < length d" "marks l = (\<lambda>f. None)"
  shows "good n s (CALLBACK_NOTIFY cfg FOR Break l)"
  unfolding CALLBACK_NOTIFY_def
  by (rule CALLBACK_NOTIFY_at_ok) (use assms in \<open>auto simp: break_ok_def callable_in_def\<close>)

lemma DATA_ok:
  assumes l: "callable l" and pos: "pos l < length d"
    and m: "marks_ok s0 (pos l) (marks l)" "s0 \<in> mark_states FOR"
    and k: "\<And>x y u. U u \<Longrightarrow> good n s (k (l\<lparr>parser := (parser l)\<lparr>state := x, p_data := y\<rparr>,
              user := u, marks := (\<lambda>f. None)\<rparr>))"
  shows "good n s (CALLBACK_DATA cfg d FOR k l)" "good n s (CALLBACK_DATA_NOADVANCE cfg d FOR k l)"
proof -
  have mark: "m \<le> pos l" if "marks l FOR = Some m" for m
    using m(1) that by (auto simp: marks_ok_def)
  have clear: "(marks l)(FOR := None) = (\<lambda>f. None)"
    using m by (rule marks_ok_only)
  show "good n s (CALLBACK_DATA cfg d FOR k l)" "good n s (CALLBACK_DATA_NOADVANCE cfg d FOR k l)"
    unfolding CALLBACK_DATA_def CALLBACK_DATA_NOADVANCE_def
    by (rule CALLBACK_DATA_at_ok [OF l]; use pos mark k in \<open>simp add: clear less_imp_le\<close>)+
qed

lemma DATA_Break_ok:
  assumes "callable l" "n \<le> pos l" "pos l < length d" "marks_ok s0 (pos l) (marks l)" "s0 \<in> mark_states FOR"
  shows "good n s (CALLBACK_DATA cfg d FOR Break l)"
  by (rule DATA_ok [OF assms(1,3,4,5)]) (use assms in \<open>auto simp: break_ok_def callable_in_def\<close>)

text \<open>The cases that run callbacks.\<close>

lemma s_start_req_or_res_ok:
  assumes "switch_ok d U l" and "p_state l = s_start_req_or_res"
  shows "good (pos l) s_start_req_or_res (exec_s_start_req_or_res cfg ch l)"
  using switch_okD [OF assms] switch_marks [OF assms] assms(2)
  by (simp add: exec_s_start_req_or_res_def case_defs NOTIFY_Break_ok callable_in_def)

lemma s_start_res_ok:
  assumes "switch_ok d U l" and "p_state l = s_start_res"
  shows "good (pos l) s_start_res (exec_s_start_res cfg ch l)"
  using switch_okD [OF assms] switch_marks [OF assms] assms(2)
  by (simp add: exec_s_start_res_def case_defs NOTIFY_Break_ok callable_in_def)

lemma s_res_status_ok:
  assumes "switch_ok d U l" and "p_state l = s_res_status"
  shows "good (pos l) s_res_status (exec_s_res_status cfg d ch l)"
  using switch_okD [OF assms] assms(2)
  by (simp add: exec_s_res_status_def case_defs DATA_Break_ok [of _ _ s_res_status] callable_in_def)

lemma first_method_length: "1 \<le> length (method_string m)"
  by (cases m) simp_all

lemma s_start_req_ok:
  assumes "switch_ok d U l" and "p_state l = s_start_req"
  shows "good (pos l) s_start_req (exec_s_start_req cfg ch l)"
  using switch_okD [OF assms] switch_marks [OF assms] assms(2) first_method_length
  by (cases "first_method ch")
    (simp_all add: exec_s_start_req_def case_defs NOTIFY_Break_ok callable_in_def)

lemma exec_s_req_url_ok:
  assumes "switch_ok d U l" and "p_state l = s" and "s \<in> mark_states FOR_url"
  shows "good (pos l) s (exec_s_req_url cfg d ch l)"
  using switch_okD [OF assms(1,2)] url_default_ok [OF assms, of ch] assms(2,3)
  by (simp add: exec_s_req_url_def case_defs DATA_Break_ok [of _ _ s] callable_in_def bounds_ok_def
      del: mark_states.simps)

lemma s_header_field_ok:
  assumes "switch_ok d U l" and "p_state l = s_header_field"
  shows "good (pos l) s_header_field (exec_s_header_field cfg d l)"
proof -
  note sw = switch_okD [OF assms]
  have "header_state (parser l) \<in> header_name_states" using sw(6) by (simp add: core_ok_def)
  from header_field_loop_names [OF this, of "drop (pos l) d" 0] obtain ps k stop where
    loop: "header_field_loop (drop (pos l) d) (parser l) 0 = Some (ps, k, stop)"
    and h: "header_state ps \<in> header_name_states"
    and ps: "ps = (parser l)\<lparr>index := index ps, header_state := header_state ps\<rparr>"
    and stop: "case stop of None \<Rightarrow> k = length (drop (pos l) d)
      | Some ch \<Rightarrow> k < length (drop (pos l) d) \<and> drop (pos l) d ! k = ch" by auto
  have ps_ok: "http_errno ps = HPE_OK" "bounds_ok ps"
    using sw by (subst ps, simp)+
  have marks: "marks_ok s_header_field (pos l + j) (marks l)" for j
    using sw(5) by (rule marks_ok_mono) simp
  show ?thesis
  proof (cases stop)
    case None
    with stop sw(3) have k: "pos l + k = length d" and "0 < k" by simp_all
    from sw(3) have "pos l + (k - 1) = length d - 1" using k by simp
    with marks [of "k - 1"] have "marks_ok s_header_field (length d - 1) (marks l)" by simp
    then show ?thesis
      using sw None loop h ps_ok k assms(2)
      by (auto simp: exec_s_header_field_def break_ok_def core_ok_def bounds_ok_nread
          intro!: outcome_ok_COUNT)
  next
    case (Some ch)
    with stop have k: "pos l + k < length d" by auto
    then show ?thesis
      using sw Some loop h ps_ok marks [of k] assms(2)
      by (auto simp: exec_s_header_field_def core_ok_def bounds_ok_nread callable_in_def
          intro!: outcome_ok_COUNT DATA_Break_ok [of _ _ s_header_field])
  qed
qed

lemma s_header_value_ok:
  assumes "switch_ok d U l" and "p_state l = s_header_value"
  shows "good (pos l) s_header_value (exec_s_header_value cfg d l)"
proof -
  note sw = switch_okD [OF assms]
  have "value_state (header_state (parser l))" using sw(6) by (simp add: core_ok_def)
  from header_value_loop_ends [OF this, of "drop (pos l) d" "parser l" 0]
  obtain stop h ps k where
    loop: "header_value_loop (drop (pos l) d) (header_state (parser l)) (parser l) 0 = Some (stop, h, ps, k)"
    and h: "value_state h" and ps: "value_frame (parser l) ps"
    and stop: "case stop of At_end \<Rightarrow> k = length (drop (pos l) d)
        | At_CR \<Rightarrow> k < length (drop (pos l) d) \<and> drop (pos l) d ! k = CR
        | At_LF \<Rightarrow> k < length (drop (pos l) d) \<and> drop (pos l) d ! k = LF
        | At_bad_length \<Rightarrow> k < length (drop (pos l) d)" by auto
  from ps obtain f i c where ps_eq: "ps = (parser l)\<lparr>flags := f, index := i, content_length := c\<rparr>"
    unfolding value_frame_def by blast
  have ps_ok: "http_errno ps = HPE_OK" "bounds_ok ps"
    using sw by (simp_all add: ps_eq)
  have marks: "marks_ok s_header_value (pos l + j) (marks l)" for j
    using sw(5) by (rule marks_ok_mono) simp
  show ?thesis
  proof (cases stop)
    case At_CR
    with stop have k: "pos l + k < length d" by auto
    show ?thesis
      using sw At_CR loop ps_ok k marks [of k] assms(2)
      by (auto simp: exec_s_header_value_def core_ok_def callable_in_def break_ok_def bounds_ok_nread
          intro!: DATA_ok [where ?s0.0 = s_header_value] outcome_ok_COUNT)
  next
    case At_LF
    with stop have k: "pos l + k < length d" by auto
    show ?thesis
      using sw At_LF loop ps_ok k marks [of k] assms(2)
      by (auto simp: exec_s_header_value_def core_ok_def callable_in_def reexecute_ok_def switch_ok_def
          bounds_ok_nread rank.simps intro!: DATA_ok [where ?s0.0 = s_header_value] outcome_ok_COUNT)
  next
    case At_end
    with stop sw(3) have k: "pos l + k = length d" and "0 < k" by simp_all
    from sw(3) have "pos l + (k - 1) = length d - 1" using k by simp
    with marks [of "k - 1"] have "marks_ok s_header_value (length d - 1) (marks l)" by simp
    then show ?thesis
      using sw At_end loop h ps_ok k assms(2)
      by (auto simp: exec_s_header_value_def break_ok_def core_ok_def bounds_ok_nread
          intro!: outcome_ok_COUNT)
  next
    case At_bad_length
    with stop have k: "pos l + k < length d" by auto
    then show ?thesis
      using sw At_bad_length loop by (simp add: exec_s_header_value_def)
  qed
qed

lemma s_header_value_discard_lws_ok:
  assumes "switch_ok d U l" and "p_state l = s_header_value_discard_lws"
  shows "good (pos l) s_header_value_discard_lws (exec_s_header_value_discard_lws cfg d ch l)"
proof -
  have marks: "marks l = (\<lambda>f. None)" using switch_marks [OF assms] by simp
  show ?thesis
    using switch_okD [OF assms] marks assms(2)
    by (auto simp: exec_s_header_value_discard_lws_def case_defs callable_in_def
        intro!: DATA_ok(2) [where ?s0.0 = s_header_value])
qed

lemma s_headers_almost_done_ok:
  assumes "switch_ok d U l" and "p_state l = s_headers_almost_done"
  shows "good (pos l) s_headers_almost_done (exec_s_headers_almost_done cfg ch l)"
proof -
  note sw = switch_okD [OF assms]
  have marks: "marks l = (\<lambda>f. None)" using switch_marks [OF assms] by simp
  have trailing: "good (pos l) s_headers_almost_done
      (CALLBACK_NOTIFY_NOADVANCE cfg FOR_chunk_complete Reexecute (UPDATE_STATE s_message_done l))"
    unfolding CALLBACK_NOTIFY_NOADVANCE_def
    using sw marks by (intro CALLBACK_NOTIFY_at_ok)
      (simp_all add: callable_in_def case_defs)
  define up where "up = (parser l)\<lparr>upgrade :=
    flags (parser l) AND (F_UPGRADE OR F_CONNECTION_UPGRADE) = F_UPGRADE OR F_CONNECTION_UPGRADE
      \<or> p_method (parser l) = HTTP_CONNECT\<rparr>"
  show ?thesis
  proof (cases "on_headers_complete cfg")
    case None
    then show ?thesis
      using sw trailing marks
      by (simp add: exec_s_headers_almost_done_def case_defs)
  next
    case (Some f)
    obtain r ps u where f: "f up (user l) = (r, ps, u)" by (cases "f up (user l)")
    with headers_complete Some sw(2) have u: "U u" and ps: "frames up ps"
      by (simp_all add: notify_law_def split: prod.splits)
    from ps have "bounds_ok ps"
      using sw(8) unfolding frames_def by (metis bounds_ok_frame(2,3,4) up_def)
    with sw marks trailing u show ?thesis
      by (simp add: exec_s_headers_almost_done_def case_defs Some f RETURN_def parser_ok_def set_flag_def flip: up_def)
  qed
qed

lemma NEW_MESSAGE_Break_ok:
  assumes "callable l" "n \<le> pos l" "pos l < length d" "marks l = (\<lambda>f. None)"
  shows "good n s (CALLBACK_NOTIFY cfg FOR Break (UPDATE_STATE (NEW_MESSAGE ps) l))"
  using assms by (intro NOTIFY_Break_ok) (simp_all add: callable_in_def)

lemma NEW_MESSAGE_RETURN_ok:
  assumes "callable l" "n \<le> pos l" "pos l < length d" "marks l = (\<lambda>f. None)"
  shows "good n s (CALLBACK_NOTIFY cfg FOR (\<lambda>l. if C l then RETURN (pos l + 1) l else Break l)
    (UPDATE_STATE (NEW_MESSAGE ps) l))"
  unfolding CALLBACK_NOTIFY_def
  using assms by (intro CALLBACK_NOTIFY_at_ok)
    (auto simp: callable_in_def RETURN_def parser_ok_def break_ok_def)

lemma s_headers_done_ok:
  assumes "switch_ok d U l" and "p_state l = s_headers_done"
  shows "good (pos l) s_headers_done (exec_s_headers_done cfg ch l)"
proof -
  note sw = switch_okD [OF assms]
  have marks: "marks l = (\<lambda>f. None)" using switch_marks [OF assms] by simp
  let ?l = "l\<lparr>parser := (parser l)\<lparr>nread := 0\<rparr>\<rparr>"
  have call: "callable ?l"
    using sw assms(2) by (simp add: callable_in_def core_ok_def)
  have Break: "good (pos l) s_headers_done
      (CALLBACK_NOTIFY cfg FOR_message_complete Break (UPDATE_STATE (NEW_MESSAGE ps) ?l))" for ps
    using call marks sw(3) by (intro NEW_MESSAGE_Break_ok) simp_all
  have Return: "good (pos l) s_headers_done
      (CALLBACK_NOTIFY cfg FOR_message_complete (\<lambda>l. RETURN (pos l + 1) l)
        (UPDATE_STATE (NEW_MESSAGE ps) ?l))" for ps
    using NEW_MESSAGE_RETURN_ok [OF call, of "pos l" s_headers_done FOR_message_complete "\<lambda>_. True" ps] marks sw(3)
    by simp
  from sw marks Break Return show ?thesis
    by (simp add: exec_s_headers_done_def STRICT_CHECK_def Let_def break_ok_def core_ok_def
        chunk_nread_def)
qed

lemma s_message_done_ok:
  assumes "switch_ok d U l" and "p_state l = s_message_done"
  shows "good (pos l) s_message_done (exec_s_message_done cfg l)"
  unfolding exec_s_message_done_def
  using switch_okD [OF assms] switch_marks [OF assms] assms(2)
  by (intro NEW_MESSAGE_RETURN_ok) (simp_all add: callable_in_def)

lemma s_body_identity_ok:
  assumes "switch_ok d U l" and "p_state l = s_body_identity"
  shows "good (pos l) s_body_identity (exec_s_body_identity cfg d l)"
proof -
  note sw = switch_okD [OF assms]
  have cl: "content_length (parser l) \<noteq> 0" using sw(6) by (simp add: core_ok_def)
  define l' where "l' = consume_body d l"
  have marks: "marks_ok s_body_identity (pos l') (marks l')"
    unfolding l'_def using sw(5) _ size cl sw(3) by (rule consume_body_marks) simp
  then have clear: "(marks l')(FOR_body := None) = (\<lambda>f. None)"
    by (rule marks_ok_only) simp
  obtain c where frame: "parser l' = (parser l)\<lparr>content_length := c\<rparr>"
    using consume_body_frame(1) [of d l] unfolding l'_def by blast
  have frames: "p_state l' = s_body_identity" "user l' = user l"
    using assms(2) by (simp_all add: l'_def consume_body_frame)
  have c: "c \<noteq> ULLONG_MAX"
    using consume_body_not_MAX [OF size cl sw(3)] by (simp add: frame flip: l'_def)
  have pos: "pos l \<le> pos l'" "pos l' < length d"
    using consume_body_pos [OF size cl sw(3)] by (simp_all add: l'_def)
  have "good (pos l) s_body_identity
      (CALLBACK_DATA_at cfg d FOR_body (\<lambda>m. pos l' - m + 1) (pos l') Reexecute
        (UPDATE_STATE s_message_done l'))"
    using sw frame frames pos marks
    by (intro CALLBACK_DATA_at_ok)
      (auto simp: callable_in_def case_defs clear marks_ok_def)
  with sw marks c frame frames pos show ?thesis
    by (simp add: exec_s_body_identity_def assert_then_def Let_def break_ok_def core_ok_def
        flip: l'_def)
qed

lemma s_chunk_size_almost_done_ok:
  assumes "switch_ok d U l" and "p_state l = s_chunk_size_almost_done"
  shows "good (pos l) s_chunk_size_almost_done (exec_s_chunk_size_almost_done cfg ch l)"
  using switch_okD [OF assms] switch_marks [OF assms] assms(2)
  by (simp add: exec_s_chunk_size_almost_done_def assert_then_def case_defs callable_in_def
      NOTIFY_Break_ok set_flag_def)

lemma s_chunk_data_almost_done_ok:
  assumes "switch_ok d U l" and "p_state l = s_chunk_data_almost_done"
  shows "good (pos l) s_chunk_data_almost_done (exec_s_chunk_data_almost_done cfg d ch l)"
  using switch_okD [OF assms] assms(2)
  by (simp add: exec_s_chunk_data_almost_done_def assert_then_def case_defs callable_in_def
      DATA_Break_ok [of _ _ s_chunk_data_almost_done])

lemma s_chunk_data_done_ok:
  assumes "switch_ok d U l" and "p_state l = s_chunk_data_done"
  shows "good (pos l) s_chunk_data_done (exec_s_chunk_data_done cfg ch l)"
  using switch_okD [OF assms] switch_marks [OF assms] assms(2)
  by (simp add: exec_s_chunk_data_done_def assert_then_def case_defs callable_in_def
      NOTIFY_Break_ok chunk_nread_def)

lemmas case_ok =
  s_dead_ok s_start_req_or_res_ok s_res_or_resp_H_ok s_start_res_ok s_res_H_ok s_res_HT_ok
  s_res_HTT_ok s_res_HTTP_ok s_res_first_http_major_ok s_res_http_major_ok
  s_res_first_http_minor_ok s_res_http_minor_ok s_res_first_status_code_ok s_res_status_code_ok
  s_res_status_start_ok s_res_status_ok s_res_line_almost_done_ok s_start_req_ok s_req_method_ok
  s_req_spaces_before_url_ok exec_s_req_schema_ok exec_s_req_url_ok s_req_http_start_ok
  s_req_http_H_ok s_req_http_HT_ok s_req_http_HTT_ok s_req_http_HTTP_ok
  s_req_first_http_major_ok s_req_http_major_ok s_req_first_http_minor_ok s_req_http_minor_ok
  s_req_line_almost_done_ok s_header_field_start_ok s_header_field_ok s_header_value_discard_ws_ok
  s_header_value_start_ok s_header_value_ok s_header_almost_done_ok s_header_value_lws_ok
  s_header_value_discard_ws_almost_done_ok s_header_value_discard_lws_ok
  s_headers_almost_done_ok s_headers_done_ok s_body_identity_ok s_body_identity_eof_ok
  s_message_done_ok s_chunk_size_start_ok s_chunk_size_ok s_chunk_parameters_ok
  s_chunk_size_almost_done_ok s_chunk_data_almost_done_ok s_chunk_data_done_ok

text \<open>Every case of the switch keeps the invariant.\<close>

lemma switch_good:
  assumes "switch_ok d U l"
  shows "good (pos l) (p_state l) (exec_switch cfg d ch l)"
  by (cases "p_state l")
    (simp_all add: exec_switch_def case_ok [OF assms] s_chunk_data_ok [OF assms _ size])

lemma error_label_ok: "error_ok d U l \<Longrightarrow> done_ok d U (Some (error_label l))"
  by (auto simp: error_ok_def error_label_def done_ok_def parser_ok_def Let_def)

text \<open>The end of the buffer.\<close>

abbreviation finish_ok :: "'u locals \<Rightarrow> bool" where
  "finish_ok \<equiv> finish_in d U"

lemma finish_step:
  assumes l: "finish_ok l" and k: "\<And>l'. finish_ok l' \<Longrightarrow> good n s (k l')"
  shows "good n s (CALLBACK_DATA_NOADVANCE cfg d FOR k l)"
  unfolding CALLBACK_DATA_NOADVANCE_def
proof (rule CALLBACK_DATA_at_ok)
  show "callable l" "pos l \<le> length d" using l by (simp_all add: finish_in_def)
  show "m + (pos l - m) \<le> length d" if "marks l FOR = Some m" for m
    using l that by (auto simp: finish_in_def marks_ok_def)
  show "good n s (k (l\<lparr>parser := (parser l)\<lparr>state := x, p_data := y\<rparr>, user := u,
      marks := (marks l)(FOR := None)\<rparr>))" if "U u" for x y u
    using l that by (intro k) (auto simp: finish_in_def callable_in_def marks_ok_def)
qed

text \<open>With nothing left of the buffer, the outcome is a return.\<close>

lemma finish_result:
  assumes "good (length d) s out"
  shows "done_ok d U (Some (outcome_result out))"
proof (cases out)
  case (Goto_error l)
  with assms show ?thesis by (simp add: outcome_result_def error_label_ok)
qed (use assms in \<open>auto simp: break_ok_def reexecute_ok_def switch_ok_def outcome_result_def done_ok_def\<close>)

lemma finish_RETURN: "finish_ok l \<Longrightarrow> good n s (RETURN (length d) l)"
  by (simp add: RETURN_def finish_in_def callable_in_def parser_ok_def)

lemma exec_finish_ok:
  assumes "finish_ok l"
  shows "done_ok d U (Some (exec_finish cfg d l))"
proof -
  have "length (filter (\<lambda>f. marks l f \<noteq> None)
      [FOR_header_field, FOR_header_value, FOR_url, FOR_body, FOR_status]) \<le> 1"
    using assms by (intro marks_ok_count [of "p_state l" "length d"]) (simp add: finish_in_def)
  moreover have "good (length d) s_dead
      (CALLBACK_DATA_NOADVANCE cfg d FOR_header_field
      (CALLBACK_DATA_NOADVANCE cfg d FOR_header_value
      (CALLBACK_DATA_NOADVANCE cfg d FOR_url
      (CALLBACK_DATA_NOADVANCE cfg d FOR_body
      (CALLBACK_DATA_NOADVANCE cfg d FOR_status (RETURN (length d)))))) l)"
    by (intro finish_step assms finish_RETURN)
  ultimately show ?thesis
    unfolding exec_finish_def assert_then_def by (simp add: finish_result)
qed

text \<open>
  The loop ends: a round at a new byte or a re-execution in a state of lower rank decreases the
  measure.
\<close>

abbreviation head_ok :: "'u locals \<Rightarrow> bool" where
  "head_ok l \<equiv> callable l \<and> pos l \<le> length d \<and> marks_ok (p_state l) (pos l) (marks l)"

lemma count_header_byte_ok:
  assumes "head_ok l" and "pos l < length d"
  shows "(\<exists>l'. count_header_byte Reexecute (l\<lparr>cur := c\<rparr>) = Reexecute l' \<and> switch_ok d U l'
             \<and> pos l' = pos l \<and> p_state l' = p_state l)
       \<or> (\<exists>l'. count_header_byte Reexecute (l\<lparr>cur := c\<rparr>) = Goto_error l' \<and> error_ok d U l')"
proof (cases "PARSING_HEADER (p_state l)")
  case True
  then show ?thesis
    using assms
    by (auto simp: count_header_byte_def COUNT_HEADER_SIZE_def set_errno_goto_error_def Let_def
        callable_in_def switch_ok_def error_ok_def bounds_ok_nread chunk_nread_def)
next
  case False
  then have "p_state l \<noteq> s_chunk_size_start" by (auto simp: PARSING_HEADER_iff)
  with False show ?thesis
    using assms by (auto simp: count_header_byte_def callable_in_def switch_ok_def)
qed

lemma rank_le: "rank s \<le> 3"
  by (simp add: rank.simps)

lemma exec_loop_ok:
  assumes "if re then switch_ok d U l else head_ok l"
  shows "done_ok d U (exec_loop cfg d re l)"
  using assms
proof (induction "(length d - pos l) * 10 + (if re then rank (p_state l) else 9)"
    arbitrary: re l rule: less_induct)
  case less
  show ?case
  proof (cases re)
    case True
    with less.prems have sw: "switch_ok d U l" by simp
    then have pos: "pos l < length d" by (simp add: switch_ok_def)
    have good: "good (pos l) (p_state l) (exec_switch cfg d (cur l) l)"
      using sw by (rule switch_good)
    show ?thesis
    proof (cases "exec_switch cfg d (cur l) l")
      case (Break l1)
      with good have l1: "pos l \<le> pos l1" "pos l1 < length d" "head_ok (l1\<lparr>pos := pos l1 + 1\<rparr>)"
        by (auto simp: break_ok_def callable_in_def intro: marks_ok_mono)
      have "done_ok d U (exec_loop cfg d False (l1\<lparr>pos := pos l1 + 1\<rparr>))"
        using l1 pos True by (intro less.hyps) auto
      with True Break show ?thesis by (subst exec_loop.simps) simp
    next
      case (Reexecute l1)
      with good have l1: "switch_ok d U l1" "pos l \<le> pos l1" "rank (p_state l1) < rank (p_state l)"
        by (auto simp: reexecute_ok_def)
      have "done_ok d U (exec_loop cfg d True l1)"
        using l1 pos True by (intro less.hyps) (auto intro: add_le_less_mono mult_le_mono1)
      with True Reexecute show ?thesis by (subst exec_loop.simps) simp
    next
      case (Goto_error l1)
      with good True show ?thesis by (subst exec_loop.simps) (simp add: error_label_ok)
    next
      case (Return n ps u)
      with good True show ?thesis by (subst exec_loop.simps) (auto simp: done_ok_def)
    next
      case Fault
      with good show ?thesis by simp
    qed
  next
    case False
    with less.prems have head: "head_ok l" by simp
    show ?thesis
    proof (cases "pos l = length d")
      case True
      with head have "finish_ok l" by (simp add: finish_in_def)
      with True \<open>\<not> re\<close> show ?thesis
        by (subst exec_loop.simps) (simp add: exec_finish_ok)
    next
      case pos: False
      with head have lt: "pos l < length d" by simp
      from count_header_byte_ok [OF head lt, of "d ! pos l"] show ?thesis
      proof (elim disjE exE conjE)
        fix l1 assume l1: "count_header_byte Reexecute (l\<lparr>cur := d ! pos l\<rparr>) = Reexecute l1"
          "switch_ok d U l1" "pos l1 = pos l" "p_state l1 = p_state l"
        have "done_ok d U (exec_loop cfg d True l1)"
          using l1 False rank_le [of "p_state l"] by (intro less.hyps) auto
        with False pos lt l1(1) show ?thesis by (subst exec_loop.simps) simp
      next
        fix l1 assume "count_header_byte Reexecute (l\<lparr>cur := d ! pos l\<rparr>) = Goto_error l1" "error_ok d U l1"
        with False pos lt show ?thesis
          by (subst exec_loop.simps) (simp add: outcome_result_def error_label_ok)
      qed
    qed
  qed
qed

lemma initial_marks_ok: "marks_ok s 0 (initial_marks s)"
  by (cases s) (auto simp: marks_ok_def initial_marks_def split: if_splits)

lemma execute_eof_ok:
  assumes "parser_ok ps" "U u" "http_errno ps = HPE_OK" "d = []"
  shows "done_ok d U (Some (execute_eof cfg ps u))"
proof -
  let ?l = "initial_locals ps u"
  have l: "callable ?l"
    using assms by (simp add: callable_in_def initial_locals_def parser_ok_def)
  have "good (length d) s_dead
      (CALLBACK_NOTIFY_NOADVANCE cfg FOR_message_complete (\<lambda>l. Return 0 (parser l) (user l)) ?l)"
    unfolding CALLBACK_NOTIFY_NOADVANCE_def
    using l assms by (intro CALLBACK_NOTIFY_at_ok)
      (auto simp: initial_locals_def parser_ok_def callable_in_def)
  from finish_result [OF this] assms show ?thesis
    by (auto simp: execute_eof_def done_ok_def parser_ok_def)
qed

theorem execute_ok:
  assumes "parser_ok ps" "U u"
  shows "done_ok d U (http_parser_execute cfg d ps u)"
proof -
  have "if False then switch_ok d U (initial_locals ps u) else head_ok (initial_locals ps u)"
    if "http_errno ps = HPE_OK"
    using assms that initial_marks_ok [of "state ps"]
    by (simp add: initial_locals_def callable_in_def parser_ok_def)
  from exec_loop_ok [OF this] execute_eof_ok [OF assms] assms show ?thesis
    by (auto simp: http_parser_execute_def done_ok_def)
qed

end

end
