(* ===== verification/Parser_Api.thy ===== *)
theory Parser_Api
  imports Parser_Safety
begin

text \<open>
  The other functions of \<open>src/http_parser.h\<close> on a parser (init, pause, names, version), the
  parsers that an application can come to by calling them, and what holds of all of these.
\<close>

section \<open>Functions of the interface\<close>

definition http_parser_init :: "http_parser \<Rightarrow> http_parser_type \<Rightarrow> http_parser" where
  "http_parser_init ps t =
     \<lparr>p_type = t, flags = 0,
      state = (if t = HTTP_REQUEST then s_start_req
               else if t = HTTP_RESPONSE then s_start_res else s_start_req_or_res),
      header_state = h_general, index = 0, nread = 0, content_length = 0, http_major = 0,
      http_minor = 0, status_code = 0, p_method = HTTP_DELETE, http_errno = HPE_OK,
      upgrade = False, p_data = p_data ps\<rparr>"

definition http_parser_settings_init :: "'u http_parser_settings" where
  "http_parser_settings_init =
     \<lparr>on_message_begin = None, on_url = None, on_status = None, on_header_field = None,
      on_header_value = None, on_headers_complete = None, on_body = None,
      on_message_complete = None, on_chunk_header = None, on_chunk_complete = None\<rparr>"

text \<open>Pausing a parser in an error state is a failed assertion.\<close>

definition http_parser_pause :: "http_parser \<Rightarrow> bool \<Rightarrow> http_parser option" where
  "http_parser_pause ps paused =
     (if http_errno ps = HPE_OK \<or> http_errno ps = HPE_PAUSED
      then Some (ps\<lparr>http_errno := if paused then HPE_PAUSED else HPE_OK\<rparr>)
      else None)"

definition http_body_is_final :: "http_parser \<Rightarrow> bool" where
  "http_body_is_final ps \<longleftrightarrow> state ps = s_message_done"

text \<open>\<open>ELEM_AT (method_strings, m, "<unknown>")\<close>, for the number of a method.\<close>

definition http_method_str :: "nat \<Rightarrow> byte list" where
  "http_method_str m = (if m < length method_strings then method_strings ! m else ''<unknown>'')"

fun http_errno_description :: "http_errno \<Rightarrow> string" where
  "http_errno_description HPE_OK = ''success''"
| "http_errno_description HPE_CB_message_begin = ''the on_message_begin callback failed''"
| "http_errno_description HPE_CB_url = ''the on_url callback failed''"
| "http_errno_description HPE_CB_header_field = ''the on_header_field callback failed''"
| "http_errno_description HPE_CB_header_value = ''the on_header_value callback failed''"
| "http_errno_description HPE_CB_headers_complete = ''the on_headers_complete callback failed''"
| "http_errno_description HPE_CB_body = ''the on_body callback failed''"
| "http_errno_description HPE_CB_message_complete = ''the on_message_complete callback failed''"
| "http_errno_description HPE_CB_status = ''the on_status callback failed''"
| "http_errno_description HPE_CB_chunk_header = ''the on_chunk_header callback failed''"
| "http_errno_description HPE_CB_chunk_complete = ''the on_chunk_complete callback failed''"
| "http_errno_description HPE_INVALID_EOF_STATE = ''stream ended at an unexpected time''"
| "http_errno_description HPE_HEADER_OVERFLOW = ''too many header bytes seen; overflow detected''"
| "http_errno_description HPE_CLOSED_CONNECTION =
     ''data received after completed connection: close message''"
| "http_errno_description HPE_INVALID_VERSION = ''invalid HTTP version''"
| "http_errno_description HPE_INVALID_STATUS = ''invalid HTTP status code''"
| "http_errno_description HPE_INVALID_METHOD = ''invalid HTTP method''"
| "http_errno_description HPE_INVALID_URL = ''invalid URL''"
| "http_errno_description HPE_INVALID_HOST = ''invalid host''"
| "http_errno_description HPE_INVALID_PORT = ''invalid port''"
| "http_errno_description HPE_INVALID_PATH = ''invalid path''"
| "http_errno_description HPE_INVALID_QUERY_STRING = ''invalid query string''"
| "http_errno_description HPE_INVALID_FRAGMENT = ''invalid fragment''"
| "http_errno_description HPE_LF_EXPECTED = ''LF character expected''"
| "http_errno_description HPE_INVALID_HEADER_TOKEN = ''invalid character in header''"
| "http_errno_description HPE_INVALID_CONTENT_LENGTH =
     ''invalid character in content-length header''"
| "http_errno_description HPE_INVALID_CHUNK_SIZE = ''invalid character in chunk size header''"
| "http_errno_description HPE_INVALID_CONSTANT = ''invalid constant string''"
| "http_errno_description HPE_INVALID_INTERNAL_STATE = ''encountered unexpected internal state''"
| "http_errno_description HPE_STRICT = ''strict mode assertion failed''"
| "http_errno_description HPE_PAUSED = ''parser is paused''"
| "http_errno_description HPE_UNKNOWN = ''an unknown error occurred''"

definition http_parser_version :: nat where
  "http_parser_version = 2 * 0x10000 OR 5 * 0x00100 OR 0 * 0x00001"

section \<open>The parsers an application can come to\<close>

text \<open>
  A sequence of calls: the parser is initialised, executed on buffers (which fit the address
  space) in any number, paused and resumed between them.
\<close>

inductive parser_reach :: "'u http_parser_settings \<Rightarrow> 'u \<Rightarrow> http_parser \<Rightarrow> 'u \<Rightarrow> bool"
  for cfg :: "'u http_parser_settings" and u0 :: 'u
where
  reach_init: "parser_reach cfg u0 (http_parser_init ps t) u0"
| reach_execute:
    "parser_reach cfg u0 ps u \<Longrightarrow> length d < 2 ^ 64 \<Longrightarrow>
     http_parser_execute cfg d ps u = Some (Returned n ps' u') \<Longrightarrow> parser_reach cfg u0 ps' u'"
| reach_pause:
    "parser_reach cfg u0 ps u \<Longrightarrow> http_parser_pause ps paused = Some ps' \<Longrightarrow>
     parser_reach cfg u0 ps' u"

text \<open>Callbacks that keep \<open>U\<close> for every buffer.\<close>

definition client_ok :: "'u http_parser_settings \<Rightarrow> ('u \<Rightarrow> bool) \<Rightarrow> bool" where
  "client_ok cfg U \<longleftrightarrow>
     (\<forall>FOR. notify_law U (on_notify cfg FOR)) \<and> notify_law U (on_headers_complete cfg)
     \<and> (\<forall>d FOR. data_law d U (on_data cfg FOR))"

lemma client_ok_parser_client:
  "client_ok cfg U \<Longrightarrow> length d < 2 ^ 64 \<Longrightarrow> parser_client cfg d U"
  by unfold_locales (auto simp: client_ok_def)

lemma init_parser_ok: "parser_ok (http_parser_init ps t)"
  by (cases t) (simp_all add: parser_ok_def http_parser_init_def core_ok_def bounds_ok_def)

lemma pause_parser_ok:
  "parser_ok ps \<Longrightarrow> http_parser_pause ps paused = Some ps' \<Longrightarrow> parser_ok ps'"
  by (auto simp: http_parser_pause_def parser_ok_def split: if_splits)

lemma client_execute_ok:
  assumes "client_ok cfg U" and "length d < 2 ^ 64" and "parser_ok ps" and "U u"
  shows "done_ok d U (http_parser_execute cfg d ps u)"
  using assms by (intro parser_client.execute_ok [OF client_ok_parser_client])

lemma reach_ok:
  assumes "client_ok cfg U" and "U u0" and reach: "parser_reach cfg u0 ps u"
  shows "parser_ok ps \<and> U u"
  using reach
proof (induction rule: parser_reach.induct)
  case (reach_init ps t)
  with \<open>U u0\<close> show ?case by (simp add: init_parser_ok)
next
  case (reach_execute ps u d n ps' u')
  with client_execute_ok [OF \<open>client_ok cfg U\<close>, of d ps u] show ?case
    by (auto simp: done_ok_def)
next
  case (reach_pause ps u paused ps')
  then show ?case by (auto intro: pause_parser_ok)
qed

section \<open>An observer\<close>

text \<open>
  Settings that set every callback and note down what it is shown: the application that the
  statements about the order and content of callbacks are made for.
\<close>

datatype event =
    Data data_for "byte list"
  | Notify notify_for
  | Headers_complete

definition note_data :: "data_for \<Rightarrow> event list http_data_cb option" where
  "note_data FOR = Some (\<lambda>ps m bs es. (0, ps, es @ [Data FOR bs]))"

definition note_event :: "event \<Rightarrow> event list http_cb option" where
  "note_event e = Some (\<lambda>ps es. (0, ps, es @ [e]))"

definition observer :: "event list http_parser_settings" where
  "observer =
     \<lparr>on_message_begin = note_event (Notify FOR_message_begin), on_url = note_data FOR_url,
      on_status = note_data FOR_status, on_header_field = note_data FOR_header_field,
      on_header_value = note_data FOR_header_value, on_headers_complete = note_event Headers_complete,
      on_body = note_data FOR_body, on_message_complete = note_event (Notify FOR_message_complete),
      on_chunk_header = note_event (Notify FOR_chunk_header),
      on_chunk_complete = note_event (Notify FOR_chunk_complete)\<rparr>"

lemma on_data_observer [simp]: "on_data observer FOR = note_data FOR"
  by (cases FOR) (simp_all add: observer_def)

lemma on_notify_observer [simp]: "on_notify observer FOR = note_event (Notify FOR)"
  by (cases FOR) (simp_all add: observer_def)

lemma on_headers_complete_observer [simp]:
  "on_headers_complete observer = note_event Headers_complete"
  by (simp add: observer_def)

lemma observer_ok: "client_ok observer (\<lambda>_. True)"
  by (simp add: client_ok_def notify_law_def data_law_def note_event_def note_data_def)

interpretation observed: parser_client observer "take (2 ^ 16) d" "\<lambda>_. True" for d
  by (rule client_ok_parser_client [OF observer_ok]) simp

section \<open>What holds of every parser the application can come to\<close>

definition blank_parser :: http_parser where
  "blank_parser =
     \<lparr>p_type = HTTP_REQUEST, flags = 0, state = s_dead, header_state = h_general, index = 0,
      nread = 0, content_length = 0, http_major = 0, http_minor = 0, status_code = 0,
      p_method = HTTP_DELETE, http_errno = HPE_OK, upgrade = False, p_data = 0\<rparr>"

text \<open>
  C1. Safety and termination. Whatever bytes arrive, in whatever portions, a parser that was
  initialised and then executed and paused any number of times returns from
  \<open>http_parser_execute\<close>: the loop ends, no assertion of the debug build fails, no method
  string or table is read past its end, no more bytes are reported as parsed than were given, no
  data callback is shown bytes outside the buffer (that is where \<open>client_ok\<close> may rely on the
  buffer), and the parser can be called again.
\<close>

theorem reachable_execute_returns:
  assumes "client_ok cfg U" and "U u0" and "parser_reach cfg u0 ps u" and "length d < 2 ^ 64"
  shows "\<exists>n ps' u'. http_parser_execute cfg d ps u = Some (Returned n ps' u')
           \<and> (d \<noteq> [] \<longrightarrow> n \<le> length d) \<and> parser_reach cfg u0 ps' u' \<and> U u'"
proof -
  from reach_ok [OF assms(1-3)] client_execute_ok [OF assms(1,4), of ps u] obtain n ps' u' where
    "http_parser_execute cfg d ps u = Some (Returned n ps' u')" "d \<noteq> [] \<longrightarrow> n \<le> length d" "U u'"
    by (auto simp: done_ok_def)
  then show ?thesis
    using reach_execute [OF assms(3,4)] by blast
qed

lemma reachable_execute_returns_witness:
  "\<exists>n ps' u'. http_parser_execute observer ''GET / HTT'' (http_parser_init blank_parser HTTP_REQUEST) []
      = Some (Returned n ps' u') \<and> n \<le> 9"
  using reachable_execute_returns
    [OF observer_ok _ reach_init [of _ "[]" blank_parser HTTP_REQUEST], of "''GET / HTT''"] by auto

text \<open>
  C23. The numbers of every parser the application can come to that has no error (its \<open>http_errno\<close> is
  \<open>HPE_OK\<close> or \<open>HPE_PAUSED\<close>) are bounded: at most \<open>HTTP_MAX_HEADER_SIZE\<close> header bytes have been counted, and the version
  numbers and the status have at most three digits, so that their 16-bit fields never wrap.
\<close>

theorem reachable_numbers:
  assumes "client_ok cfg U" and "U u0" and "parser_reach cfg u0 ps u"
    and "http_errno ps = HPE_OK \<or> http_errno ps = HPE_PAUSED"
  shows "unat (nread ps) \<le> HTTP_MAX_HEADER_SIZE
    \<and> http_major ps \<le> 999 \<and> http_minor ps \<le> 999 \<and> status_code ps \<le> 999"
  using reach_ok [OF assms(1-3)] assms(4) by (simp add: parser_ok_def bounds_ok_def)

lemma reachable_numbers_witness:
  "unat (nread (http_parser_init blank_parser HTTP_BOTH)) \<le> 80 * 1024"
  using reachable_numbers [OF observer_ok _ reach_init [of _ "[]" blank_parser HTTP_BOTH]]
  by (simp add: http_parser_init_def HTTP_MAX_HEADER_SIZE_def)

end
