(* ===== verification/Url_Parse.thy ===== *)
theory Url_Parse
  imports Url_Char
begin

text \<open>
  \<open>http_parser_parse_url\<close> and \<open>http_parse_host\<close> (\<open>src/http_parser.c\<close>): a URL is split into
  fields, each a 16-bit offset and length in the buffer. The memory is modelled with what
  follows the buffer, because \<open>strtoul\<close>, which reads the port, does not stop at \<open>buflen\<close>.
  None is a failed assertion or a read past the memory.
\<close>

section \<open>struct http\_parser\_url\<close>

datatype url_field =
  UF_SCHEMA | UF_HOST | UF_PORT | UF_PATH | UF_QUERY | UF_FRAGMENT | UF_USERINFO

primrec uf_num :: "url_field \<Rightarrow> nat" where
  "uf_num UF_SCHEMA = 0"
| "uf_num UF_HOST = 1"
| "uf_num UF_PORT = 2"
| "uf_num UF_PATH = 3"
| "uf_num UF_QUERY = 4"
| "uf_num UF_FRAGMENT = 5"
| "uf_num UF_USERINFO = 6"

record url_part =
  part_off :: uint16
  part_len :: uint16

record http_parser_url =
  field_set :: uint16
  url_port :: uint16
  field_data :: "url_field \<Rightarrow> url_part"

definition uf_bit :: "url_field \<Rightarrow> uint16" where
  "uf_bit f = push_bit (uf_num f) 1"

definition has_field :: "http_parser_url \<Rightarrow> url_field \<Rightarrow> bool" where
  "has_field u f \<longleftrightarrow> field_set u AND uf_bit f \<noteq> 0"

text \<open>\<open>u->field_data[f].off = o\<close>, \<open>.len = 1\<close> and so on.\<close>

definition set_part :: "url_field \<Rightarrow> url_part \<Rightarrow> http_parser_url \<Rightarrow> http_parser_url" where
  "set_part f p u = u\<lparr>field_data := (field_data u)(f := p)\<rparr>"

definition inc_len :: "url_field \<Rightarrow> http_parser_url \<Rightarrow> http_parser_url" where
  "inc_len f u = set_part f ((field_data u f)\<lparr>part_len := part_len (field_data u f) + 1\<rparr>) u"

text \<open>A field begins at offset \<open>i\<close>: \<open>off\<close> and \<open>len\<close> are set, and its bit.\<close>

definition start_field :: "url_field \<Rightarrow> nat \<Rightarrow> uint16 \<Rightarrow> http_parser_url \<Rightarrow> http_parser_url" where
  "start_field f i n u =
     (set_part f \<lparr>part_off = of_nat i, part_len = n\<rparr> u)\<lparr>field_set := field_set u OR uf_bit f\<rparr>"

section \<open>The host\<close>

fun http_parse_host_char :: "http_host_state \<Rightarrow> byte \<Rightarrow> http_host_state" where
  "http_parse_host_char s_http_userinfo ch =
     (if ch = CHR ''@'' then s_http_host_start
      else if IS_USERINFO_CHAR ch then s_http_userinfo else s_http_host_dead)"
| "http_parse_host_char s_http_userinfo_start ch =
     (if ch = CHR ''@'' then s_http_host_start
      else if IS_USERINFO_CHAR ch then s_http_userinfo else s_http_host_dead)"
| "http_parse_host_char s_http_host_start ch =
     (if ch = CHR ''['' then s_http_host_v6_start
      else if IS_HOST_CHAR ch then s_http_host else s_http_host_dead)"
| "http_parse_host_char s_http_host ch =
     (if IS_HOST_CHAR ch then s_http_host
      else if ch = CHR '':'' then s_http_host_port_start else s_http_host_dead)"
| "http_parse_host_char s_http_host_v6_end ch =
     (if ch = CHR '':'' then s_http_host_port_start else s_http_host_dead)"
| "http_parse_host_char s_http_host_v6 ch =
     (if ch = CHR '']'' then s_http_host_v6_end
      else if IS_HEX ch \<or> ch = CHR '':'' \<or> ch = CHR ''.'' then s_http_host_v6
      else s_http_host_dead)"
| "http_parse_host_char s_http_host_v6_start ch =
     (if IS_HEX ch \<or> ch = CHR '':'' \<or> ch = CHR ''.'' then s_http_host_v6 else s_http_host_dead)"
| "http_parse_host_char s_http_host_port ch =
     (if IS_NUM ch then s_http_host_port else s_http_host_dead)"
| "http_parse_host_char s_http_host_port_start ch =
     (if IS_NUM ch then s_http_host_port else s_http_host_dead)"
| "http_parse_host_char s_http_host_dead ch = s_http_host_dead"

text \<open>The \<open>switch (new_s)\<close> in the loop, at offset \<open>i\<close>.\<close>

definition host_update ::
  "http_host_state \<Rightarrow> http_host_state \<Rightarrow> nat \<Rightarrow> http_parser_url \<Rightarrow> http_parser_url" where
  "host_update s new_s i u =
     (let move = (\<lambda>f u. if s \<noteq> new_s
            then set_part f ((field_data u f)\<lparr>part_off := of_nat i\<rparr>) u else u);
          start = (\<lambda>f u. if s \<noteq> new_s then start_field f i 0 u else u)
      in case new_s of
           s_http_host \<Rightarrow> inc_len UF_HOST (move UF_HOST u)
         | s_http_host_v6 \<Rightarrow> inc_len UF_HOST (move UF_HOST u)
         | s_http_host_port \<Rightarrow> inc_len UF_PORT (start UF_PORT u)
         | s_http_userinfo \<Rightarrow> inc_len UF_USERINFO (start UF_USERINFO u)
         | _ \<Rightarrow> u)"

text \<open>The loop over the bytes \<open>bs\<close> of the host part, which begin at offset \<open>i\<close>; None is \<open>return 1\<close>
  with the fields as they are then.\<close>

fun host_loop ::
  "byte list \<Rightarrow> nat \<Rightarrow> http_host_state \<Rightarrow> http_parser_url \<Rightarrow> http_host_state option \<times> http_parser_url"
where
  "host_loop [] i s u = (Some s, u)"
| "host_loop (ch # bs) i s u =
     (let new_s = http_parse_host_char s ch
      in if new_s = s_http_host_dead then (None, u)
         else host_loop bs (i + 1) new_s (host_update s new_s i u))"

definition host_end_ok :: "http_host_state \<Rightarrow> bool" where
  "host_end_ok s \<longleftrightarrow>
     s \<notin> {s_http_host_start, s_http_host_v6_start, s_http_host_v6, s_http_host_port_start,
           s_http_userinfo, s_http_userinfo_start}"

text \<open>The result is \<open>return 0\<close> (True) or \<open>return 1\<close>, and the fields.\<close>

definition http_parse_host ::
  "byte list \<Rightarrow> http_parser_url \<Rightarrow> bool \<Rightarrow> (bool \<times> http_parser_url) option" where
  "http_parse_host mem u found_at =
     (let lo = unat (part_off (field_data u UF_HOST)); n = unat (part_len (field_data u UF_HOST));
          u' = set_part UF_HOST ((field_data u UF_HOST)\<lparr>part_len := 0\<rparr>) u
      in if \<not> has_field u UF_HOST \<or> length mem < lo + n then None
         else case host_loop (byte_range mem lo n) lo
                     (if found_at then s_http_userinfo_start else s_http_host_start) u' of
                (None, u'') \<Rightarrow> Some (False, u'')
              | (Some s, u'') \<Rightarrow> Some (host_end_ok s, u''))"

section \<open>The fields of a URL\<close>

text \<open>The \<open>switch (s)\<close>: the field that the byte belongs to; delimiters belong to none.\<close>

datatype url_class = Url_dead | Delimiter | In_field url_field | Unexpected

definition url_class :: "state \<Rightarrow> url_class" where
  "url_class s =
     (case s of
        s_dead \<Rightarrow> Url_dead
      | s_req_schema_slash \<Rightarrow> Delimiter
      | s_req_schema_slash_slash \<Rightarrow> Delimiter
      | s_req_server_start \<Rightarrow> Delimiter
      | s_req_query_string_start \<Rightarrow> Delimiter
      | s_req_fragment_start \<Rightarrow> Delimiter
      | s_req_schema \<Rightarrow> In_field UF_SCHEMA
      | s_req_server_with_at \<Rightarrow> In_field UF_HOST
      | s_req_server \<Rightarrow> In_field UF_HOST
      | s_req_path \<Rightarrow> In_field UF_PATH
      | s_req_query_string \<Rightarrow> In_field UF_QUERY
      | s_req_fragment \<Rightarrow> In_field UF_FRAGMENT
      | _ \<Rightarrow> Unexpected)"

text \<open>
  The loop over the bytes of the buffer, at offset \<open>i\<close>, with \<open>old_uf\<close> (None for \<open>UF_MAX\<close>) and
  \<open>found_at\<close>; it ends at the end of the buffer, in \<open>return 1\<close>, or in the failed assertion.
\<close>

datatype url_scan = Scan_end bool http_parser_url | Scan_fail http_parser_url | Scan_assert

fun url_loop ::
  "byte list \<Rightarrow> nat \<Rightarrow> state \<Rightarrow> url_field option \<Rightarrow> bool \<Rightarrow> http_parser_url \<Rightarrow> url_scan"
where
  "url_loop [] i s old_uf found_at u = Scan_end found_at u"
| "url_loop (ch # bs) i s old_uf found_at u =
     (let s = parse_url_char s ch;
          found_at = (found_at \<or> s = s_req_server_with_at)
      in case url_class s of
           Url_dead \<Rightarrow> Scan_fail u
         | Unexpected \<Rightarrow> Scan_assert
         | Delimiter \<Rightarrow> url_loop bs (i + 1) s old_uf found_at u
         | In_field uf \<Rightarrow>
             if Some uf = old_uf then url_loop bs (i + 1) s old_uf found_at (inc_len uf u)
             else url_loop bs (i + 1) s (Some uf) found_at (start_field uf i 1 u))"

text \<open>
  C's \<open>strtoul (s, NULL, 10)\<close> on the memory \<open>s\<close>: white space, a sign, digits up to the first byte
  that is none; the value saturates at \<open>ULONG_MAX\<close>. None if that byte is not in the memory.
\<close>

definition isspace :: "byte \<Rightarrow> bool" where
  "isspace c \<longleftrightarrow> c \<in> set [CHR '' '', TAB, LF, CHR 0x0B, FF, CR]"

definition decimal :: "byte list \<Rightarrow> nat" where
  "decimal ds = foldl (\<lambda>v c. v * 10 + nat (digit_val c)) 0 ds"

definition ULONG_MAX :: uint64 where
  "ULONG_MAX = 0xFFFFFFFFFFFFFFFF"

definition strtoul :: "byte list \<Rightarrow> uint64 option" where
  "strtoul s =
     (let s1 = dropWhile isspace s;
          neg = (s1 \<noteq> [] \<and> hd s1 = CHR ''-'');
          s2 = (if s1 \<noteq> [] \<and> (hd s1 = CHR ''-'' \<or> hd s1 = CHR ''+'') then tl s1 else s1);
          ds = takeWhile IS_NUM s2
      in if length ds = length s2 then None
         else if 2 ^ 64 \<le> decimal ds then Some ULONG_MAX
         else Some (if neg then - of_nat (decimal ds) else of_nat (decimal ds)))"

text \<open>The last step: the check for CONNECT, and the port.\<close>

definition url_finish :: "byte list \<Rightarrow> bool \<Rightarrow> http_parser_url \<Rightarrow> (int \<times> http_parser_url) option" where
  "url_finish mem is_connect u =
     (if is_connect \<and> field_set u \<noteq> uf_bit UF_HOST OR uf_bit UF_PORT then Some (1, u)
      else if has_field u UF_PORT then
        (case strtoul (drop (unat (part_off (field_data u UF_PORT))) mem) of
           None \<Rightarrow> None
         | Some v \<Rightarrow> if 0xffff < v then Some (1, u) else Some (0, u\<lparr>url_port := ucast v\<rparr>))
      else Some (0, u))"

text \<open>The result is the function's \<open>int\<close> and the fields, which are written in any case.\<close>

definition http_parser_parse_url ::
  "byte list \<Rightarrow> nat \<Rightarrow> bool \<Rightarrow> http_parser_url \<Rightarrow> (int \<times> http_parser_url) option" where
  "http_parser_parse_url mem buflen is_connect u =
     (let u = u\<lparr>url_port := 0, field_set := 0\<rparr>;
          s = (if is_connect then s_req_server_start else s_req_spaces_before_url)
      in if length mem < buflen then None
         else case url_loop (take buflen mem) 0 s None False u of
                Scan_assert \<Rightarrow> None
              | Scan_fail u \<Rightarrow> Some (1, u)
              | Scan_end found_at u \<Rightarrow>
                  if has_field u UF_SCHEMA \<and> \<not> has_field u UF_HOST then Some (1, u)
                  else if has_field u UF_HOST then
                    (case http_parse_host mem u found_at of
                       None \<Rightarrow> None
                     | Some (ok, u) \<Rightarrow> if ok then url_finish mem is_connect u else Some (1, u))
                  else url_finish mem is_connect u)"

section \<open>Fields and their bits\<close>

lemma has_field_bit: "has_field u f \<longleftrightarrow> bit (field_set u) (uf_num f)"
  by (simp add: has_field_def uf_bit_def bit_iff_and_push_bit_not_eq_0)

lemma uf_num_inject [simp]: "uf_num f = uf_num g \<longleftrightarrow> f = g"
  by (cases f; cases g) simp_all

lemma uf_num_less: "uf_num f < 16"
  by (cases f) simp_all

lemma bit_uf_bit: "bit (uf_bit g) (uf_num f) \<longleftrightarrow> f = g"
  using uf_num_less [of f] by (auto simp: uf_bit_def bit_exp_iff)

lemma has_field_start [simp]: "has_field (start_field g i n u) f \<longleftrightarrow> f = g \<or> has_field u f"
  by (auto simp: has_field_bit start_field_def set_part_def bit_or_iff bit_uf_bit)

lemma has_field_part [simp]:
  "has_field (set_part g p u) f = has_field u f" "has_field (inc_len g u) f = has_field u f"
  "has_field (u\<lparr>url_port := v\<rparr>) f = has_field u f"
  by (simp_all add: has_field_def set_part_def inc_len_def)

lemma has_field_none [simp]: "\<not> has_field (u\<lparr>url_port := v, field_set := 0\<rparr>) f"
  by (simp add: has_field_def)

lemma field_data_simps [simp]:
  "field_data (start_field g i n u) f =
     (if f = g then \<lparr>part_off = of_nat i, part_len = n\<rparr> else field_data u f)"
  "field_data (set_part g p u) f = (if f = g then p else field_data u f)"
  by (simp_all add: start_field_def set_part_def)

lemma field_data_inc_len [simp]:
  "part_off (field_data (inc_len g u) f) = part_off (field_data u f)"
  "part_len (field_data (inc_len g u) f) =
     (if f = g then part_len (field_data u f) + 1 else part_len (field_data u f))"
  by (simp_all add: inc_len_def)

text \<open>The end of a field, and its bytes.\<close>

definition part_end :: "http_parser_url \<Rightarrow> url_field \<Rightarrow> nat" where
  "part_end u f = unat (part_off (field_data u f)) + unat (part_len (field_data u f))"

definition field_bytes :: "byte list \<Rightarrow> http_parser_url \<Rightarrow> url_field \<Rightarrow> byte list" where
  "field_bytes mem u f =
     byte_range mem (unat (part_off (field_data u f))) (unat (part_len (field_data u f)))"

end
