(* ===== verification/Url_Fields.thy ===== *)
theory Url_Fields
  imports Url_Parse
begin

text \<open>
  What \<open>http_parser_parse_url\<close> promises when it returns 0 for a buffer of less than 64 KiB (so
  that the 16-bit offsets and lengths are exact): every field that it reports is a non-empty part
  of the buffer and holds only bytes of its class. The proof is an invariant of each of the two
  loops, kept by every byte.
\<close>

section \<open>Parts of the buffer\<close>

text \<open>A part of the buffer that ends at \<open>n\<close> at the latest, is not empty and has bytes in \<open>P\<close> only.\<close>

definition part_ok :: "(byte \<Rightarrow> bool) \<Rightarrow> byte list \<Rightarrow> nat \<Rightarrow> http_parser_url \<Rightarrow> url_field \<Rightarrow> bool" where
  "part_ok P mem n u f \<longleftrightarrow>
     part_end u f \<le> n \<and> 0 < unat (part_len (field_data u f))
     \<and> (\<forall>j. unat (part_off (field_data u f)) \<le> j \<longrightarrow> j < part_end u f \<longrightarrow> P (mem ! j))"

lemma part_ok_mono: "part_ok P mem m u f \<Longrightarrow> m \<le> n \<Longrightarrow> part_ok P mem n u f"
  by (auto simp: part_ok_def)

lemma unat_of_nat16: "i < 65536 \<Longrightarrow> unat (of_nat i :: uint16) = i"
  by (rule unat_of_nat_small) simp

lemma part_end_other [simp]:
  "f \<noteq> g \<Longrightarrow> part_end (inc_len g u) f = part_end u f"
  "f \<noteq> g \<Longrightarrow> part_end (start_field g i n u) f = part_end u f"
  "f \<noteq> g \<Longrightarrow> part_end (set_part g p u) f = part_end u f"
  by (simp_all add: part_end_def)

lemma part_ok_other [simp]:
  "f \<noteq> g \<Longrightarrow> part_ok P mem m (inc_len g u) f = part_ok P mem m u f"
  "f \<noteq> g \<Longrightarrow> part_ok P mem m (start_field g i n u) f = part_ok P mem m u f"
  "f \<noteq> g \<Longrightarrow> part_ok P mem m (set_part g p u) f = part_ok P mem m u f"
  by (simp_all add: part_ok_def)

text \<open>A part that begins at \<open>i\<close>, and a part that ends at \<open>i\<close> and takes in the byte there.\<close>

lemma part_begin:
  assumes "i < 65535"
  shows "part_end (start_field f i 0 u) f = i" "part_end (start_field f i 1 u) f = i + 1"
    and "P (mem ! i) \<Longrightarrow> part_ok P mem (i + 1) (start_field f i 1 u) f"
  using assms unat_of_nat16 [of i] by (auto simp: part_end_def part_ok_def le_Suc_eq less_Suc_eq)

lemma part_grow:
  assumes "part_end u f = i" "i < 65535" "P (mem ! i)"
    and all: "unat (part_len (field_data u f)) = 0 \<or> part_ok P mem i u f"
  shows "part_end (inc_len f u) f = i + 1" "part_ok P mem (i + 1) (inc_len f u) f"
proof -
  have len: "unat (part_len (field_data u f) + 1) = unat (part_len (field_data u f)) + 1"
    using assms(1,2) by (intro unat_inc_word) (simp add: part_end_def)
  then show e: "part_end (inc_len f u) f = i + 1"
    using assms(1) by (simp add: part_end_def)
  have "P (mem ! j)" if "unat (part_off (field_data u f)) \<le> j" "j < i + 1" for j
  proof (cases "j = i")
    case False
    with that all assms(1) show ?thesis by (auto simp: part_ok_def part_end_def)
  qed (use assms(3) in simp)
  then show "part_ok P mem (i + 1) (inc_len f u) f"
    using e len by (simp add: part_ok_def)
qed

section \<open>The scan\<close>

text \<open>The bytes of a field in the scan (the host includes user info and port there).\<close>

fun url_byte :: "url_field \<Rightarrow> byte \<Rightarrow> bool" where
  "url_byte UF_SCHEMA c = IS_ALPHA c"
| "url_byte UF_HOST c = (IS_USERINFO_CHAR c \<or> c = CHR ''@'' \<or> c = CHR ''['' \<or> c = CHR '']'')"
| "url_byte UF_PATH c = (IS_URL_CHAR c \<or> c = CHR ''/'' \<or> c = CHR ''*'')"
| "url_byte UF_QUERY c = (IS_URL_CHAR c \<or> c = CHR ''?'')"
| "url_byte UF_FRAGMENT c = (IS_URL_CHAR c \<or> c = CHR ''?'' \<or> c = CHR ''#'')"
| "url_byte UF_PORT c = False"
| "url_byte UF_USERINFO c = False"

text \<open>The field before a delimiter is never the one after it, so a field is not taken up again.\<close>

definition old_ok :: "state \<Rightarrow> url_field option \<Rightarrow> bool" where
  "old_ok s old_uf \<longleftrightarrow>
     (case url_class s of
        In_field f \<Rightarrow> old_uf = Some f
      | _ \<Rightarrow>
          if s = s_req_query_string_start then old_uf \<noteq> Some UF_QUERY \<and> old_uf \<noteq> Some UF_FRAGMENT
          else if s = s_req_fragment_start then old_uf \<noteq> Some UF_FRAGMENT
          else if s = s_req_spaces_before_url then old_uf = None
          else old_uf = None \<or> old_uf = Some UF_SCHEMA)"

lemma url_class_next: "url_class (parse_url_char s ch) \<noteq> Unexpected"
  using parse_url_char_range [of s ch] by (auto simp: url_class_def url_state_def)

lemma url_class_dead: "url_class s = Url_dead \<longleftrightarrow> s = s_dead"
  by (cases s) (simp_all add: url_class_def)

lemma url_transition:
  assumes "parse_url_char s ch = s'"
  shows "url_class s' = In_field uf \<Longrightarrow> url_byte uf ch"
    and "url_class s' = In_field uf \<Longrightarrow> old_ok s (Some uf) \<Longrightarrow> url_class s = In_field uf"
    and "url_class s' = Delimiter \<Longrightarrow> old_ok s old_uf \<Longrightarrow> old_ok s' old_uf"
proof -
  note s' = assms [symmetric]
  show "url_class s' = In_field uf \<Longrightarrow> url_byte uf ch"
    unfolding s'
    by (cases s) (auto simp: parse_url_char_def parse_url_server_def url_class_def split: if_splits)
  show "url_class s' = In_field uf \<Longrightarrow> old_ok s (Some uf) \<Longrightarrow> url_class s = In_field uf"
    unfolding s'
    by (cases s) (auto simp: parse_url_char_def parse_url_server_def url_class_def old_ok_def split: if_splits)
  show "url_class s' = Delimiter \<Longrightarrow> old_ok s old_uf \<Longrightarrow> old_ok s' old_uf"
    unfolding s'
    by (cases s) (auto simp: parse_url_char_def parse_url_server_def url_class_def old_ok_def split: if_splits)
qed

definition scan_ok :: "byte list \<Rightarrow> nat \<Rightarrow> http_parser_url \<Rightarrow> bool" where
  "scan_ok mem i u \<longleftrightarrow>
     (\<forall>f. has_field u f \<longrightarrow> f \<noteq> UF_PORT \<and> f \<noteq> UF_USERINFO \<and> part_ok (url_byte f) mem i u f)"

lemma scan_okD:
  assumes "scan_ok mem i u" "has_field u f"
  shows "f \<noteq> UF_PORT" "f \<noteq> UF_USERINFO" "part_ok (url_byte f) mem i u f"
    "part_ok (url_byte f) mem (Suc i) u f"
  using assms by (auto simp: scan_ok_def intro: part_ok_mono)

definition scan_inv ::
  "byte list \<Rightarrow> nat \<Rightarrow> state \<Rightarrow> url_field option \<Rightarrow> http_parser_url \<Rightarrow> bool" where
  "scan_inv mem i s old_uf u \<longleftrightarrow>
     scan_ok mem i u \<and> old_ok s old_uf
     \<and> (\<forall>f. url_class s = In_field f \<longrightarrow> has_field u f \<and> part_end u f = i)"

lemma url_class_field: "url_class s = In_field uf \<Longrightarrow> uf \<noteq> UF_PORT \<and> uf \<noteq> UF_USERINFO"
  by (cases s) (simp_all add: url_class_def)

lemma scan_inv_step:
  assumes inv: "scan_inv mem i s old_uf u" and i: "i < 65535"
    and s': "parse_url_char s (mem ! i) = s'"
  shows "url_class s' = Delimiter \<Longrightarrow> scan_inv mem (i + 1) s' old_uf u"
    and "url_class s' = In_field uf \<Longrightarrow> Some uf = old_uf \<Longrightarrow> scan_inv mem (i + 1) s' old_uf (inc_len uf u)"
    and "url_class s' = In_field uf \<Longrightarrow> scan_inv mem (i + 1) s' (Some uf) (start_field uf i 1 u)"
proof -
  have ok: "scan_ok mem i u" and old: "old_ok s old_uf" using inv by (simp_all add: scan_inv_def)
  show "url_class s' = Delimiter \<Longrightarrow> scan_inv mem (i + 1) s' old_uf u"
    using scan_okD [OF ok] url_transition(3) [OF s' _ old]
    by (auto simp: scan_inv_def scan_ok_def)
  show "scan_inv mem (i + 1) s' old_uf (inc_len uf u)" if uf: "url_class s' = In_field uf" "Some uf = old_uf"
  proof -
    have "url_class s = In_field uf" using url_transition(2) [OF s' uf(1)] old uf(2) by simp
    with inv have "has_field u uf" "part_end u uf = i" by (simp_all add: scan_inv_def)
    note grow = part_grow [OF this(2) i, where P = "url_byte uf" and mem = mem]
    have "part_ok (url_byte uf) mem i u uf" using scan_okD(3) [OF ok \<open>has_field u uf\<close>] .
    with grow url_transition(1) [OF s' uf(1)]
    have grown: "part_end (inc_len uf u) uf = i + 1" "part_ok (url_byte uf) mem (i + 1) (inc_len uf u) uf"
      by simp_all
    have "part_ok (url_byte f) mem (i + 1) (inc_len uf u) f" if "has_field u f" for f
      using scan_okD(4) [OF ok that] grown by (cases "f = uf") simp_all
    with grown scan_okD(1,2) [OF ok] \<open>has_field u uf\<close> uf show ?thesis
      by (auto simp: scan_inv_def scan_ok_def old_ok_def)
  qed
  show "scan_inv mem (i + 1) s' (Some uf) (start_field uf i 1 u)" if uf: "url_class s' = In_field uf"
  proof -
    let ?u = "start_field uf i 1 u"
    have begun: "part_end ?u uf = i + 1" "part_ok (url_byte uf) mem (i + 1) ?u uf"
      using part_begin(2,3) [OF i] url_transition(1) [OF s' uf] by simp_all
    have "part_ok (url_byte f) mem (i + 1) ?u f" if "has_field u f" for f
      using scan_okD(4) [OF ok that] begun by (cases "f = uf") simp_all
    with begun scan_okD(1,2) [OF ok] uf url_class_field [OF uf] show ?thesis
      by (auto simp: scan_inv_def scan_ok_def old_ok_def)
  qed
qed

lemma url_loop_scan:
  assumes "scan_inv mem i s old_uf u" "n < 65536" "n \<le> length mem"
    and "i \<le> n" "bs = drop i (take n mem)"
  shows "case url_loop bs i s old_uf found_at u of
           Scan_end at u' \<Rightarrow> scan_ok mem n u'
         | Scan_fail u' \<Rightarrow> True
         | Scan_assert \<Rightarrow> False"
  using assms
proof (induction bs i s old_uf found_at u rule: url_loop.induct)
  case (1 i s old_uf found_at u)
  then have "i = n" by simp
  with 1 show ?case by (simp add: scan_inv_def)
next
  case (2 ch bs i s old_uf found_at u)
  let ?s = "parse_url_char s ch"
  from drop_eq_Cons_nth [OF "2.prems"(5) [symmetric]] "2.prems"(3)
  have i: "i < n" and ch: "mem ! i = ch" and bs: "bs = drop (i + 1) (take n mem)"
    by auto
  have i': "i < 65535" using i "2.prems"(2) by simp
  note step = scan_inv_step [OF "2.prems"(1) i', unfolded ch, OF refl]
  show ?case
  proof (cases "url_class ?s")
    case (In_field uf)
    show ?thesis
    proof (cases "Some uf = old_uf")
      case True
      with "2.IH"(2) [OF refl refl In_field True step(2) [OF In_field True] "2.prems"(2,3) _ bs] i In_field
      show ?thesis by (simp add: Let_def)
    next
      case False
      with "2.IH"(3) [OF refl refl In_field False step(3) [OF In_field] "2.prems"(2,3) _ bs] i In_field
      show ?thesis by (simp add: Let_def)
    qed
  next
    case Delimiter
    with "2.IH"(1) [OF refl refl Delimiter step(1) [OF Delimiter] "2.prems"(2,3) _ bs] i
    show ?thesis by (simp add: Let_def)
  qed (use url_class_next [of s ch] in \<open>simp_all add: Let_def\<close>)
qed

section \<open>The host part\<close>

text \<open>The bytes of the host, the port and the user info once they are told apart.\<close>

fun field_byte :: "url_field \<Rightarrow> byte \<Rightarrow> bool" where
  "field_byte UF_HOST c = (IS_HOST_CHAR c \<or> IS_HEX c \<or> c = CHR '':'' \<or> c = CHR ''.'')"
| "field_byte UF_PORT c = IS_NUM c"
| "field_byte UF_USERINFO c = IS_USERINFO_CHAR c"
| "field_byte f c = url_byte f c"

definition in_host :: "url_field \<Rightarrow> bool" where
  "in_host f \<longleftrightarrow> f = UF_HOST \<or> f = UF_PORT \<or> f = UF_USERINFO"

lemma field_byte_outside: "\<not> in_host f \<Longrightarrow> field_byte f = url_byte f"
  by (cases f) (auto simp: in_host_def)

definition host_found :: "http_host_state \<Rightarrow> bool" where
  "host_found s \<longleftrightarrow> s \<in> {s_http_host, s_http_host_v6, s_http_host_v6_end, s_http_host_port_start,
     s_http_host_port}"

fun host_field :: "http_host_state \<Rightarrow> url_field option" where
  "host_field s_http_host = Some UF_HOST"
| "host_field s_http_host_v6 = Some UF_HOST"
| "host_field s_http_host_port = Some UF_PORT"
| "host_field s_http_userinfo = Some UF_USERINFO"
| "host_field s = None"

text \<open>
  At offset \<open>i\<close> of the host part: the fields found in it end at \<open>i\<close>, the one of the current
  state exactly there; the host's length is 0 until its first byte.
\<close>

definition host_inv :: "byte list \<Rightarrow> nat \<Rightarrow> nat \<Rightarrow> http_host_state \<Rightarrow> http_parser_url \<Rightarrow> bool" where
  "host_inv mem n i s u \<longleftrightarrow>
     (\<forall>f. has_field u f \<longrightarrow> \<not> in_host f \<longrightarrow> part_ok (field_byte f) mem n u f)
     \<and> (\<forall>f. has_field u f \<longrightarrow> f = UF_PORT \<or> f = UF_USERINFO \<longrightarrow> part_ok (field_byte f) mem i u f)
     \<and> has_field u UF_HOST \<and> s \<noteq> s_http_host_dead
     \<and> (if host_found s then part_ok (field_byte UF_HOST) mem i u UF_HOST
        else part_len (field_data u UF_HOST) = 0)
     \<and> (\<forall>f. host_field s = Some f \<longrightarrow> has_field u f \<and> part_end u f = i)"

lemma host_transition:
  assumes "http_parse_host_char s ch = s'" "s' \<noteq> s_http_host_dead"
  shows "host_field s' = Some f \<Longrightarrow> field_byte f ch"
    and "host_field s' = Some f \<Longrightarrow> f \<noteq> UF_HOST \<Longrightarrow> host_found s' = host_found s"
    and "host_field s' = Some UF_HOST \<Longrightarrow> s = s' \<or> \<not> host_found s"
    and "host_field s' = None \<Longrightarrow> host_found s' = host_found s"
  using assms by (cases s; auto simp: host_found_def split: if_splits)+

text \<open>What the update does to the field of the new state.\<close>

definition host_begin ::
  "http_host_state \<Rightarrow> http_host_state \<Rightarrow> url_field \<Rightarrow> nat \<Rightarrow> http_parser_url \<Rightarrow> http_parser_url" where
  "host_begin s s' f i u =
     (if s = s' then u
      else if f = UF_HOST then set_part UF_HOST ((field_data u UF_HOST)\<lparr>part_off := of_nat i\<rparr>) u
      else start_field f i 0 u)"

lemma host_update_field:
  "host_field s' = Some f \<Longrightarrow> host_update s s' i u = inc_len f (host_begin s s' f i u)"
  "host_field s' = None \<Longrightarrow> host_update s s' i u = u"
  by (cases s'; auto simp: host_update_def host_begin_def)+

lemma host_begin_fields:
  "has_field (host_begin s s' f i u) g \<longleftrightarrow> has_field u g \<or> (s \<noteq> s' \<and> f \<noteq> UF_HOST \<and> g = f)"
  "g \<noteq> f \<Longrightarrow> field_data (host_begin s s' f i u) g = field_data u g"
  "g \<noteq> f \<Longrightarrow> part_ok P mem m (host_begin s s' f i u) g = part_ok P mem m u g"
  by (auto simp: host_begin_def)

lemma host_inv_step:
  assumes inv: "host_inv mem n i s u" and i: "i < 65535"
    and s': "http_parse_host_char s (mem ! i) = s'" "s' \<noteq> s_http_host_dead"
  shows "host_inv mem n (i + 1) s' (host_update s s' i u)"
proof (cases "host_field s'")
  case None
  with inv s'(2) host_transition(4) [OF s' None] show ?thesis
    by (auto simp: host_update_field host_inv_def intro: part_ok_mono)
next
  case (Some f)
  let ?u = "host_begin s s' f i u"
  have "part_end ?u f = i \<and>
      (unat (part_len (field_data ?u f)) = 0 \<or> part_ok (field_byte f) mem i ?u f)"
  proof (cases "s = s'")
    case True
    with Some inv show ?thesis
      by (cases s') (auto simp: host_begin_def host_inv_def host_found_def)
  next
    case False
    then show ?thesis
      using inv Some i host_transition(3) [OF s'] part_begin(1) [OF i, of f u]
      by (cases "f = UF_HOST")
        (auto simp: host_begin_def host_inv_def part_end_def unat_of_nat16)
  qed
  then have grow: "part_end (inc_len f ?u) f = i + 1" "part_ok (field_byte f) mem (i + 1) (inc_len f ?u) f"
    using part_grow [of ?u f i "field_byte f" mem] i host_transition(1) [OF s' Some] by auto
  have host: "has_field u UF_HOST" using inv by (simp add: host_inv_def)
  have f: "f = UF_HOST \<or> f = UF_PORT \<or> f = UF_USERINFO" using Some by (cases s') auto
  let ?u' = "inc_len f ?u"
  have set: "has_field ?u' g \<longleftrightarrow> has_field u g \<or> g = f" for g
    using inv Some host by (auto simp: host_begin_fields host_inv_def)
  have "part_ok (field_byte g) mem n ?u' g" if "has_field ?u' g" "\<not> in_host g" for g
  proof -
    have "g \<noteq> f" using that(2) f by (auto simp: in_host_def)
    with that inv set show ?thesis by (simp add: host_begin_fields host_inv_def)
  qed
  moreover have "part_ok (field_byte g) mem (i + 1) ?u' g"
    if "has_field ?u' g" "g = UF_PORT \<or> g = UF_USERINFO" for g
  proof (cases "g = f")
    case False
    with that set inv have "part_ok (field_byte g) mem i u g" by (auto simp: host_inv_def)
    with False show ?thesis by (auto simp: host_begin_fields intro: part_ok_mono)
  qed (use grow(2) in simp)
  moreover have "if host_found s' then part_ok (field_byte UF_HOST) mem (i + 1) ?u' UF_HOST
      else part_len (field_data ?u' UF_HOST) = 0"
  proof (cases "f = UF_HOST")
    case True
    with Some have "host_found s'" by (cases s') (simp_all add: host_found_def)
    with True grow(2) show ?thesis by simp
  next
    case False
    with inv host_transition(2) [OF s' Some] show ?thesis
      by (auto simp: host_inv_def host_begin_fields intro: part_ok_mono split: if_splits)
  qed
  moreover have "has_field ?u' UF_HOST" using host by (simp add: host_begin_fields)
  moreover have "has_field ?u' f" using set [of f] by simp
  ultimately show ?thesis
    using s'(2) grow(1) Some unfolding host_update_field(1) [OF Some] host_inv_def
    by (auto simp: set)
qed

lemma host_loop_inv:
  assumes "host_inv mem n i s u" "hi < 65536" "hi \<le> length mem" "i \<le> hi"
    and "bs = drop i (take hi mem)"
  shows "case host_loop bs i s u of (None, u') \<Rightarrow> True | (Some s', u') \<Rightarrow> host_inv mem n hi s' u'"
  using assms
proof (induction bs i s u rule: host_loop.induct)
  case (1 i s u)
  then have "i = hi" by simp
  with 1 show ?case by simp
next
  case (2 ch bs i s u)
  from drop_eq_Cons_nth [OF "2.prems"(5) [symmetric]] "2.prems"(3)
  have i: "i < hi" and ch: "mem ! i = ch" and bs: "bs = drop (i + 1) (take hi mem)" by auto
  show ?case
  proof (cases "http_parse_host_char s ch = s_http_host_dead")
    case False
    have "host_inv mem n (i + 1) (http_parse_host_char s ch) (host_update s (http_parse_host_char s ch) i u)"
      using "2.prems"(1,2) i False by (intro host_inv_step) (simp_all add: ch)
    from "2.IH" [OF refl False this "2.prems"(2,3) _ bs] i False show ?thesis
      by (simp add: Let_def)
  qed simp
qed

definition fields_ok :: "byte list \<Rightarrow> nat \<Rightarrow> http_parser_url \<Rightarrow> bool" where
  "fields_ok mem n u \<longleftrightarrow> (\<forall>f. has_field u f \<longrightarrow> part_ok (field_byte f) mem n u f)"

lemma http_parse_host_fields:
  assumes ok: "scan_ok mem n u" "has_field u UF_HOST" and n: "n \<le> length mem" "n < 65536"
  shows "\<exists>r u'. http_parse_host mem u at = Some (r, u')
    \<and> (r \<longrightarrow> fields_ok mem n u' \<and> has_field u' UF_HOST)"
proof -
  let ?lo = "unat (part_off (field_data u UF_HOST))"
  let ?len = "unat (part_len (field_data u UF_HOST))"
  let ?s = "if at then s_http_userinfo_start else s_http_host_start"
  let ?u = "set_part UF_HOST ((field_data u UF_HOST)\<lparr>part_len := 0\<rparr>) u"
  have hi: "?lo + ?len \<le> n"
    using scan_okD(3) [OF ok] by (simp add: part_ok_def part_end_def)
  have "host_inv mem n ?lo ?s ?u"
    using ok(2) scan_okD [OF ok(1)]
    by (auto simp: host_inv_def host_found_def in_host_def field_byte_outside)
  moreover obtain r u' where loop: "host_loop (byte_range mem ?lo ?len) ?lo ?s ?u = (r, u')"
    by (cases "host_loop (byte_range mem ?lo ?len) ?lo ?s ?u")
  moreover have "byte_range mem ?lo ?len = drop ?lo (take (?lo + ?len) mem)"
    by (simp add: byte_range_def take_drop add.commute)
  ultimately have inv: "r = Some s' \<Longrightarrow> host_inv mem n (?lo + ?len) s' u'" for s'
    using host_loop_inv [of mem n ?lo ?s ?u "?lo + ?len" "byte_range mem ?lo ?len"] hi n by auto
  have "fields_ok mem n u' \<and> has_field u' UF_HOST"
    if "host_inv mem n (?lo + ?len) s' u'" "host_end_ok s'" for s'
  proof -
    have "s' \<noteq> s_http_host_dead" using that(1) by (simp add: host_inv_def)
    with that(2) have found: "host_found s'"
      by (cases s') (simp_all add: host_end_ok_def host_found_def)
    have "part_ok (field_byte f) mem n u' f" if "has_field u' f" for f
    proof (cases "in_host f")
      case True
      then have "part_ok (field_byte f) mem (?lo + ?len) u' f"
        using that \<open>host_inv mem n (?lo + ?len) s' u'\<close> found by (auto simp: host_inv_def in_host_def)
      with hi show ?thesis by (rule part_ok_mono [rotated])
    qed (use that \<open>host_inv mem n (?lo + ?len) s' u'\<close> in \<open>simp add: host_inv_def\<close>)
    then show ?thesis using that(1) by (simp add: fields_ok_def host_inv_def)
  qed
  with inv ok(2) hi n loop show ?thesis
    by (cases r) (auto simp: http_parse_host_def Let_def)
qed

section \<open>The result\<close>

text \<open>
  \<open>strtoul\<close> on memory that begins with a digit: it reads the digits that are there, and it stops
  within the memory if one byte of it is no digit.
\<close>

lemma digit_not_special: "IS_NUM c \<Longrightarrow> \<not> isspace c \<and> c \<noteq> CHR ''-'' \<and> c \<noteq> CHR ''+''"
  by (auto simp: isspace_def byte_simps)

lemma strtoul_digits:
  assumes "s \<noteq> []" "IS_NUM (hd s)"
  shows "strtoul s =
    (if takeWhile IS_NUM s = s then None
     else if 2 ^ 64 \<le> decimal (takeWhile IS_NUM s) then Some ULONG_MAX
     else Some (of_nat (decimal (takeWhile IS_NUM s))))"
proof -
  obtain c cs where s: "s = c # cs" using assms(1) by (cases s) auto
  with assms(2) digit_not_special [of c] have "dropWhile isspace s = s" by simp
  moreover have "length (takeWhile IS_NUM s) = length s \<longleftrightarrow> takeWhile IS_NUM s = s"
    by (metis length_takeWhile_le takeWhile_eq_take take_all_iff order_refl)
  ultimately show ?thesis
    using s assms(2) digit_not_special [of c] by (simp add: strtoul_def Let_def)
qed

lemma strtoul_Some:
  assumes "IS_NUM (hd s)" "c \<in> set s" "\<not> IS_NUM c"
  shows "\<exists>v. strtoul s = Some v"
proof -
  have "takeWhile IS_NUM s \<noteq> s" using assms(2,3) by (metis takeWhile_eq_all_conv)
  moreover have "s \<noteq> []" using assms(2) by auto
  ultimately show ?thesis using strtoul_digits [of s] assms(1) by auto
qed

lemma scan_fields_ok:
  assumes "scan_ok mem n u" "\<not> has_field u UF_HOST"
  shows "fields_ok mem n u"
proof -
  have "part_ok (field_byte f) mem n u f" if "has_field u f" for f
    using scan_okD [OF assms(1) that] that assms(2) by (cases f) (auto simp: field_byte_outside in_host_def)
  then show ?thesis by (simp add: fields_ok_def)
qed

lemma parse_url_cases:
  assumes "buflen \<le> length mem" "buflen < 65536"
  shows "(\<exists>u'. http_parser_parse_url mem buflen is_connect u = Some (1, u'))
    \<or> (\<exists>u'. http_parser_parse_url mem buflen is_connect u = url_finish mem is_connect u'
         \<and> fields_ok mem buflen u' \<and> (has_field u' UF_SCHEMA \<longrightarrow> has_field u' UF_HOST))"
proof -
  let ?u = "u\<lparr>url_port := 0, field_set := 0\<rparr>"
  let ?s = "if is_connect then s_req_server_start else s_req_spaces_before_url"
  have "scan_inv mem 0 ?s None ?u"
    by (simp add: scan_inv_def scan_ok_def old_ok_def url_class_def)
  from url_loop_scan [OF this assms(2,1), of "take buflen mem" False]
  have scan: "case url_loop (take buflen mem) 0 ?s None False ?u of
      Scan_end at u' \<Rightarrow> scan_ok mem buflen u' | Scan_fail u' \<Rightarrow> True | Scan_assert \<Rightarrow> False"
    by simp
  show ?thesis
  proof (cases "url_loop (take buflen mem) 0 ?s None False ?u")
    case (Scan_end at u')
    with scan have ok: "scan_ok mem buflen u'" by simp
    show ?thesis
    proof (cases "has_field u' UF_HOST")
      case True
      from http_parse_host_fields [OF ok True assms] obtain r u'' where
        host: "http_parse_host mem u' at = Some (r, u'')"
          "r \<Longrightarrow> fields_ok mem buflen u'' \<and> has_field u'' UF_HOST" by blast
      have "http_parser_parse_url mem buflen is_connect u =
          (if r then url_finish mem is_connect u'' else Some (1, u''))"
        using Scan_end True assms host(1) by (simp add: http_parser_parse_url_def Let_def)
      with host(2) show ?thesis by (cases r) auto
    next
      case False
      have "http_parser_parse_url mem buflen is_connect u =
          (if has_field u' UF_SCHEMA then Some (1, u') else url_finish mem is_connect u')"
        using Scan_end False assms by (simp add: http_parser_parse_url_def Let_def)
      with scan_fields_ok [OF ok False] show ?thesis by auto
    qed
  next
    case (Scan_fail u')
    with assms show ?thesis by (auto simp: http_parser_parse_url_def Let_def)
  next
    case Scan_assert
    with scan show ?thesis by simp
  qed
qed

lemma url_finish_result:
  assumes "url_finish mem is_connect u = Some (r, u')"
  shows "r = 0 \<or> r = 1" "has_field u' f = has_field u f" "field_data u' = field_data u"
    "field_set u' = field_set u" "r = 0 \<Longrightarrow> is_connect \<Longrightarrow> field_set u = uf_bit UF_HOST OR uf_bit UF_PORT"
  using assms
  by (auto simp: url_finish_def Let_def has_field_def split: if_splits option.splits)

text \<open>The port that is found begins with a digit, so \<open>strtoul\<close> reads digits only.\<close>

lemma port_digit:
  assumes "fields_ok mem n u" "n \<le> length mem" "has_field u UF_PORT"
  shows "unat (part_off (field_data u UF_PORT)) < n"
    "IS_NUM (hd (drop (unat (part_off (field_data u UF_PORT))) mem))"
proof -
  have ok: "part_ok (field_byte UF_PORT) mem n u UF_PORT"
    using assms by (simp add: fields_ok_def)
  then show less: "unat (part_off (field_data u UF_PORT)) < n"
    by (auto simp: part_ok_def part_end_def)
  from ok have "field_byte UF_PORT (mem ! unat (part_off (field_data u UF_PORT)))"
    by (simp add: part_ok_def part_end_def)
  with less assms(2) show "IS_NUM (hd (drop (unat (part_off (field_data u UF_PORT))) mem))"
    by (simp add: hd_drop_conv_nth)
qed

lemma url_finish_returns:
  assumes "fields_ok mem n u" "n \<le> length mem" "c \<in> set (drop n mem)" "\<not> IS_NUM c"
  shows "\<exists>r u'. url_finish mem is_connect u = Some (r, u')"
proof (cases "has_field u UF_PORT")
  case True
  note digit = port_digit [OF assms(1,2) True]
  have "c \<in> set (drop (unat (part_off (field_data u UF_PORT))) mem)"
    using assms(3) digit(1) set_drop_subset_set_drop [of "unat (part_off (field_data u UF_PORT))" n mem]
    by (auto simp: less_imp_le)
  from strtoul_Some [OF digit(2) this assms(4)] show ?thesis
    by (auto simp: url_finish_def)
qed (auto simp: url_finish_def)

lemma url_finish_fields:
  assumes "fields_ok mem n u" "url_finish mem is_connect u = Some (r, u')"
  shows "fields_ok mem n u'"
  using assms(1) url_finish_result(2,3) [OF assms(2)]
  by (simp add: fields_ok_def part_ok_def part_end_def)

text \<open>What every successful parse gives, and the port of a URL that has none.\<close>

lemma parse_url_success:
  assumes "buflen \<le> length mem" "buflen < 65536"
    and "http_parser_parse_url mem buflen is_connect u = Some (0, u')"
  shows "fields_ok mem buflen u'"
proof -
  from parse_url_cases [OF assms(1,2), of is_connect u] assms(3) obtain v where
    "url_finish mem is_connect v = Some (0, u')" "fields_ok mem buflen v"
    by (metis option.inject prod.inject zero_neq_one)
  then show ?thesis by (rule url_finish_fields [rotated])
qed

lemma url_port_parts [simp]:
  "url_port (set_part f p u) = url_port u" "url_port (inc_len f u) = url_port u"
  "url_port (start_field f i n u) = url_port u"
  by (simp_all add: set_part_def inc_len_def start_field_def)

lemma url_port_host_loop: "url_port (snd (host_loop bs i s u)) = url_port u"
proof (induction bs arbitrary: i s u)
  case (Cons ch bs)
  have "url_port (host_update s s' i u) = url_port u" for s'
    by (cases s') (simp_all add: host_update_def Let_def)
  with Cons show ?case by (simp add: Let_def)
qed simp

lemma url_port_scan:
  "url_loop bs i s old at u = Scan_end at' u' \<Longrightarrow> url_port u' = url_port u"
  by (induction bs i s old at u rule: url_loop.induct)
    (auto simp: Let_def split: url_class.splits if_splits)

lemma url_port_default:
  assumes "http_parser_parse_url mem buflen is_connect u = Some (0, u')" "\<not> has_field u' UF_PORT"
  shows "url_port u' = 0"
proof -
  let ?u = "u\<lparr>url_port := 0, field_set := 0\<rparr>"
  have fin: "url_port u' = url_port v" if "url_finish mem is_connect v = Some (0, u')" for v
    using that assms(2) by (auto simp: url_finish_def split: if_splits option.splits)
  have host: "url_port w = url_port v" if "http_parse_host mem v at = Some (r, w)" for v w at r
    using that url_port_host_loop
      [of "byte_range mem (unat (part_off (field_data v UF_HOST))) (unat (part_len (field_data v UF_HOST)))"
        "unat (part_off (field_data v UF_HOST))"
        "if at then s_http_userinfo_start else s_http_host_start"
        "set_part UF_HOST ((field_data v UF_HOST)\<lparr>part_len := 0\<rparr>) v"]
    by (auto simp: http_parse_host_def Let_def split: if_splits prod.splits option.splits)
  obtain at v where scan:
    "url_loop (take buflen mem) 0 (if is_connect then s_req_server_start else s_req_spaces_before_url)
       None False ?u = Scan_end at v"
    using assms(1) by (auto simp: http_parser_parse_url_def Let_def split: if_splits url_scan.splits)
  then have "url_port v = 0" by (simp add: url_port_scan)
  then show ?thesis
    using assms(1) scan
    by (auto simp: http_parser_parse_url_def Let_def fin host split: if_splits option.splits)
qed

text \<open>A fragment that is not found keeps the data it had.\<close>

lemma other_field_data:
  "f \<noteq> g \<Longrightarrow> field_data (set_part f p u) g = field_data u g"
  "f \<noteq> g \<Longrightarrow> field_data (inc_len f u) g = field_data u g"
  "f \<noteq> g \<Longrightarrow> field_data (start_field f i n u) g = field_data u g"
  by (simp_all add: set_part_def inc_len_def start_field_def)

lemma fragment_host_loop:
  "field_data (snd (host_loop bs i s u)) UF_FRAGMENT = field_data u UF_FRAGMENT
   \<and> has_field (snd (host_loop bs i s u)) UF_FRAGMENT = has_field u UF_FRAGMENT"
proof (induction bs arbitrary: i s u)
  case (Cons ch bs)
  have "field_data (host_update s s' i u) UF_FRAGMENT = field_data u UF_FRAGMENT
    \<and> has_field (host_update s s' i u) UF_FRAGMENT = has_field u UF_FRAGMENT" for s'
    by (cases s') (simp_all add: host_update_def Let_def other_field_data)
  with Cons show ?case by (simp add: Let_def)
qed simp

lemma fragment_scan:
  "url_loop bs i s old at u = Scan_end at' u' \<Longrightarrow> (old = Some UF_FRAGMENT \<Longrightarrow> has_field u UF_FRAGMENT) \<Longrightarrow>
   \<not> has_field u' UF_FRAGMENT \<Longrightarrow>
   field_data u' UF_FRAGMENT = field_data u UF_FRAGMENT \<and> \<not> has_field u UF_FRAGMENT"
proof (induction bs i s old at u rule: url_loop.induct)
  case (2 ch bs i s old at u)
  show ?case
  proof (cases "url_class (parse_url_char s ch)")
    case (In_field uf)
    with 2 show ?thesis
      by (cases "uf = UF_FRAGMENT") (auto simp: Let_def other_field_data split: if_splits)
  qed (use 2 in \<open>auto simp: Let_def\<close>)
qed simp

lemma parse_url_no_fragment:
  assumes "http_parser_parse_url mem n is_connect u = Some (0, u')" "\<not> has_field u' UF_FRAGMENT"
  shows "field_data u' UF_FRAGMENT = field_data u UF_FRAGMENT"
proof -
  let ?u = "u\<lparr>url_port := 0, field_set := 0\<rparr>"
  obtain at v where scan:
    "url_loop (take n mem) 0 (if is_connect then s_req_server_start else s_req_spaces_before_url)
       None False ?u = Scan_end at v"
    using assms(1) by (auto simp: http_parser_parse_url_def Let_def split: if_splits url_scan.splits)
  have host: "field_data w UF_FRAGMENT = field_data v UF_FRAGMENT \<and> has_field w UF_FRAGMENT = has_field v UF_FRAGMENT"
    if "http_parse_host mem v at = Some (r, w)" for r w
    using that fragment_host_loop
      [of "byte_range mem (unat (part_off (field_data v UF_HOST))) (unat (part_len (field_data v UF_HOST)))"
        "unat (part_off (field_data v UF_HOST))"
        "if at then s_http_userinfo_start else s_http_host_start"
        "set_part UF_HOST ((field_data v UF_HOST)\<lparr>part_len := 0\<rparr>) v"]
    by (auto simp: http_parse_host_def Let_def set_part_def has_field_def
        split: if_splits prod.splits option.splits)
  from assms(1) scan obtain w where fin: "url_finish mem is_connect w = Some (0, u')"
    and w: "field_data w UF_FRAGMENT = field_data v UF_FRAGMENT \<and> has_field w UF_FRAGMENT = has_field v UF_FRAGMENT"
    by (auto simp: http_parser_parse_url_def Let_def dest: host split: if_splits option.splits)
  from fragment_scan [OF scan] url_finish_result(2,3) [OF fin] w assms(2) show ?thesis by simp
qed

text \<open>
  C17. \<open>http_parser_parse_url\<close> on a buffer of less than 64 KiB that is followed in memory by some
  byte that is no digit (as the NUL of a C string is): it returns 0 or 1 without a failed
  assertion or a read out of range. When it returns 0, every field that \<open>field_set\<close> names is a
  non-empty part of the buffer with bytes of its class only, a schema comes with a host, and the
  target of a CONNECT is a host and a port and nothing else.
\<close>

theorem parse_url_fields:
  assumes "buflen \<le> length mem" "buflen < 65536" "c \<in> set (drop buflen mem)" "\<not> IS_NUM c"
  shows "\<exists>r u'. http_parser_parse_url mem buflen is_connect u = Some (r, u') \<and> (r = 0 \<or> r = 1)
    \<and> (r = 0 \<longrightarrow> fields_ok mem buflen u' \<and> (has_field u' UF_SCHEMA \<longrightarrow> has_field u' UF_HOST)
         \<and> (is_connect \<longrightarrow> (\<forall>f. has_field u' f \<longleftrightarrow> f = UF_HOST \<or> f = UF_PORT)))"
  using parse_url_cases [OF assms(1,2), of is_connect u]
proof (elim disjE exE conjE)
  fix u1 assume "http_parser_parse_url mem buflen is_connect u = Some (1, u1)"
  then show ?thesis by simp
next
  fix u1 assume eq: "http_parser_parse_url mem buflen is_connect u = url_finish mem is_connect u1"
    and ok: "fields_ok mem buflen u1" and host: "has_field u1 UF_SCHEMA \<longrightarrow> has_field u1 UF_HOST"
  from url_finish_returns [OF ok assms(1,3,4)] obtain r u' where
    fin: "url_finish mem is_connect u1 = Some (r, u')" by blast
  note res = url_finish_result [OF fin]
  have "fields_ok mem buflen u'"
    using ok fin by (rule url_finish_fields)
  moreover have "has_field u' f \<longleftrightarrow> f = UF_HOST \<or> f = UF_PORT" if "r = 0" is_connect for f
    using res(5) [OF that] res(2) [of f] by (simp add: has_field_bit bit_or_iff bit_uf_bit)
  ultimately show ?thesis
    using eq fin res host by auto
qed

definition blank_url :: http_parser_url where
  "blank_url = \<lparr>field_set = 0, url_port = 0, field_data = \<lambda>_. \<lparr>part_off = 0, part_len = 0\<rparr>\<rparr>"

lemma parse_url_fields_witness:
  "\<exists>r u'. http_parser_parse_url (''h:1'' @ [NUL]) 3 True
      blank_url = Some (r, u')"
proof -
  have "\<not> IS_NUM NUL" by (simp add: byte_simps)
  then show ?thesis
    using parse_url_fields [of 3 "''h:1'' @ [NUL]" NUL True blank_url]
    by auto
qed

section \<open>The port\<close>

text \<open>The digits that \<open>strtoul\<close> finds at the port: those of the field, and those that follow it.\<close>

definition port_digits :: "byte list \<Rightarrow> http_parser_url \<Rightarrow> byte list" where
  "port_digits mem u = takeWhile IS_NUM (drop (unat (part_off (field_data u UF_PORT))) mem)"

lemma takeWhile_digits_append: "list_all P xs \<Longrightarrow> takeWhile P (xs @ ys) = xs @ takeWhile P ys"
  by (induction xs) auto

lemma port_digits_field:
  assumes "fields_ok mem n u" "n \<le> length mem" "has_field u UF_PORT"
  shows "port_digits mem u = field_bytes mem u UF_PORT @ takeWhile IS_NUM (drop (part_end u UF_PORT) mem)"
    "part_end u UF_PORT \<le> n"
proof -
  let ?lo = "unat (part_off (field_data u UF_PORT))" and ?n = "unat (part_len (field_data u UF_PORT))"
  have part: "part_ok IS_NUM mem n u UF_PORT"
    using assms(1,3) by (auto simp: fields_ok_def part_ok_def)
  have hi: "part_end u UF_PORT = ?lo + ?n" by (simp add: part_end_def)
  from part show "part_end u UF_PORT \<le> n" by (simp add: part_ok_def)
  have "list_all IS_NUM (field_bytes mem u UF_PORT)"
    using part assms(2) hi by (auto simp: field_bytes_def byte_range_def list_all_length part_ok_def)
  moreover have "drop ?lo mem = field_bytes mem u UF_PORT @ drop (part_end u UF_PORT) mem"
    by (simp add: field_bytes_def byte_range_def hi add.commute flip: drop_drop)
  ultimately show "port_digits mem u = field_bytes mem u UF_PORT @ takeWhile IS_NUM (drop (part_end u UF_PORT) mem)"
    by (simp add: port_digits_def takeWhile_digits_append)
qed

lemma unat_of_nat64: "n < 2 ^ 64 \<Longrightarrow> unat (of_nat n :: uint64) = n"
  by (intro unat_of_nat_small) simp

lemma ucast_port: "n < 65536 \<Longrightarrow> (ucast (of_nat n :: uint64) :: uint16) = of_nat n"
  by (simp add: word_unat_eq_iff unsigned_ucast_eq unat_of_nat64 unat_of_nat16 take_bit_nat_eq_self)

lemma url_finish_port:
  assumes "fields_ok mem n u" "n \<le> length mem" "has_field u UF_PORT"
  shows "url_finish mem is_connect u =
    (if is_connect \<and> field_set u \<noteq> uf_bit UF_HOST OR uf_bit UF_PORT then Some (1, u)
     else if port_digits mem u = drop (unat (part_off (field_data u UF_PORT))) mem then None
     else if 0xffff < decimal (port_digits mem u) then Some (1, u)
     else Some (0, u\<lparr>url_port := of_nat (decimal (port_digits mem u))\<rparr>))"
proof -
  let ?s = "drop (unat (part_off (field_data u UF_PORT))) mem" and ?v = "decimal (port_digits mem u)"
  have "?s \<noteq> []" "IS_NUM (hd ?s)"
    using port_digit [OF assms] assms(2) by auto
  from strtoul_digits [OF this] have s: "strtoul ?s =
      (if port_digits mem u = ?s then None else if 2 ^ 64 \<le> ?v then Some ULONG_MAX else Some (of_nat ?v))"
    by (simp only: port_digits_def)
  have "0xffff < (of_nat ?v :: uint64) \<longleftrightarrow> 0xffff < ?v" if "?v < 2 ^ 64"
    using unat_of_nat64 [OF that] by (simp add: word_less_nat_alt)
  then show ?thesis
    using assms(3) s by (auto simp: url_finish_def ULONG_MAX_def ucast_port)
qed

lemma parse_url_port_digits:
  assumes "buflen \<le> length mem" "buflen < 65536"
    and "http_parser_parse_url mem buflen is_connect u = Some (0, u')" "has_field u' UF_PORT"
  shows "unat (url_port u') = decimal (port_digits mem u') \<and> decimal (port_digits mem u') < 65536
    \<and> port_digits mem u' = field_bytes mem u' UF_PORT @ takeWhile IS_NUM (drop (part_end u' UF_PORT) mem)
    \<and> (part_end u' UF_PORT < length mem \<and> \<not> IS_NUM (mem ! part_end u' UF_PORT) \<longrightarrow>
         unat (url_port u') = decimal (field_bytes mem u' UF_PORT))"
proof -
  from parse_url_cases [OF assms(1,2), of is_connect u] assms(3) obtain u1 where
    fin: "url_finish mem is_connect u1 = Some (0, u')" and ok: "fields_ok mem buflen u1"
    by (metis option.inject prod.inject zero_neq_one)
  note res = url_finish_result [OF fin]
  have port: "has_field u1 UF_PORT" and "port_digits mem u1 = port_digits mem u'"
    using res(2,3) assms(4) by (simp_all add: port_digits_def)
  moreover note digits = port_digits_field [OF url_finish_fields [OF ok fin] assms(1,4)]
  moreover have "takeWhile IS_NUM (drop (part_end u' UF_PORT) mem) = []"
    if "part_end u' UF_PORT < length mem" "\<not> IS_NUM (mem ! part_end u' UF_PORT)"
    using that by (simp add: Cons_nth_drop_Suc [symmetric])
  moreover have "\<not> 0xffff < decimal (port_digits mem u1)"
    and u': "u' = u1\<lparr>url_port := of_nat (decimal (port_digits mem u1))\<rparr>"
    using fin by (auto simp: url_finish_port [OF ok assms(1) port] split: if_splits)
  moreover have "url_port u' = of_nat (decimal (port_digits mem u1))"
    using arg_cong [OF u', of url_port] by simp
  ultimately show ?thesis
    by (auto simp: unat_of_nat16)
qed

lemma parse_url_schema_host:
  assumes "n \<le> length mem" "n < 65536"
    and "http_parser_parse_url mem n is_connect u = Some (0, u')" "has_field u' UF_SCHEMA"
  shows "has_field u' UF_HOST"
proof -
  from parse_url_cases [OF assms(1,2), of is_connect u] assms(3) obtain v where
    "url_finish mem is_connect v = Some (0, u')" "has_field v UF_SCHEMA \<longrightarrow> has_field v UF_HOST"
    by (metis option.inject prod.inject zero_neq_one)
  with url_finish_result(2) assms(4) show ?thesis by blast
qed

text \<open>
  C19. The port: when \<open>http_parser_parse_url\<close> returns 0 with a port, \<open>port\<close> is, below 65536, the
  number denoted by the digits that memory holds from the start of the port field on: those of
  the field, and any that follow it without a gap, also behind the buffer. So it is the number
  of the field exactly when its digits and those that follow it denote the same, as when the byte
  after the field is no digit.
\<close>

theorem parse_url_port:
  assumes "buflen \<le> length mem" "buflen < 65536"
    and "http_parser_parse_url mem buflen is_connect u = Some (0, u')" "has_field u' UF_PORT"
  shows "unat (url_port u') = decimal (port_digits mem u') \<and> decimal (port_digits mem u') < 65536
    \<and> port_digits mem u' = field_bytes mem u' UF_PORT @ takeWhile IS_NUM (drop (part_end u' UF_PORT) mem)
    \<and> (part_end u' UF_PORT < length mem \<and> \<not> IS_NUM (mem ! part_end u' UF_PORT) \<longrightarrow>
         unat (url_port u') = decimal (field_bytes mem u' UF_PORT))"
  using assms by (rule parse_url_port_digits)

text \<open>What a concrete URL is evaluated with.\<close>

lemmas url_eval = http_parser_parse_url_def Let_def parse_url_char_def parse_url_server_def
  url_class_def byte_simps IS_USERINFO_CHAR_def IS_ALPHANUM_def IS_MARK_def start_field_def
  set_part_def inc_len_def http_parse_host_def has_field_bit uf_bit_def byte_range_def bit_or_iff
  IS_HOST_CHAR_def host_update_def url_finish_def strtoul_def isspace_def decimal_def
  digit_val_def schar_def host_end_ok_def

lemma parse_url_port_witness:
  "\<exists>u'. http_parser_parse_url (''http://h:80'' @ [NUL]) 11 False blank_url = Some (0, u')
    \<and> unat (url_port u') = decimal (field_bytes (''http://h:80'' @ [NUL]) u' UF_PORT)"
proof -
  have "\<exists>u'. http_parser_parse_url (''http://h:80'' @ [NUL]) 11 False blank_url = Some (0, u')
      \<and> has_field u' UF_PORT \<and> part_end u' UF_PORT = 11"
    by (simp add: url_eval blank_url_def part_end_def)
  then obtain u' where u': "http_parser_parse_url (''http://h:80'' @ [NUL]) 11 False blank_url = Some (0, u')"
    "has_field u' UF_PORT" "part_end u' UF_PORT = 11" by blast
  have "\<not> IS_NUM ((''http://h:80'' @ [NUL]) ! 11)" by (simp add: byte_simps)
  with parse_url_port [OF _ _ u'(1,2)] u' show ?thesis by auto
qed

text \<open>All but the port depends on the buffer only.\<close>

lemma byte_range_prefix:
  "take n (mem :: 'a list) = take n mem' \<Longrightarrow> lo + k \<le> n \<Longrightarrow> byte_range mem lo k = byte_range mem' lo k"
proof -
  assume same: "take n mem = take n mem'" and "lo + k \<le> n"
  then have "take (k + lo) xs = take (k + lo) (take n xs)" for xs :: "'a list" by simp
  from this [of mem] this [of mem'] same have "take (k + lo) mem = take (k + lo) mem'" by metis
  then show ?thesis by (simp only: byte_range_def take_drop)
qed

lemma parse_url_memory:
  assumes "take n mem = take n mem'" "n \<le> length mem" "n \<le> length mem'" "n < 65536"
  shows "(\<exists>v. http_parser_parse_url mem n is_connect u = Some (1, v) \<and>
             http_parser_parse_url mem' n is_connect u = Some (1, v))
    \<or> (\<exists>v. http_parser_parse_url mem n is_connect u = url_finish mem is_connect v
         \<and> http_parser_parse_url mem' n is_connect u = url_finish mem' is_connect v
         \<and> fields_ok mem n v \<and> fields_ok mem' n v)"
proof -
  let ?u = "u\<lparr>url_port := 0, field_set := 0\<rparr>"
  let ?s = "if is_connect then s_req_server_start else s_req_spaces_before_url"
  note parse = http_parser_parse_url_def Let_def
  have "scan_inv mem 0 ?s None ?u" "scan_inv mem' 0 ?s None ?u"
    by (simp_all add: scan_inv_def scan_ok_def old_ok_def url_class_def)
  note scan = url_loop_scan [OF this(1) assms(4,2), of "take n mem" False]
    url_loop_scan [OF this(2) assms(4,3), of "take n mem'" False]
  show ?thesis
  proof (cases "url_loop (take n mem) 0 ?s None False ?u")
    case (Scan_end at v)
    with scan have ok: "scan_ok mem n v" "scan_ok mem' n v" by (simp_all add: assms(1) [symmetric])
    show ?thesis
    proof (cases "has_field v UF_HOST")
      case True
      from http_parse_host_fields [OF ok(1) True assms(2,4)] obtain r w where
        host: "http_parse_host mem v at = Some (r, w)" "r \<Longrightarrow> fields_ok mem n w" by blast
      from http_parse_host_fields [OF ok(2) True assms(3,4)] obtain r' w' where
        host': "http_parse_host mem' v at = Some (r', w')" "r' \<Longrightarrow> fields_ok mem' n w'" by blast
      have "part_end v UF_HOST \<le> n" using scan_okD [OF ok(1) True] by (simp add: part_ok_def)
      from byte_range_prefix [OF assms(1) this [unfolded part_end_def]] host(1) host'(1)
      have "r' = r \<and> w' = w"
        by (auto simp: http_parse_host_def Let_def split: if_splits option.splits prod.splits)
      with Scan_end True assms host host' show ?thesis by (cases r) (auto simp: parse)
    next
      case False
      with scan_fields_ok [OF ok(1) False] scan_fields_ok [OF ok(2) False] Scan_end assms show ?thesis
        by (cases "has_field v UF_SCHEMA") (auto simp: parse)
    qed
  next
    case (Scan_fail v)
    with assms show ?thesis by (simp add: parse)
  next
    case Scan_assert
    with scan(1) show ?thesis by simp
  qed
qed

text \<open>
  C32. \<open>strtoul\<close> does not know where the buffer ends. Take any buffer that parses with a port at its
  very end when a byte that is no digit follows it in memory. If any digits \<open>ds\<close> stand between the
  buffer and that byte, the same call on the same buffer takes them for digits of the port: it reports the
  port that the field's digits followed by \<open>ds\<close> denote, with everything else unchanged, or fails
  when this is above 65535.
\<close>

theorem parse_url_port_overrun:
  assumes "length buf < 65536" "\<not> IS_NUM c" "list_all IS_NUM ds"
    and "http_parser_parse_url (buf @ c # rest) (length buf) is_connect u = Some (0, u')"
    and "has_field u' UF_PORT" "part_end u' UF_PORT = length buf"
  shows "\<exists>v. http_parser_parse_url (buf @ ds @ c # rest) (length buf) is_connect u =
      (if 65535 < decimal (field_bytes buf u' UF_PORT @ ds) then Some (1, v)
       else Some (0, u'\<lparr>url_port := of_nat (decimal (field_bytes buf u' UF_PORT @ ds))\<rparr>))"
proof -
  let ?m = "buf @ c # rest" and ?m' = "buf @ ds @ c # rest" and ?n = "length buf"
  have same: "take ?n ?m = take ?n ?m'" by simp
  from parse_url_memory [OF same _ _ assms(1), of is_connect u] assms(4) obtain v where
    fin: "url_finish ?m is_connect v = Some (0, u')" and ok: "fields_ok ?m ?n v" "fields_ok ?m' ?n v"
    and parse: "http_parser_parse_url ?m' ?n is_connect u = url_finish ?m' is_connect v"
    by auto
  note res = url_finish_result [OF fin]
  have port: "has_field v UF_PORT" and data: "field_data v = field_data u'"
    using res(2,3) assms(5) by simp_all
  have bytes: "field_bytes ?m' v UF_PORT = field_bytes buf u' UF_PORT"
    using assms(6) by (simp add: field_bytes_def byte_range_def part_end_def data)
  have "port_digits ?m' v = field_bytes buf u' UF_PORT @ ds"
    using port_digits_field(1) [OF ok(2) _ port] assms(2,3,6) bytes
    by (simp add: part_end_def data takeWhile_digits_append)
  moreover have "port_digits ?m' v \<noteq> drop (unat (part_off (field_data v UF_PORT))) ?m'"
  proof -
    have "unat (part_off (field_data v UF_PORT)) \<le> ?n" using port_digit(1) [OF ok(1) _ port] by simp
    then have "c \<in> set (drop (unat (part_off (field_data v UF_PORT))) ?m')" by simp
    with assms(2) show ?thesis unfolding port_digits_def by (metis set_takeWhileD)
  qed
  moreover have "\<not> (is_connect \<and> field_set v \<noteq> uf_bit UF_HOST OR uf_bit UF_PORT)"
    using fin by (auto simp: url_finish_def split: if_splits)
  moreover have "u'\<lparr>url_port := x\<rparr> = v\<lparr>url_port := x\<rparr>" for x
    using fin by (auto simp: url_finish_def port split: if_splits option.splits)
  ultimately show ?thesis
    unfolding parse by (auto simp: url_finish_port [OF ok(2) _ port])
qed

text \<open>For the 11 bytes \<open>http://h:80\<close> and the digits \<open>80\<close> behind them the port is 8080.\<close>

lemma parse_url_port_overrun_witness:
  "\<exists>u'. http_parser_parse_url (''http://h:80'' @ ''80'' @ [NUL]) (length ''http://h:80'') False blank_url = Some (0, u')
    \<and> url_port u' = 8080"
proof -
  have "\<exists>u'. http_parser_parse_url (''http://h:80'' @ NUL # []) (length ''http://h:80'') False blank_url = Some (0, u')
      \<and> has_field u' UF_PORT \<and> part_end u' UF_PORT = length ''http://h:80'' \<and> field_bytes ''http://h:80'' u' UF_PORT = ''80''"
    by (simp add: url_eval blank_url_def part_end_def field_bytes_def)
  then obtain u' where u': "http_parser_parse_url (''http://h:80'' @ NUL # []) (length ''http://h:80'') False blank_url = Some (0, u')"
    "has_field u' UF_PORT" "part_end u' UF_PORT = length ''http://h:80''" "field_bytes ''http://h:80'' u' UF_PORT = ''80''"
    by blast
  have "\<not> IS_NUM NUL" "list_all IS_NUM ''80''" by (simp_all add: byte_simps)
  from parse_url_port_overrun [OF _ this u'(1-3)] show ?thesis
    unfolding u'(4) by (simp add: decimal_def digit_val_def schar_def)
qed

end
