(* ===== verification/Url_Round_Trip.thy ===== *)
theory Url_Round_Trip
  imports Url_Fields
begin

text \<open>
  Round trip: a URL put together from its parts is taken apart into the same parts. The lemmas
  run the two loops over a whole part at a time.
\<close>

section \<open>Running the scan over a part\<close>

text \<open>\<open>k\<close> more bytes of a part.\<close>

definition add_len :: "url_field \<Rightarrow> nat \<Rightarrow> http_parser_url \<Rightarrow> http_parser_url" where
  "add_len f k u = set_part f ((field_data u f)\<lparr>part_len := part_len (field_data u f) + of_nat k\<rparr>) u"

lemma set_part_set_part [simp]: "set_part f p (set_part f q u) = set_part f p u"
  by (simp add: set_part_def)

lemma set_part_same [simp]: "set_part f (field_data u f) u = u"
  by (simp add: set_part_def)

lemma add_len_0 [simp]: "add_len f 0 u = u"
  by (simp add: add_len_def)

lemma add_len_inc: "add_len f k (inc_len f u) = add_len f (Suc k) u"
  by (simp add: add_len_def inc_len_def algebra_simps)

lemma add_len_start: "add_len f k (start_field f i n u) = start_field f i (n + of_nat k) u"
  by (simp add: add_len_def start_field_def set_part_def)

lemma inc_len_start: "inc_len f (start_field f i n u) = start_field f i (n + 1) u"
  by (simp add: inc_len_def start_field_def set_part_def)

lemma url_loop_more:
  assumes "\<forall>c\<in>set w. parse_url_char s c = s" "url_class s = In_field f" "s \<noteq> s_req_server_with_at"
  shows "url_loop (w @ bs) i s (Some f) at u = url_loop bs (i + length w) s (Some f) at (add_len f (length w) u)"
  using assms by (induction w arbitrary: i u) (simp_all add: add_len_inc)

lemma url_loop_part:
  assumes "parse_url_char s c = s'" "url_class s' = In_field f" "s' \<noteq> s_req_server_with_at"
    and "Some f \<noteq> old_uf" "\<forall>c\<in>set w. parse_url_char s' c = s'"
  shows "url_loop (c # w @ bs) i s old_uf at u =
    url_loop bs (i + length (c # w)) s' (Some f) at (start_field f i (of_nat (length (c # w))) u)"
  using assms url_loop_more [of w s' f bs "Suc i" at "start_field f i 1 u"]
  by (simp add: add_len_start)

lemma url_loop_delimiter:
  assumes "parse_url_char s c = s'" "url_class s' = Delimiter"
  shows "url_loop (c # bs) i s old_uf at u = url_loop bs (Suc i) s' old_uf at u"
  using assms by (cases "s' = s_req_server_with_at") (simp_all add: url_class_def)

text \<open>The classes of bytes that stay in a part.\<close>

lemma url_char_not_special: "IS_URL_CHAR c \<Longrightarrow> c \<noteq> CHR '' '' \<and> c \<noteq> CR \<and> c \<noteq> LF \<and> c \<noteq> TAB \<and> c \<noteq> FF"
  using unprintable [of c] by auto

lemma alpha_not_special: "IS_ALPHA c \<Longrightarrow> c \<noteq> CHR '' '' \<and> c \<noteq> CR \<and> c \<noteq> LF \<and> c \<noteq> TAB \<and> c \<noteq> FF"
  using unprintable [of c] by auto

lemma stays_schema: "IS_ALPHA c \<Longrightarrow> parse_url_char s_req_schema c = s_req_schema"
  using alpha_not_special [of c] by (simp add: parse_url_char_def)

lemma starts_schema: "IS_ALPHA c \<Longrightarrow> parse_url_char s_req_spaces_before_url c = s_req_schema"
  using alpha_not_special [of c] by (auto simp: parse_url_char_def byte_simps)

lemma stays_path: "IS_URL_CHAR c \<Longrightarrow> parse_url_char s_req_path c = s_req_path"
  using url_char_not_special [of c] by (simp add: parse_url_char_def)

lemma stays_query: "IS_URL_CHAR c \<or> c = CHR ''?'' \<Longrightarrow> parse_url_char s_req_query_string c = s_req_query_string"
  using url_char_not_special [of c] by (auto simp: parse_url_char_def)

lemma starts_query:
  "IS_URL_CHAR c \<or> c = CHR ''?'' \<Longrightarrow> parse_url_char s_req_query_string_start c = s_req_query_string"
  using url_char_not_special [of c] by (auto simp: parse_url_char_def)

lemma stays_fragment:
  "IS_URL_CHAR c \<or> c = CHR ''?'' \<or> c = CHR ''#'' \<Longrightarrow> parse_url_char s_req_fragment c = s_req_fragment"
  using url_char_not_special [of c] by (auto simp: parse_url_char_def)

lemma starts_fragment:
  "IS_URL_CHAR c \<or> c = CHR ''?'' \<Longrightarrow> parse_url_char s_req_fragment_start c = s_req_fragment"
  using url_char_not_special [of c] by (auto simp: parse_url_char_def)

text \<open>The server part, without and with user info.\<close>

lemma userinfo_not_special:
  "IS_USERINFO_CHAR c \<Longrightarrow> c \<noteq> CHR '' '' \<and> c \<noteq> CR \<and> c \<noteq> LF \<and> c \<noteq> TAB \<and> c \<noteq> FF
     \<and> c \<noteq> CHR ''/'' \<and> c \<noteq> CHR ''?'' \<and> c \<noteq> CHR ''@''"
  by (auto simp: IS_USERINFO_CHAR_def IS_ALPHANUM_def IS_MARK_def byte_simps)

lemma in_server:
  "IS_USERINFO_CHAR c \<Longrightarrow> parse_url_char s_req_server_start c = s_req_server"
  "IS_USERINFO_CHAR c \<Longrightarrow> parse_url_char s_req_server c = s_req_server"
  "IS_USERINFO_CHAR c \<Longrightarrow> parse_url_char s_req_server_with_at c = s_req_server"
  using userinfo_not_special [of c] by (simp_all add: parse_url_char_def parse_url_server_def)

lemma host_char_userinfo: "IS_HOST_CHAR c \<Longrightarrow> IS_USERINFO_CHAR c"
  by (auto simp: IS_HOST_CHAR_def IS_USERINFO_CHAR_def IS_MARK_def)

lemma colon_userinfo: "IS_USERINFO_CHAR (CHR '':'')"
  by (simp add: IS_USERINFO_CHAR_def)

lemma num_userinfo: "IS_NUM c \<Longrightarrow> IS_USERINFO_CHAR c"
  by (simp add: IS_USERINFO_CHAR_def IS_ALPHANUM_def)

lemma url_loop_server:
  assumes "\<forall>c\<in>set (a # user). IS_USERINFO_CHAR c" "\<forall>c\<in>set (h # hs). IS_USERINFO_CHAR c"
    and "old_uf \<noteq> Some UF_HOST"
  shows "url_loop ((a # user) @ ''@'' @ (h # hs) @ bs) i s_req_server_start old_uf at u =
    url_loop bs (i + (length (a # user) + 1 + length (h # hs))) s_req_server (Some UF_HOST) True
      (start_field UF_HOST i (of_nat (length (a # user) + 1 + length (h # hs))) u)"
proof -
  have cls: "url_class s_req_server = In_field UF_HOST" "url_class s_req_server_with_at = In_field UF_HOST"
    by (simp_all add: url_class_def)
  have user: "url_loop (a # user @ ''@'' @ (h # hs) @ bs) i s_req_server_start old_uf at u =
      url_loop (''@'' @ (h # hs) @ bs) (i + length (a # user)) s_req_server (Some UF_HOST) at
        (start_field UF_HOST i (of_nat (length (a # user))) u)"
    using assms by (intro url_loop_part) (simp_all add: in_server cls(1))
  have "parse_url_char s_req_server (CHR ''@'') = s_req_server_with_at"
    by (simp add: parse_url_char_def parse_url_server_def)
  moreover have "url_loop (hs @ bs) j s_req_server (Some UF_HOST) True v =
      url_loop bs (j + length hs) s_req_server (Some UF_HOST) True (add_len UF_HOST (length hs) v)" for j v
    using assms(2) by (intro url_loop_more) (simp_all add: in_server cls(1))
  ultimately show ?thesis
    using assms(2) user by (simp add: cls in_server add_len_inc add_len_start)
      (simp add: add_len_start inc_len_start algebra_simps)
qed

section \<open>Running the host loop over a part\<close>

lemma host_loop_more:
  assumes "\<forall>c\<in>set w. http_parse_host_char s c = s" "host_field s = Some f" "s \<noteq> s_http_host_dead"
  shows "host_loop (w @ bs) i s u = host_loop bs (i + length w) s (add_len f (length w) u)"
  using assms
proof (induction w arbitrary: i u)
  case (Cons c w)
  then show ?case
    by (simp add: Let_def host_update_field host_begin_def add_len_inc)
qed simp

lemma host_loop_part:
  assumes "http_parse_host_char s c = s'" "s \<noteq> s'" "host_field s' = Some f" "s' \<noteq> s_http_host_dead"
    and "\<forall>c\<in>set w. http_parse_host_char s' c = s'"
  shows "host_loop (c # w @ bs) i s u =
    host_loop bs (i + length (c # w)) s' (add_len f (length (c # w)) (host_begin s s' f i u))"
  using assms host_loop_more [of w s' f bs "Suc i" "inc_len f (host_begin s s' f i u)"]
  by (simp add: Let_def host_update_field add_len_inc)

lemma host_loop_delimiter:
  assumes "http_parse_host_char s c = s'" "host_field s' = None" "s' \<noteq> s_http_host_dead"
  shows "host_loop (c # bs) i s u = host_loop bs (Suc i) s' u"
  using assms by (simp add: Let_def host_update_field)

lemma host_chars:
  "IS_USERINFO_CHAR c \<Longrightarrow> http_parse_host_char s_http_userinfo_start c = s_http_userinfo"
  "IS_USERINFO_CHAR c \<Longrightarrow> http_parse_host_char s_http_userinfo c = s_http_userinfo"
  "IS_HOST_CHAR c \<Longrightarrow> http_parse_host_char s_http_host_start c = s_http_host"
  "IS_HOST_CHAR c \<Longrightarrow> http_parse_host_char s_http_host c = s_http_host"
  "IS_NUM c \<Longrightarrow> http_parse_host_char s_http_host_port_start c = s_http_host_port"
  "IS_NUM c \<Longrightarrow> http_parse_host_char s_http_host_port c = s_http_host_port"
proof -
  show "IS_HOST_CHAR c \<Longrightarrow> http_parse_host_char s_http_host_start c = s_http_host"
    by (auto simp: IS_HOST_CHAR_def IS_ALPHANUM_def byte_simps)
qed (use userinfo_not_special [of c] in simp_all)

text \<open>The host part \<open>user@host:port\<close>.\<close>

lemma host_loop_full:
  assumes "\<forall>c\<in>set (a # user). IS_USERINFO_CHAR c" "\<forall>c\<in>set (h # hs). IS_HOST_CHAR c"
    and "\<forall>c\<in>set (p # ps). IS_NUM c"
  shows "host_loop ((a # user) @ ''@'' @ (h # hs) @ '':'' @ (p # ps)) i s_http_userinfo_start u =
    (Some s_http_host_port,
     start_field UF_PORT (i + length (a # user) + 1 + length (h # hs) + 1) (of_nat (length (p # ps)))
      (add_len UF_HOST (length (h # hs))
       (host_begin s_http_host_start s_http_host UF_HOST (i + length (a # user) + 1)
        (start_field UF_USERINFO i (of_nat (length (a # user))) u))))"
proof -
  have user: "host_loop (a # user @ ''@'' @ (h # hs) @ '':'' @ (p # ps)) i s_http_userinfo_start u =
      host_loop (''@'' @ (h # hs) @ '':'' @ (p # ps)) (i + length (a # user)) s_http_userinfo
        (start_field UF_USERINFO i (of_nat (length (a # user))) u)"
    using assms(1) by (subst host_loop_part [of _ _ s_http_userinfo UF_USERINFO])
      (auto simp: host_begin_def add_len_start dest: userinfo_not_special)
  have host: "host_loop (h # hs @ '':'' @ (p # ps)) j s_http_host_start v =
      host_loop ('':'' @ (p # ps)) (j + length (h # hs)) s_http_host
        (add_len UF_HOST (length (h # hs)) (host_begin s_http_host_start s_http_host UF_HOST j v))" for j v
    using assms(2) by (intro host_loop_part)
      (simp_all add: host_chars del: http_parse_host_char.simps)
  have port: "host_loop (p # ps @ []) j s_http_host_port_start v =
      host_loop [] (j + length (p # ps)) s_http_host_port
        (start_field UF_PORT j (of_nat (length (p # ps))) v)" for j v
    using assms(3) by (subst host_loop_part [of _ _ s_http_host_port UF_PORT])
      (simp_all add: host_chars host_begin_def add_len_start)
  have at: "host_loop (CHR ''@'' # bs) j s_http_userinfo v = host_loop bs (Suc j) s_http_host_start v" for bs j v
    by (rule host_loop_delimiter) simp_all
  have "\<not> IS_HOST_CHAR (CHR '':'')" by (simp add: IS_HOST_CHAR_def IS_ALPHANUM_def byte_simps)
  then have colon: "host_loop (CHR '':'' # bs) j s_http_host v = host_loop bs (Suc j) s_http_host_port_start v" for bs j v
    by (intro host_loop_delimiter) simp_all
  show ?thesis
    using user host port by (simp del: host_loop.simps(2) add: at colon)
qed

section \<open>Taking a full URL apart\<close>

definition full_url ::
  "byte list \<Rightarrow> byte list \<Rightarrow> byte list \<Rightarrow> byte list \<Rightarrow> byte list \<Rightarrow> byte list \<Rightarrow> byte list \<Rightarrow> byte list"
where
  "full_url sch user host prt path query frag =
     sch @ ''://'' @ user @ ''@'' @ host @ '':'' @ prt @ path @ ''?'' @ query @ ''#'' @ frag"

text \<open>The offsets of the seven parts.\<close>

definition url_offsets ::
  "byte list \<Rightarrow> byte list \<Rightarrow> byte list \<Rightarrow> byte list \<Rightarrow> byte list \<Rightarrow> byte list \<Rightarrow> url_field \<Rightarrow> nat"
where
  "url_offsets sch user host prt path query f =
     (case f of
        UF_SCHEMA \<Rightarrow> 0
      | UF_USERINFO \<Rightarrow> length sch + 3
      | UF_HOST \<Rightarrow> length sch + 3 + length user + 1
      | UF_PORT \<Rightarrow> length sch + 3 + length user + 1 + length host + 1
      | UF_PATH \<Rightarrow> length sch + 3 + length user + 1 + length host + 1 + length prt
      | UF_QUERY \<Rightarrow> length sch + 3 + length user + 1 + length host + 1 + length prt + length path + 1
      | UF_FRAGMENT \<Rightarrow> length sch + 3 + length user + 1 + length host + 1 + length prt + length path + 1
          + length query + 1)"

definition url_parts_ok ::
  "byte list \<Rightarrow> byte list \<Rightarrow> byte list \<Rightarrow> byte list \<Rightarrow> byte list \<Rightarrow> byte list \<Rightarrow> byte list \<Rightarrow> bool"
where
  "url_parts_ok sch user host prt path query frag \<longleftrightarrow>
     sch \<noteq> [] \<and> list_all IS_ALPHA sch \<and> user \<noteq> [] \<and> list_all IS_USERINFO_CHAR user
     \<and> host \<noteq> [] \<and> list_all IS_HOST_CHAR host \<and> prt \<noteq> [] \<and> list_all IS_NUM prt
     \<and> path \<noteq> [] \<and> hd path = CHR ''/'' \<and> list_all IS_URL_CHAR path
     \<and> query \<noteq> [] \<and> list_all (\<lambda>c. IS_URL_CHAR c \<or> c = CHR ''?'') query
     \<and> frag \<noteq> [] \<and> hd frag \<noteq> CHR ''#'' \<and> list_all (\<lambda>c. IS_URL_CHAR c \<or> c = CHR ''?'' \<or> c = CHR ''#'') frag
     \<and> length (full_url sch user host prt path query frag) < 65536"

lemma url_classes:
  "url_class s_req_schema = In_field UF_SCHEMA" "url_class s_req_server = In_field UF_HOST"
  "url_class s_req_path = In_field UF_PATH" "url_class s_req_query_string = In_field UF_QUERY"
  "url_class s_req_fragment = In_field UF_FRAGMENT"
  by (simp_all add: url_class_def)

text \<open>The scan of the three parts after the server, from offset \<open>i\<close>.\<close>

lemma url_loop_tail:
  assumes "list_all IS_URL_CHAR (CHR ''/'' # path)"
    and "list_all (\<lambda>c. IS_URL_CHAR c \<or> c = CHR ''?'') (q # query)"
    and "list_all (\<lambda>c. IS_URL_CHAR c \<or> c = CHR ''?'' \<or> c = CHR ''#'') (g # frag)" "g \<noteq> CHR ''#''"
  shows "url_loop ((CHR ''/'' # path) @ ''?'' @ (q # query) @ ''#'' @ (g # frag)) i s_req_server
      (Some UF_HOST) at u =
    Scan_end at
     (start_field UF_FRAGMENT (i + length (CHR ''/'' # path) + 1 + length (q # query) + 1)
       (of_nat (length (g # frag)))
     (start_field UF_QUERY (i + length (CHR ''/'' # path) + 1) (of_nat (length (q # query)))
     (start_field UF_PATH i (of_nat (length (CHR ''/'' # path))) u)))"
proof -
  have path: "url_loop (CHR ''/'' # path @ bs) j s_req_server (Some UF_HOST) at v =
      url_loop bs (j + length (CHR ''/'' # path)) s_req_path (Some UF_PATH) at
        (start_field UF_PATH j (of_nat (length (CHR ''/'' # path))) v)" for bs j v
    using assms(1)
    by (intro url_loop_part)
      (simp_all add: url_classes stays_path list_all_iff, simp add: parse_url_char_def parse_url_server_def)
  have query: "url_loop (q # query @ bs) j s_req_query_string_start (Some UF_PATH) at v =
      url_loop bs (j + length (q # query)) s_req_query_string (Some UF_QUERY) at
        (start_field UF_QUERY j (of_nat (length (q # query))) v)" for bs j v
    using assms(2)
    by (intro url_loop_part) (simp_all add: url_classes stays_query starts_query list_all_iff)
  have frag: "url_loop (g # frag @ bs) j s_req_fragment_start (Some UF_QUERY) at v =
      url_loop bs (j + length (g # frag)) s_req_fragment (Some UF_FRAGMENT) at
        (start_field UF_FRAGMENT j (of_nat (length (g # frag))) v)" for bs j v
    using assms(3,4)
    by (intro url_loop_part) (auto simp: url_classes stays_fragment starts_fragment list_all_iff)
  have "\<not> IS_URL_CHAR (CHR ''?'')" "\<not> IS_URL_CHAR (CHR ''#'')"
    by (simp_all add: IS_URL_CHAR_iff)
  then have marks: "url_loop (CHR ''?'' # bs) j s_req_path old at v = url_loop bs (Suc j) s_req_query_string_start old at v"
    "url_loop (CHR ''#'' # bs) j s_req_query_string old at v = url_loop bs (Suc j) s_req_fragment_start old at v"
    for bs j old v
    by (intro url_loop_delimiter; simp add: parse_url_char_def url_class_def)+
  show ?thesis
    using path query frag [of "[]"]
    by (simp del: url_loop.simps(2) add: marks)
qed

lemma url_loop_schema:
  assumes "list_all IS_ALPHA (c # sch)"
  shows "url_loop ((c # sch) @ ''://'' @ bs) 0 s_req_spaces_before_url None at u =
    url_loop bs (length (c # sch) + 3) s_req_server_start (Some UF_SCHEMA) at
      (start_field UF_SCHEMA 0 (of_nat (length (c # sch))) u)"
proof -
  have "url_loop (c # sch @ ''://'' @ bs) 0 s_req_spaces_before_url None at u =
      url_loop (''://'' @ bs) (0 + length (c # sch)) s_req_schema (Some UF_SCHEMA) at
        (start_field UF_SCHEMA 0 (of_nat (length (c # sch))) u)"
    using assms
    by (intro url_loop_part) (simp_all add: url_classes stays_schema starts_schema list_all_iff)
  moreover have "\<not> IS_ALPHA (CHR '':'')" by (simp add: byte_simps)
  then have "parse_url_char s_req_schema (CHR '':'') = s_req_schema_slash"
    by (simp add: parse_url_char_def)
  moreover have "parse_url_char s_req_schema_slash (CHR ''/'') = s_req_schema_slash_slash"
    "parse_url_char s_req_schema_slash_slash (CHR ''/'') = s_req_server_start"
    by (simp_all add: parse_url_char_def)
  ultimately show ?thesis
    by (simp del: url_loop.simps(2) add: url_loop_delimiter url_class_def eval_nat_numeral)
qed

text \<open>A field given by its offset and length, in memory that has the part there.\<close>

lemma field_bytes_at:
  assumes "field_data u f = \<lparr>part_off = of_nat (length a), part_len = of_nat (length w)\<rparr>"
    and "mem = a @ w @ b" "length a < 65536" "length w < 65536"
  shows "field_bytes mem u f = w"
  using assms by (simp add: field_bytes_def unat_of_nat16 byte_range_def)

lemma strtoul_port:
  assumes "list_all IS_NUM prt" "prt \<noteq> []" "bs \<noteq> []" "\<not> IS_NUM (hd bs)" "decimal prt < 2 ^ 64"
  shows "strtoul (prt @ bs) = Some (of_nat (decimal prt))"
proof -
  have "takeWhile IS_NUM (prt @ bs) = prt"
    using assms(1,3,4) by (cases bs) (auto simp: takeWhile_append list_all_iff)
  with assms strtoul_digits [of "prt @ bs"] show ?thesis
    by (simp add: list_all_iff)
qed

text \<open>The fields after the scan, and after the host has been taken apart.\<close>

definition scanned ::
  "byte list \<Rightarrow> byte list \<Rightarrow> byte list \<Rightarrow> byte list \<Rightarrow> byte list \<Rightarrow> byte list \<Rightarrow> byte list
    \<Rightarrow> http_parser_url \<Rightarrow> http_parser_url"
where
  "scanned sch user host prt path query frag u =
     (let p = url_offsets sch user host prt path query in
      start_field UF_FRAGMENT (p UF_FRAGMENT) (of_nat (length frag))
      (start_field UF_QUERY (p UF_QUERY) (of_nat (length query))
      (start_field UF_PATH (p UF_PATH) (of_nat (length path))
      (start_field UF_HOST (length sch + 3)
        (of_nat (length user + 1 + length host + 1 + length prt))
      (start_field UF_SCHEMA 0 (of_nat (length sch)) u)))))"

lemma url_loop_full:
  assumes "url_parts_ok sch user host prt path query frag"
  shows "url_loop (full_url sch user host prt path query frag) 0 s_req_spaces_before_url None False u =
    Scan_end True (scanned sch user host prt path query frag u)"
proof -
  obtain s1 sch' u1 user' h1 host' p1 prt' where parts:
    "sch = s1 # sch'" "user = u1 # user'" "host = h1 # host'" "prt = p1 # prt'"
    using assms by (auto simp: url_parts_ok_def neq_Nil_conv)
  obtain path' q query' g frag' where tail:
    "path = CHR ''/'' # path'" "query = q # query'" "frag = g # frag'"
    using assms by (auto simp: url_parts_ok_def neq_Nil_conv)
  have server: "\<forall>c\<in>set (h1 # host' @ '':'' @ p1 # prt'). IS_USERINFO_CHAR c"
    using assms parts host_char_userinfo num_userinfo
    by (auto simp: url_parts_ok_def list_all_iff colon_userinfo)
  have schema: "list_all IS_ALPHA (s1 # sch')" and user: "\<forall>c\<in>set (u1 # user'). IS_USERINFO_CHAR c"
    using assms parts by (simp_all add: url_parts_ok_def list_all_iff)
  have rest: "list_all IS_URL_CHAR (CHR ''/'' # path')"
    "list_all (\<lambda>c. IS_URL_CHAR c \<or> c = CHR ''?'') (q # query')"
    "list_all (\<lambda>c. IS_URL_CHAR c \<or> c = CHR ''?'' \<or> c = CHR ''#'') (g # frag')" "g \<noteq> CHR ''#''"
    using assms tail by (auto simp: url_parts_ok_def)
  have "url_loop (full_url sch user host prt path query frag) 0 s_req_spaces_before_url None False u =
      url_loop ((u1 # user') @ ''@'' @ (h1 # host' @ '':'' @ p1 # prt') @ path @ ''?'' @ query @ ''#'' @ frag)
        (length sch + 3) s_req_server_start (Some UF_SCHEMA) False
        (start_field UF_SCHEMA 0 (of_nat (length sch)) u)"
    using url_loop_schema [OF schema] parts by (simp add: full_url_def del: url_loop.simps(2))
  also have "\<dots> = url_loop (path @ ''?'' @ query @ ''#'' @ frag)
      (length sch + 3 + (length user + 1 + (length host + 1 + length prt))) s_req_server (Some UF_HOST) True
      (start_field UF_HOST (length sch + 3) (of_nat (length user + 1 + (length host + 1 + length prt)))
        (start_field UF_SCHEMA 0 (of_nat (length sch)) u))"
    using url_loop_server [OF user server, of "Some UF_SCHEMA"] parts
    by (simp del: url_loop.simps(2))
  finally show ?thesis
    using url_loop_tail [OF rest] tail
    by (simp add: scanned_def url_offsets_def Let_def algebra_simps del: url_loop.simps(2))
qed

lemma http_parse_host_full:
  assumes ok: "url_parts_ok sch user host prt path query frag"
    and mem: "mem = full_url sch user host prt path query frag @ rest"
  shows "\<exists>u'. http_parse_host mem (scanned sch user host prt path query frag u) True = Some (True, u')
    \<and> (\<forall>f. has_field u' f) 
    \<and> (\<forall>f. field_data u' f = \<lparr>part_off = of_nat (url_offsets sch user host prt path query f),
         part_len = of_nat (length (case f of UF_SCHEMA \<Rightarrow> sch | UF_USERINFO \<Rightarrow> user | UF_HOST \<Rightarrow> host
           | UF_PORT \<Rightarrow> prt | UF_PATH \<Rightarrow> path | UF_QUERY \<Rightarrow> query | UF_FRAGMENT \<Rightarrow> frag))\<rparr>)"
proof -
  obtain u1 user' h1 host' p1 prt' where parts:
    "user = u1 # user'" "host = h1 # host'" "prt = p1 # prt'"
    using ok by (auto simp: url_parts_ok_def neq_Nil_conv)
  define w where "w = user @ ''@'' @ host @ '':'' @ prt"
  let ?u = "scanned sch user host prt path query frag u"
  have small: "length sch + 3 + length w < 65536"
    using ok by (simp add: url_parts_ok_def full_url_def w_def)
  have host: "has_field ?u UF_HOST"
    "field_data ?u UF_HOST = \<lparr>part_off = of_nat (length sch + 3), part_len = of_nat (length w)\<rparr>"
    by (simp_all add: scanned_def w_def Let_def add.assoc del: of_nat_add)
  have at: "unat (of_nat (length sch + 3) :: uint16) = length sch + 3"
    "unat (of_nat (length w) :: uint16) = length w"
    using small by (intro unat_of_nat16; simp)+
  have range: "byte_range mem (length sch + 3) (length w) = w" "length sch + 3 + length w \<le> length mem"
    by (simp_all add: mem full_url_def byte_range_def w_def)
  have "\<forall>c\<in>set (u1 # user'). IS_USERINFO_CHAR c" "\<forall>c\<in>set (h1 # host'). IS_HOST_CHAR c"
    "\<forall>c\<in>set (p1 # prt'). IS_NUM c"
    using ok parts by (simp_all add: url_parts_ok_def list_all_iff)
  note loop = host_loop_full [OF this, folded parts, folded w_def]
  define v where "v = start_field UF_PORT (length sch + 3 + length user + 1 + length host + 1) (of_nat (length prt))
      (add_len UF_HOST (length host)
       (host_begin s_http_host_start s_http_host UF_HOST (length sch + 3 + length user + 1)
        (start_field UF_USERINFO (length sch + 3) (of_nat (length user))
         (set_part UF_HOST ((field_data ?u UF_HOST)\<lparr>part_len := 0\<rparr>) ?u))))"
  have "http_parse_host mem ?u True = Some (True, v)"
    using host(1) range(2) loop [of "length sch + 3"]
    by (simp add: http_parse_host_def Let_def host(2) at range(1) host_end_ok_def v_def
        del: of_nat_add length_append)
  moreover have "has_field v f" for f
    by (cases f) (simp_all add: v_def scanned_def Let_def add_len_def host_begin_def)
  moreover have "field_data v f = \<lparr>part_off = of_nat (url_offsets sch user host prt path query f),
         part_len = of_nat (length (case f of UF_SCHEMA \<Rightarrow> sch | UF_USERINFO \<Rightarrow> user | UF_HOST \<Rightarrow> host
           | UF_PORT \<Rightarrow> prt | UF_PATH \<Rightarrow> path | UF_QUERY \<Rightarrow> query | UF_FRAGMENT \<Rightarrow> frag))\<rparr>" for f
    by (cases f)
      (simp_all add: v_def scanned_def Let_def add_len_def host_begin_def url_offsets_def del: of_nat_add)
  ultimately show ?thesis by blast
qed

definition url_part_of ::
  "byte list \<Rightarrow> byte list \<Rightarrow> byte list \<Rightarrow> byte list \<Rightarrow> byte list \<Rightarrow> byte list \<Rightarrow> byte list
    \<Rightarrow> url_field \<Rightarrow> byte list"
where
  "url_part_of sch user host prt path query frag f =
     (case f of UF_SCHEMA \<Rightarrow> sch | UF_USERINFO \<Rightarrow> user | UF_HOST \<Rightarrow> host
      | UF_PORT \<Rightarrow> prt | UF_PATH \<Rightarrow> path | UF_QUERY \<Rightarrow> query | UF_FRAGMENT \<Rightarrow> frag)"

text \<open>Each part stands at its offset.\<close>

lemma full_url_part:
  assumes "url_parts_ok sch user host prt path query frag"
  shows "\<exists>a b. full_url sch user host prt path query frag @ rest
      = a @ url_part_of sch user host prt path query frag f @ b
    \<and> length a = url_offsets sch user host prt path query f \<and> length a < 65536
    \<and> length (url_part_of sch user host prt path query frag f) < 65536"
proof -
  let ?pre = "\<lambda>f. case f of UF_SCHEMA \<Rightarrow> [] | UF_USERINFO \<Rightarrow> sch @ ''://''
    | UF_HOST \<Rightarrow> sch @ ''://'' @ user @ ''@'' | UF_PORT \<Rightarrow> sch @ ''://'' @ user @ ''@'' @ host @ '':''
    | UF_PATH \<Rightarrow> sch @ ''://'' @ user @ ''@'' @ host @ '':'' @ prt
    | UF_QUERY \<Rightarrow> sch @ ''://'' @ user @ ''@'' @ host @ '':'' @ prt @ path @ ''?''
    | UF_FRAGMENT \<Rightarrow> sch @ ''://'' @ user @ ''@'' @ host @ '':'' @ prt @ path @ ''?'' @ query @ ''#''"
  have "length (full_url sch user host prt path query frag) < 65536"
    using assms by (simp add: url_parts_ok_def)
  then show ?thesis
    by - (rule exI [of _ "?pre f"], cases f; simp add: full_url_def url_part_of_def url_offsets_def)
qed

lemma drop_length_append: "drop (length xs) (xs @ ys) = ys"
  by simp

lemma parse_url_full:
  assumes ok: "url_parts_ok sch user host prt path query frag" and port: "decimal prt < 65536"
  shows "\<exists>u'. http_parser_parse_url (full_url sch user host prt path query frag @ rest)
      (length (full_url sch user host prt path query frag)) False u = Some (0, u')
    \<and> (\<forall>f. has_field u' f \<and> field_bytes (full_url sch user host prt path query frag @ rest) u' f
          = url_part_of sch user host prt path query frag f)
    \<and> unat (url_port u') = decimal prt"
proof -
  let ?url = "full_url sch user host prt path query frag" and ?u = "u\<lparr>url_port := 0, field_set := 0\<rparr>"
  let ?s = "scanned sch user host prt path query frag ?u"
  from http_parse_host_full [OF ok refl, of rest ?u, folded url_part_of_def] obtain v where
    host: "http_parse_host (?url @ rest) ?s True = Some (True, v)" and set: "\<And>f. has_field v f"
    and part: "\<And>f. field_data v f = \<lparr>part_off = of_nat (url_offsets sch user host prt path query f),
        part_len = of_nat (length (url_part_of sch user host prt path query frag f))\<rparr>"
    by blast
  have bytes: "field_bytes (?url @ rest) v f = url_part_of sch user host prt path query frag f" for f
  proof -
    obtain a b where at: "?url @ rest = a @ url_part_of sch user host prt path query frag f @ b"
      and len: "length a = url_offsets sch user host prt path query f" "length a < 65536"
        "length (url_part_of sch user host prt path query frag f) < 65536"
      using full_url_part [OF ok, of rest f] by blast
    show ?thesis
      using part [of f] len by (intro field_bytes_at [OF _ at]) simp_all
  qed
  have nums: "list_all IS_NUM prt" "prt \<noteq> []" and path: "path \<noteq> []" "\<not> IS_NUM (hd path)"
    using ok by (auto simp: url_parts_ok_def byte_simps)
  from full_url_part [OF ok, of rest UF_PORT]
  have off: "unat (part_off (field_data v UF_PORT)) = length (sch @ ''://'' @ user @ ''@'' @ host @ '':'')"
    by (auto simp: part unat_of_nat16 url_offsets_def simp del: of_nat_add)
  have url: "?url @ rest = (sch @ ''://'' @ user @ ''@'' @ host @ '':'') @
      (prt @ path @ ''?'' @ query @ ''#'' @ frag @ rest)"
    by (simp add: full_url_def)
  have "drop (unat (part_off (field_data v UF_PORT))) (?url @ rest) =
      prt @ path @ ''?'' @ query @ ''#'' @ frag @ rest"
    unfolding off url by (rule drop_length_append)
  moreover have "strtoul (prt @ path @ ''?'' @ query @ ''#'' @ frag @ rest) = Some (of_nat (decimal prt))"
    using nums path port by (intro strtoul_port) simp_all
  moreover have small: "unat (of_nat (decimal prt) :: uint64) = decimal prt"
    using port by (intro unat_of_nat_small) simp
  ultimately have finish: "url_finish (?url @ rest) False v =
      Some (0, v\<lparr>url_port := ucast (of_nat (decimal prt) :: uint64)\<rparr>)"
    using set port by (simp add: url_finish_def word_less_nat_alt)
  have "unat (ucast (of_nat (decimal prt) :: uint64) :: uint16) = decimal prt"
    using port small by (simp add: unsigned_ucast_eq take_bit_nat_eq_self)
  moreover have "http_parser_parse_url (?url @ rest) (length ?url) False u =
      url_finish (?url @ rest) False v"
    using url_loop_full [OF ok, of ?u] host set
    by (simp add: http_parser_parse_url_def Let_def scanned_def)
  ultimately show ?thesis
    using finish set bytes by (auto simp: field_bytes_def)
qed

text \<open>
  C18. Round trip. \<open>http_parser_parse_url\<close> takes a URL
  \<open>schema://userinfo@host:port/path?query#fragment\<close> of less than 64 KiB apart into exactly the
  seven parts it was put together from, and \<open>port\<close> is the number that the port's digits denote,
  whatever follows the URL in memory.
\<close>

theorem parse_url_round_trip:
  assumes "url_parts_ok sch user host prt path query frag" and "decimal prt < 65536"
  shows "\<exists>u'. http_parser_parse_url (full_url sch user host prt path query frag @ rest)
      (length (full_url sch user host prt path query frag)) False u = Some (0, u')
    \<and> (\<forall>f. has_field u' f \<and> field_bytes (full_url sch user host prt path query frag @ rest) u' f
          = url_part_of sch user host prt path query frag f)
    \<and> unat (url_port u') = decimal prt"
  using assms by (rule parse_url_full)

lemma parse_url_round_trip_witness:
  "\<exists>u'. http_parser_parse_url (''http://u@h.de:8080/x?q#f'' @ [NUL])
      (length ''http://u@h.de:8080/x?q#f'') False blank_url = Some (0, u')
    \<and> unat (url_port u') = 8080"
proof -
  have "url_parts_ok ''http'' ''u'' ''h.de'' ''8080'' ''/x'' ''q'' ''f''"
    by (simp add: url_parts_ok_def full_url_def IS_URL_CHAR_iff IS_HOST_CHAR_def IS_USERINFO_CHAR_def
        IS_ALPHANUM_def byte_simps)
  moreover have "decimal ''8080'' = 8080"
    by (simp add: decimal_def digit_val_def schar_def)
  ultimately show ?thesis
    using parse_url_round_trip [of "''http''" "''u''" "''h.de''" "''8080''" "''/x''" "''q''" "''f''" "[NUL]" blank_url]
    by (auto simp: full_url_def)
qed

end
