(* ===== verification/Request.thy ===== *)
theory Request
  imports Url_Round_Trip "HOL-Library.List_Lexorder"
begin

text \<open>
  \<open>src/request_respons.h\<close>: \<open>url_obj\<close>, the case-independent order \<open>ci_less\<close> of header names and
  the maps ordered by it, \<open>request\<close> and \<open>response\<close>. A \<open>std::map\<close> is the list of its entries in
  iteration order; the interface that the classes use of it is the locale \<open>header_map\<close>.
\<close>

section \<open>url\_obj\<close>

record url_obj =
  handle :: http_parser_url
  buf :: "byte list"

text \<open>The default constructor: the members are value-initialised.\<close>

definition url_obj_new :: url_obj where
  "url_obj_new =
     \<lparr>handle = \<lparr>field_set = 0, url_port = 0, field_data = \<lambda>_. \<lparr>part_off = 0, part_len = 0\<rparr>\<rparr>, buf = []\<rparr>"

text \<open>\<open>std::string::substr\<close>: None is \<open>std::out_of_range\<close>.\<close>

definition substr :: "byte list \<Rightarrow> nat \<Rightarrow> nat \<Rightarrow> byte list option" where
  "substr s pos n = (if length s < pos then None else Some (byte_range s pos n))"

definition url_field_text :: "url_obj \<Rightarrow> url_field \<Rightarrow> byte list option" where
  "url_field_text o' f =
     substr (buf o') (unat (part_off (field_data (handle o') f))) (unat (part_len (field_data (handle o') f)))"

definition url_obj_schema :: "url_obj \<Rightarrow> byte list option" where
  "url_obj_schema o' =
     (if has_field (handle o') UF_SCHEMA then url_field_text o' UF_SCHEMA else Some ''HTTP'')"

definition url_obj_host :: "url_obj \<Rightarrow> byte list option" where
  "url_obj_host o' =
     (if has_field (handle o') UF_SCHEMA then url_field_text o' UF_HOST else Some ''localhost'')"

definition url_obj_port :: "url_obj \<Rightarrow> int option" where
  "url_obj_port o' =
     (if has_field (handle o') UF_PATH then Some (uint (url_port (handle o')))
      else map_option (\<lambda>s. if s = ''HTTP'' then 80 else 443) (url_obj_schema o'))"

definition url_obj_path :: "url_obj \<Rightarrow> byte list option" where
  "url_obj_path o' =
     (if has_field (handle o') UF_PATH then url_field_text o' UF_PATH else Some ''/'')"

definition url_obj_query :: "url_obj \<Rightarrow> byte list option" where
  "url_obj_query o' =
     (if has_field (handle o') UF_QUERY then url_field_text o' UF_QUERY else Some [])"

definition url_obj_fragment :: "url_obj \<Rightarrow> byte list option" where
  "url_obj_fragment o' =
     (if has_field (handle o') UF_QUERY then url_field_text o' UF_FRAGMENT else Some [])"

text \<open>The result of the parser is ignored: the fields are used as they are when it returns.\<close>

definition from_buf :: "byte list \<Rightarrow> nat \<Rightarrow> bool \<Rightarrow> url_obj \<Rightarrow> url_obj option" where
  "from_buf mem n is_connect o' =
     map_option (\<lambda>(r, u). o'\<lparr>handle := u, buf := take n mem\<rparr>)
       (http_parser_parse_url mem n is_connect (handle o'))"

lemma url_field_text_bytes:
  assumes "fields_ok mem n u" "has_field u f" "n \<le> length mem" "handle x = u" "buf x = take n mem"
  shows "url_field_text x f = Some (field_bytes mem u f)"
  using assms
  by (auto simp: fields_ok_def part_ok_def part_end_def url_field_text_def substr_def field_bytes_def
      byte_range_def drop_take min_absorb1)

text \<open>A field that is not there and was never written is empty text.\<close>

lemma url_field_text_empty:
  "field_data (handle x) f = \<lparr>part_off = 0, part_len = 0\<rparr> \<Longrightarrow> url_field_text x f = Some []"
  by (simp add: url_field_text_def substr_def byte_range_def)

text \<open>
  C20. What an application reads from a new \<open>url_obj\<close> after \<open>from_buf\<close> on any URL of less than
  64 KiB that parses: each accessor never throws and returns the bytes of its field, or its
  default, as the field that its guard names is there or not. The guards are not always those of the
  field itself: \<open>host\<close> asks for a schema, \<open>port\<close> for a path, \<open>fragment\<close> for a query. So a host
  without a schema (as in a CONNECT) reads as \<open>localhost\<close>; a URL with a path and no port has port 0,
  one with a port and no path has its port ignored; a fragment without a query is lost; and the
  default port of a URL whose schema is \<open>http\<close> is 443, because the comparison is with \<open>HTTP\<close>.
\<close>

theorem url_obj_accessors:
  assumes "n \<le> length mem" "n < 65536"
    and "http_parser_parse_url mem n is_connect (handle url_obj_new) = Some (0, u)"
  shows "\<exists>x. from_buf mem n is_connect url_obj_new = Some x
    \<and> url_obj_schema x = Some (if has_field u UF_SCHEMA then field_bytes mem u UF_SCHEMA else ''HTTP'')
    \<and> url_obj_host x = Some (if has_field u UF_SCHEMA then field_bytes mem u UF_HOST else ''localhost'')
    \<and> url_obj_port x = Some
        (if has_field u UF_PATH then if has_field u UF_PORT then int (decimal (port_digits mem u)) else 0
         else if has_field u UF_SCHEMA \<and> field_bytes mem u UF_SCHEMA \<noteq> ''HTTP'' then 443 else 80)
    \<and> url_obj_path x = Some (if has_field u UF_PATH then field_bytes mem u UF_PATH else ''/'')
    \<and> url_obj_query x = Some (if has_field u UF_QUERY then field_bytes mem u UF_QUERY else [])
    \<and> url_obj_fragment x = Some
        (if has_field u UF_QUERY \<and> has_field u UF_FRAGMENT then field_bytes mem u UF_FRAGMENT else [])"
proof -
  define x where "x = url_obj_new\<lparr>handle := u, buf := take n mem\<rparr>"
  have ok: "fields_ok mem n u" using assms by (rule parse_url_success)
  have parts: "url_field_text x f = Some (field_bytes mem u f)" if "has_field u f" for f
    using url_field_text_bytes [OF ok that assms(1), of x] by (simp add: x_def)
  have "has_field u UF_HOST" if "has_field u UF_SCHEMA"
    using parse_url_schema_host [OF assms that] .
  with parts have host: "has_field u UF_SCHEMA \<Longrightarrow> url_field_text x UF_HOST = Some (field_bytes mem u UF_HOST)"
    by blast
  have frag: "url_field_text x UF_FRAGMENT = Some []" if "\<not> has_field u UF_FRAGMENT"
    using parse_url_no_fragment [OF assms(3) that]
    by (intro url_field_text_empty) (simp add: x_def url_obj_new_def)
  have port: "uint (url_port u) = (if has_field u UF_PORT then int (decimal (port_digits mem u)) else 0)"
  proof (cases "has_field u UF_PORT")
    case True
    with parse_url_port_digits [OF assms] have "unat (url_port u) = decimal (port_digits mem u)" by blast
    with True show ?thesis by (simp only: uint_nat if_True)
  qed (simp add: url_port_default [OF assms(3)])
  have u: "handle x = u" by (simp add: x_def)
  have schema: "url_obj_schema x = Some (if has_field u UF_SCHEMA then field_bytes mem u UF_SCHEMA else ''HTTP'')"
    by (simp add: url_obj_schema_def u parts)
  show ?thesis
  proof (intro exI [of _ x] conjI)
    show "from_buf mem n is_connect url_obj_new = Some x" by (simp add: from_buf_def assms(3) x_def)
  qed (simp_all add: schema url_obj_host_def url_obj_port_def url_obj_path_def url_obj_query_def
      url_obj_fragment_def u parts host frag port)
qed

lemma url_obj_accessors_witness:
  "\<exists>x. from_buf ''http://h/x#f'' 12 False url_obj_new = Some x \<and> url_obj_host x = Some ''h''
    \<and> url_obj_port x = Some 0 \<and> url_obj_path x = Some ''/x'' \<and> url_obj_fragment x = Some []"
proof -
  have "\<exists>u. http_parser_parse_url ''http://h/x#f'' 12 False (handle url_obj_new) = Some (0, u)
      \<and> has_field u UF_SCHEMA \<and> has_field u UF_PATH \<and> \<not> has_field u UF_PORT \<and> \<not> has_field u UF_QUERY
      \<and> field_bytes ''http://h/x#f'' u UF_HOST = ''h'' \<and> field_bytes ''http://h/x#f'' u UF_PATH = ''/x''"
    by (simp add: url_eval url_obj_new_def field_bytes_def)
  then obtain u where u: "http_parser_parse_url ''http://h/x#f'' 12 False (handle url_obj_new) = Some (0, u)"
    "has_field u UF_SCHEMA" "has_field u UF_PATH" "\<not> has_field u UF_PORT" "\<not> has_field u UF_QUERY"
    "field_bytes ''http://h/x#f'' u UF_HOST = ''h''" "field_bytes ''http://h/x#f'' u UF_PATH = ''/x''" by blast
  from url_obj_accessors [OF _ _ u(1)] u(2-) show ?thesis by auto
qed

text \<open>With all seven parts in the URL, the accessors return the parts it was put together from.\<close>

lemma url_obj_full_url:
  assumes "url_parts_ok sch user host prt path query frag" and "decimal prt < 65536"
  shows "\<exists>x. from_buf (full_url sch user host prt path query frag @ rest)
      (length (full_url sch user host prt path query frag)) False x0 = Some x
    \<and> url_obj_schema x = Some sch \<and> url_obj_host x = Some host \<and> url_obj_port x = Some (int (decimal prt))
    \<and> url_obj_path x = Some path \<and> url_obj_query x = Some query \<and> url_obj_fragment x = Some frag"
proof -
  let ?url = "full_url sch user host prt path query frag"
  from parse_url_full [OF assms, of rest "handle x0"] obtain u where
    u: "http_parser_parse_url (?url @ rest) (length ?url) False (handle x0) = Some (0, u)"
    and parts: "\<And>f. has_field u f"
      "\<And>f. field_bytes (?url @ rest) u f = url_part_of sch user host prt path query frag f"
    and port: "unat (url_port u) = decimal prt" by blast
  define x where "x = x0\<lparr>handle := u, buf := ?url\<rparr>"
  have "fields_ok (?url @ rest) (length ?url) u"
    using assms(1) by (intro parse_url_success [OF _ _ u]) (simp_all add: url_parts_ok_def)
  then have parts': "url_field_text x f = Some (url_part_of sch user host prt path query frag f)" for f
    using parts [of f] url_field_text_bytes [of "?url @ rest" "length ?url" u f x] by (simp add: x_def)
  have "from_buf (?url @ rest) (length ?url) False x0 = Some x"
    by (simp add: from_buf_def u x_def)
  moreover have "handle x = u" by (simp add: x_def)
  ultimately show ?thesis
    using parts' parts(1) port
    by (auto simp: url_obj_schema_def url_obj_host_def url_obj_port_def url_obj_path_def url_obj_query_def
        url_obj_fragment_def url_part_of_def uint_nat)
qed

section \<open>ci\_less\<close>

text \<open>\<open>tolower\<close> of the C locale.\<close>

definition tolower :: "byte \<Rightarrow> byte" where
  "tolower c = (if CHR ''A'' \<le> c \<and> c \<le> CHR ''Z'' then LOWER c else c)"

definition nocase_compare :: "byte \<Rightarrow> byte \<Rightarrow> bool" where
  "nocase_compare c1 c2 \<longleftrightarrow> tolower c1 < tolower c2"

fun lexicographical_compare :: "(byte \<Rightarrow> byte \<Rightarrow> bool) \<Rightarrow> byte list \<Rightarrow> byte list \<Rightarrow> bool" where
  "lexicographical_compare lt [] [] = False"
| "lexicographical_compare lt [] (y # ys) = True"
| "lexicographical_compare lt (x # xs) [] = False"
| "lexicographical_compare lt (x # xs) (y # ys) =
     (if lt x y then True else if lt y x then False else lexicographical_compare lt xs ys)"

definition ci_less :: "byte list \<Rightarrow> byte list \<Rightarrow> bool" where
  "ci_less s1 s2 = lexicographical_compare nocase_compare s1 s2"

text \<open>The order is that of the lower-case strings; the keys it identifies are those equal up to case.\<close>

lemma ci_less_lower: "ci_less s t \<longleftrightarrow> map tolower s < map tolower t"
  unfolding ci_less_def
  by (induction nocase_compare s t rule: lexicographical_compare.induct)
    (auto simp: nocase_compare_def)

definition ci_equal :: "byte list \<Rightarrow> byte list \<Rightarrow> bool" where
  "ci_equal s t \<longleftrightarrow> \<not> ci_less s t \<and> \<not> ci_less t s"

lemma ci_equal_lower: "ci_equal s t \<longleftrightarrow> map tolower s = map tolower t"
  by (auto simp: ci_equal_def ci_less_lower)

section \<open>Maps ordered by ci\_less\<close>

type_synonym headers = "(byte list \<times> byte list) list"

fun map_find :: "headers \<Rightarrow> byte list \<Rightarrow> byte list option" where
  "map_find [] k = None"
| "map_find ((k', v) # m) k = (if ci_equal k' k then Some v else map_find m k)"

text \<open>\<open>m[k] = v\<close>: an entry with an equivalent key keeps its key and gets the value.\<close>

fun map_assign :: "headers \<Rightarrow> byte list \<Rightarrow> byte list \<Rightarrow> headers" where
  "map_assign [] k v = [(k, v)]"
| "map_assign ((k', v') # m) k v =
     (if ci_less k' k then (k', v') # map_assign m k v
      else if ci_less k k' then (k, v) # (k', v') # m
      else (k', v) # m)"

definition map_ok :: "headers \<Rightarrow> bool" where
  "map_ok m \<longleftrightarrow> sorted_wrt ci_less (map fst m)"

text \<open>The interface of the header maps that \<open>request\<close> and \<open>response\<close> rely on.\<close>

locale header_map =
  fixes find :: "'m \<Rightarrow> byte list \<Rightarrow> byte list option"
    and assign :: "'m \<Rightarrow> byte list \<Rightarrow> byte list \<Rightarrow> 'm"
    and empty_map :: "'m"
    and ok :: "'m \<Rightarrow> bool"
  assumes ok_empty: "ok empty_map"
    and find_empty: "find empty_map k = None"
    and ok_assign: "ok m \<Longrightarrow> ok (assign m k v)"
    and find_assign: "ok m \<Longrightarrow> find (assign m k v) k' = (if ci_equal k k' then Some v else find m k')"
begin

text \<open>Header names are found whatever their case, and the last value assigned counts.\<close>

lemma find_assign_case:
  "ok m \<Longrightarrow> map tolower k = map tolower k' \<Longrightarrow> find (assign m k v) k' = Some v"
  by (simp add: find_assign ci_equal_lower)

lemma find_assign_other:
  "ok m \<Longrightarrow> map tolower k \<noteq> map tolower k' \<Longrightarrow> find (assign m k v) k' = find m k'"
  by (simp add: find_assign ci_equal_lower)

definition assign_all :: "(byte list \<times> byte list) list \<Rightarrow> 'm" where
  "assign_all kvs = foldl (\<lambda>m (k, v). assign m k v) empty_map kvs"

lemma assign_all_snoc: "assign_all (kvs @ [(k, v)]) = assign (assign_all kvs) k v"
  by (simp add: assign_all_def)

lemma assign_all_ok: "ok (assign_all kvs)"
proof (induction kvs rule: rev_induct)
  case (snoc kv kvs)
  then show ?case by (cases kv) (simp add: assign_all_snoc ok_assign)
qed (simp add: assign_all_def ok_empty)

lemma find_assign_all:
  "find (assign_all kvs) k = map_of (rev (map (map_prod (map tolower) id) kvs)) (map tolower k)"
proof (induction kvs rule: rev_induct)
  case (snoc kv kvs)
  then show ?case
    by (cases kv) (auto simp: assign_all_snoc find_assign assign_all_ok ci_equal_lower)
qed (simp add: assign_all_def find_empty)

end

lemma ci_equal_less: "ci_equal k k' \<Longrightarrow> ci_less a k \<longleftrightarrow> ci_less a k'"
  by (simp add: ci_equal_lower ci_less_lower)

lemma map_assign_keys: "set (map fst (map_assign m k v)) \<subseteq> insert k (set (map fst m))"
  by (induction m k v rule: map_assign.induct) auto

lemma map_assign_ok: "map_ok m \<Longrightarrow> map_ok (map_assign m k v)"
proof (induction m k v rule: map_assign.induct)
  case (2 k' v' m k v)
  then have m: "\<forall>x\<in>set m. ci_less k' (fst x)" "map_ok m" by (simp_all add: map_ok_def)
  show ?case
  proof (cases "ci_less k' k")
    case True
    with m(1) have "\<forall>x\<in>insert k (set (map fst m)). ci_less k' x" by simp
    then have "\<forall>x\<in>set (map fst (map_assign m k v)). ci_less k' x"
      using map_assign_keys [of m k v] by blast
    with True 2(1) m(2) show ?thesis by (simp add: map_ok_def)
  next
    case False
    with 2(2) show ?thesis
      by (auto simp: map_ok_def ci_less_lower)
  qed
qed (simp add: map_ok_def)

lemma map_find_assign: "map_find (map_assign m k v) k' = (if ci_equal k k' then Some v else map_find m k')"
proof (induction m k v rule: map_assign.induct)
  case (2 k1 v1 m k v)
  then show ?case
    by (auto simp: ci_equal_lower ci_less_lower)
qed simp

interpretation ci_map: header_map map_find map_assign "[]" map_ok
  by unfold_locales (simp_all add: map_assign_ok map_find_assign, simp add: map_ok_def)

section \<open>request\<close>

text \<open>
  The members of the class without their final underscore, with the prefix \<open>req\<close>. \<open>body_\<close> points into the buffer of the session: the model holds its offset there, None for the
  null pointer. The members that the constructor does not name are empty.
\<close>

record request =
  req_url :: url_obj
  req_headers :: headers
  req_body :: "nat option"
  req_len :: nat
  req_default_value :: "byte list"

definition request_new :: request where
  "request_new =
     \<lparr>req_url = \<lparr>handle = \<lparr>field_set = 0, url_port = 0, field_data = \<lambda>_. \<lparr>part_off = 0, part_len = 0\<rparr>\<rparr>, buf = []\<rparr>,
      req_headers = [], req_body = None, req_len = 0, req_default_value = []\<rparr>"

definition get_header :: "request \<Rightarrow> byte list \<Rightarrow> byte list" where
  "get_header r key = (case map_find (req_headers r) key of Some v \<Rightarrow> v | None \<Rightarrow> req_default_value r)"

text \<open>The overload with a result parameter: what it returns, and \<open>value\<close> afterwards.\<close>

definition get_header_value :: "request \<Rightarrow> byte list \<Rightarrow> byte list \<Rightarrow> bool \<times> byte list" where
  "get_header_value r key val =
     (case map_find (req_headers r) key of Some v \<Rightarrow> (True, v) | None \<Rightarrow> (False, val))"

text \<open>
  C22. Request headers. When the fields of a message have been stored one after the other, the
  map is in strict \<open>ci_less\<close> order (so no name occurs twice up to case), and \<open>get_header\<close> with
  a name in any case returns the value stored last under that name, or the empty default.
\<close>

theorem get_header_last_value:
  "map_ok (foldl (\<lambda>m (k, v). map_assign m k v) [] kvs)
   \<and> get_header (request_new\<lparr>req_headers := foldl (\<lambda>m (k, v). map_assign m k v) [] kvs\<rparr>) key =
     (case map_of (rev (map (map_prod (map tolower) id) kvs)) (map tolower key) of
        Some v \<Rightarrow> v | None \<Rightarrow> [])"
  using ci_map.assign_all_ok [of kvs] ci_map.find_assign_all [of kvs key]
  by (simp add: ci_map.assign_all_def get_header_def request_new_def split: option.split)

end
