(* ===== verification/Response.thy ===== *)
theory Response
  imports Request
begin

text \<open>
  The class \<open>response\<close> of \<open>src/request_respons.h\<close>: the status text, the header map and \<open>end\<close>,
  which writes the message. The body is what \<open>Json::FastWriter\<close> writes of the value \<open>root_\<close>;
  jsoncpp is not part of the repository, so the type of JSON values and the writer are parameters.
\<close>

section \<open>Numbers as text\<close>

text \<open>\<open>std::ostream << int\<close>.\<close>

definition digit :: "nat \<Rightarrow> byte" where
  "digit n = ''0123456789'' ! n"

fun decimal_string :: "nat \<Rightarrow> byte list" where
  "decimal_string n = (if n < 10 then [digit n] else decimal_string (n div 10) @ [digit (n mod 10)])"

declare decimal_string.simps [simp del]

definition int_string :: "int \<Rightarrow> byte list" where
  "int_string i = (if i < 0 then CHR ''-'' # decimal_string (nat (- i)) else decimal_string (nat i))"

lemma digit_num: "n < 10 \<Longrightarrow> IS_NUM (digit n) \<and> digit_val (digit n) = int n"
  by (auto simp: numeral_eq_Suc less_Suc_eq digit_def IS_NUM_def digit_val_def schar_def)

text \<open>Reading back what is written, and its shape.\<close>

lemma decimal_string_num: "list_all IS_NUM (decimal_string n) \<and> decimal_string n \<noteq> []"
  by (induction n rule: decimal_string.induct)
    (subst (1 2) decimal_string.simps, simp add: digit_num)

lemma decimal_snoc: "decimal (ds @ [c]) = decimal ds * 10 + nat (digit_val c)"
  by (simp add: decimal_def)

lemma decimal_decimal_string: "decimal (decimal_string n) = n"
proof (induction n rule: decimal_string.induct)
  case (1 n)
  then show ?case
    by (subst decimal_string.simps) (simp add: decimal_snoc digit_num, simp add: decimal_def digit_num)
qed

section \<open>response\<close>

record 'json response =
  res_headers :: headers
  res_status :: int
  res_body :: "byte list"
  res_root :: 'json

text \<open>The constructor; \<open>null\<close> is a default-constructed \<open>Json::Value\<close>.\<close>

definition response_new :: "'json \<Rightarrow> 'json response" where
  "response_new null =
     \<lparr>res_headers = map_assign [] ''Content-Type'' ''text/json'', res_status = 200, res_body = [],
      res_root = null\<rparr>"

text \<open>For another status the function ends without \<open>return\<close>, which C++ leaves undefined: None.\<close>

definition get_status_text :: "int \<Rightarrow> byte list option" where
  "get_status_text status = map_of
     [(100, ''Continue''), (101, ''Switching Protocols''),
      (200, ''OK''), (201, ''Created''), (202, ''Accepted''), (203, ''Non-Authoritative Information''),
      (204, ''No Content''), (205, ''Reset Content''), (206, ''Partial Content''),
      (300, ''Multiple Choices''), (301, ''Moved Permanently''), (302, ''Found''), (303, ''See Other''),
      (304, ''Not Modified''), (305, ''Use Proxy''), (307, ''Temporary Redirect''),
      (400, ''Bad Request''), (401, ''Unauthorized''), (402, ''Payment Required''), (403, ''Forbidden''),
      (404, ''Not Found''), (405, ''Method Not Allowed''), (406, ''Not Acceptable''),
      (407, ''Proxy Authentication Required''), (408, ''Request Timeout''), (409, ''Conflict''),
      (410, ''Gone''), (411, ''Length Required''), (412, ''Precondition Failed''),
      (413, ''Request Entity Too Large''), (414, ''Request-URI Too Long''),
      (415, ''Unsupported Media Type''), (416, ''Requested Range Not Satisfiable''),
      (417, ''Expectation Failed''), (500, ''Internal Server Error''), (501, ''Not Implemented''),
      (502, ''Bad Gateway''), (503, ''Service Unavailable''), (504, ''Gateway Timeout''),
      (505, ''HTTP Version Not Supported'')] status"

definition set_status :: "int \<Rightarrow> 'json response \<Rightarrow> 'json response" where
  "set_status code r = r\<lparr>res_status := code\<rparr>"

definition set_header :: "byte list \<Rightarrow> byte list \<Rightarrow> 'json response \<Rightarrow> 'json response" where
  "set_header key val r = r\<lparr>res_headers := map_assign (res_headers r) key val\<rparr>"

abbreviation CRLF :: "byte list" where "CRLF \<equiv> [CR, LF]"

definition header_line :: "byte list \<times> byte list \<Rightarrow> byte list" where
  "header_line h = fst h @ '': '' @ snd h @ CRLF"

text \<open>The message as \<open>end\<close> puts it together, from its status, status text, headers and body.\<close>

definition response_text :: "int \<Rightarrow> byte list \<Rightarrow> headers \<Rightarrow> byte list \<Rightarrow> byte list" where
  "response_text status reason hs body =
     ''HTTP/1.1 '' @ int_string status @ '' '' @ reason @ CRLF @ concat (map header_line hs) @ CRLF @ body"

text \<open>\<open>end\<close>: the text and the response afterwards, or None where \<open>get_status_text\<close> is undefined.\<close>

definition response_end ::
  "('json \<Rightarrow> byte list) \<Rightarrow> 'json response \<Rightarrow> (byte list \<times> 'json response) option" where
  "response_end writer r =
     (let body = writer (res_root r);
          hs = (if map_find (res_headers r) ''Content-Length'' = None
                then map_assign (res_headers r) ''Content-Length'' (decimal_string (length body))
                else res_headers r)
      in case get_status_text (res_status r) of
           None \<Rightarrow> None
         | Some reason \<Rightarrow>
             Some (response_text (res_status r) reason hs body,
                   r\<lparr>res_headers := hs, res_body := body\<rparr>))"

section \<open>What end writes\<close>

lemma response_end_header:
  assumes "response_end writer r = Some (txt, r')" "map_find (res_headers r) ''Content-Length'' = None"
  shows "map_find (res_headers r') ''Content-Length'' = Some (decimal_string (length (writer (res_root r))))"
  using assms by (auto simp: response_end_def Let_def map_find_assign ci_equal_lower split: option.splits)

text \<open>
  C21. \<open>end\<close> on any response with a status that it knows writes the status line, one line per
  header and the body. If no \<open>Content-Length\<close> was set before (in any case of its letters), the value
  of that header consists of the decimal digits of the length of the body; if one was set, by the
  application or by an earlier \<open>end\<close>, it is written as it was, whatever the length of the body is. Every
  other header is still there, no other is added, and the header map stays in order.
\<close>

theorem response_end_content_length:
  assumes "map_ok (res_headers r)" "get_status_text (res_status r) = Some reason"
  shows "\<exists>r' n. response_end writer r
      = Some (response_text (res_status r) reason (res_headers r') (writer (res_root r)), r')
    \<and> map_ok (res_headers r') \<and> res_body r' = writer (res_root r)
    \<and> map_find (res_headers r') ''content-length'' = Some n
    \<and> (case map_find (res_headers r) ''content-length'' of
          None \<Rightarrow> list_all IS_NUM n \<and> decimal n = length (res_body r')
        | Some old \<Rightarrow> n = old \<and> res_headers r' = res_headers r)
    \<and> (\<forall>k. map tolower k \<noteq> ''content-length'' \<longrightarrow> map_find (res_headers r') k = map_find (res_headers r) k)"
proof -
  have lower: "map tolower ''Content-Length'' = ''content-length''"
    "map tolower ''content-length'' = ''content-length''"
    by (simp_all add: tolower_def)
  then have same: "map_find hs ''Content-Length'' = map_find hs ''content-length''" for hs :: headers
    by (induction hs) (auto simp: ci_equal_lower)
  show ?thesis
  proof (cases "map_find (res_headers r) ''content-length''")
    case None
    let ?n = "decimal_string (length (writer (res_root r)))"
    let ?hs = "map_assign (res_headers r) ''Content-Length'' ?n"
    have "map_ok ?hs" using assms(1) by (rule ci_map.ok_assign)
    moreover have "map_find ?hs ''content-length'' = Some ?n"
      using assms(1) by (rule ci_map.find_assign_case) (simp add: tolower_def)
    moreover have "map_find ?hs k = map_find (res_headers r) k" if "map tolower k \<noteq> ''content-length''" for k
      using assms(1) by (rule ci_map.find_assign_other) (use that lower in auto)
    ultimately show ?thesis
      using assms(2) None decimal_string_num [of "length (writer (res_root r))"]
      by (auto simp: response_end_def Let_def decimal_decimal_string same)
  next
    case (Some old)
    with assms show ?thesis by (auto simp: response_end_def Let_def same)
  qed
qed

lemma response_end_content_length_witness:
  "\<exists>r' n. response_end (\<lambda>_. ''{}'') (response_new ())
      = Some (response_text 200 ''OK'' (res_headers r') ''{}'', r')
    \<and> map_find (res_headers r') ''content-length'' = Some n \<and> decimal n = 2"
  using response_end_content_length [of "response_new ()" "''OK''" "\<lambda>_. ''{}''"]
  by (auto simp: response_new_def map_ok_def get_status_text_def ci_equal_lower tolower_def eval_nat_numeral)

text \<open>
  A second \<open>end\<close> on the same response keeps the \<open>Content-Length\<close> of the first one, whatever
  the length of the new body is: a connection on which two requests arrive in one read gets a
  second message whose announced length is that of the first body.
\<close>

theorem response_end_stale_length:
  assumes "map_find (res_headers r) ''Content-Length'' = None"
    and "response_end writer r = Some (txt1, r1)"
  shows "\<exists>txt2 r2. response_end writer (r1\<lparr>res_root := json\<rparr>) = Some (txt2, r2)
    \<and> res_body r2 = writer json
    \<and> map_find (res_headers r2) ''Content-Length'' = Some (decimal_string (length (res_body r1)))"
proof -
  have "map_find (res_headers r1) ''Content-Length'' = Some (decimal_string (length (writer (res_root r))))"
    using assms(2,1) by (rule response_end_header)
  then show ?thesis
    using assms(2) by (auto simp: response_end_def Let_def split: option.splits)
qed

lemma response_end_stale_length_witness:
  "\<exists>txt1 r1 txt2 r2. response_end id (response_new ''{}'') = Some (txt1, r1)
    \<and> response_end id (r1\<lparr>res_root := ''{12345}''\<rparr>) = Some (txt2, r2)
    \<and> length (res_body r2) = 7
    \<and> map_find (res_headers r2) ''Content-Length'' = Some ''2''"
proof -
  have none: "map_find (res_headers (response_new ''{}'')) ''Content-Length'' = None"
    by (simp add: response_new_def ci_equal_lower tolower_def)
  obtain txt1 r1 where first: "response_end id (response_new ''{}'') = Some (txt1, r1)"
    "res_body r1 = ''{}''"
    by (simp add: response_end_def response_new_def get_status_text_def Let_def)
  have "decimal_string 2 = ''2''"
    by (simp add: decimal_string.simps digit_def)
  then show ?thesis
    using response_end_stale_length [OF none first(1), of "''{12345}''"] first
    by (auto simp: eval_nat_numeral)
qed

end
