(* ===== verification/Json_Api.thy ===== *)
theory Json_Api
  imports Response "HOL-Library.Monad_Syntax" "HOL-Library.AList"
begin

text \<open>
  What the server calls of jsoncpp, which is not part of the repository: the operations are the
  fields of a record that the definitions take as an argument, and the documented behaviour the
  code relies on is the predicate \<open>json_laws\<close>. None is an exception.
\<close>

record 'j jsoncpp =
  js_parse :: "byte list \<Rightarrow> 'j option"
  js_get :: "'j \<Rightarrow> byte list \<Rightarrow> 'j option"
  js_set :: "'j \<Rightarrow> byte list \<Rightarrow> 'j \<Rightarrow> 'j option"
  js_clear :: "'j \<Rightarrow> 'j option"
  js_members :: "'j \<Rightarrow> (byte list \<times> 'j) list"
  js_int :: "int \<Rightarrow> 'j"
  js_string :: "byte list \<Rightarrow> 'j"
  js_as_int :: "'j \<Rightarrow> int option"
  js_as_string :: "'j \<Rightarrow> byte list option"
  js_null :: 'j
  js_write :: "'j \<Rightarrow> byte list"

text \<open>
  \<open>obj\<close> holds of the values that \<open>operator []\<close> with a key accepts: null and the objects. Setting
  a member makes it readable and leaves the others; the integer values read as integers, and as
  strings they are their decimal digits; clearing an object leaves no members, and setting one
  adds no other.
\<close>

definition json_laws :: "'j jsoncpp \<Rightarrow> ('j \<Rightarrow> bool) \<Rightarrow> bool" where
  "json_laws J obj \<longleftrightarrow>
     obj (js_null J)
     \<and> (\<forall>v k. obj v \<longrightarrow> js_get J v k \<noteq> None)
     \<and> (\<forall>v k x. obj v \<longrightarrow> (\<exists>v'. js_set J v k x = Some v' \<and> obj v'
          \<and> (\<forall>k'. js_get J v' k' = (if k' = k then Some x else js_get J v k'))
          \<and> fst ` set (js_members J v') \<subseteq> insert k (fst ` set (js_members J v))))
     \<and> (\<forall>v. obj v \<longrightarrow> (\<exists>v'. js_clear J v = Some v' \<and> obj v' \<and> js_members J v' = []))
     \<and> (\<forall>i. js_as_int J (js_int J i) = Some i \<and> js_as_string J (js_int J i) = Some (int_string i))"

lemma json_null: "json_laws J obj \<Longrightarrow> obj (js_null J)"
  by (simp add: json_laws_def)

lemma json_set:
  assumes "json_laws J obj" "obj v"
  shows "\<exists>v'. js_set J v k x = Some v' \<and> obj v'
    \<and> (\<forall>k'. js_get J v' k' = (if k' = k then Some x else js_get J v k'))
    \<and> fst ` set (js_members J v') \<subseteq> insert k (fst ` set (js_members J v))"
  using assms unfolding json_laws_def by blast

lemma json_clear:
  assumes "json_laws J obj" "obj v"
  shows "\<exists>v'. js_clear J v = Some v' \<and> obj v' \<and> js_members J v' = []"
  using assms unfolding json_laws_def by blast

lemma json_int:
  assumes "json_laws J obj"
  shows "js_as_int J (js_int J i) = Some i" "js_as_string J (js_int J i) = Some (int_string i)"
  using assms by (simp_all add: json_laws_def)

section \<open>An implementation for which the laws hold\<close>

text \<open>
  Values without arrays; the parser of this instance is a parameter. It serves the witnesses of
  theorems that assume \<open>json_laws\<close>.
\<close>

datatype json = JNull | JInt int | JString "byte list" | JObject "(byte list \<times> json) list"

fun json_members :: "json \<Rightarrow> (byte list \<times> json) list" where
  "json_members (JObject ms) = ms"
| "json_members _ = []"

fun json_object :: "json \<Rightarrow> bool" where
  "json_object JNull = True"
| "json_object (JObject ms) = True"
| "json_object _ = False"

fun json_text :: "json \<Rightarrow> byte list option" where
  "json_text JNull = Some []"
| "json_text (JInt i) = Some (int_string i)"
| "json_text (JString s) = Some s"
| "json_text (JObject ms) = None"

fun json_number :: "json \<Rightarrow> int option" where
  "json_number JNull = Some 0"
| "json_number (JInt i) = Some i"
| "json_number _ = None"

definition json_instance :: "(byte list \<Rightarrow> json option) \<Rightarrow> json jsoncpp" where
  "json_instance parse =
     \<lparr>js_parse = parse,
      js_get = (\<lambda>v k. if json_object v
                 then Some (case map_of (json_members v) k of Some x \<Rightarrow> x | None \<Rightarrow> JNull) else None),
      js_set = (\<lambda>v k x. if json_object v then Some (JObject (AList.update k x (json_members v))) else None),
      js_clear = (\<lambda>v. if json_object v then Some (JObject []) else None),
      js_members = json_members, js_int = JInt, js_string = JString,
      js_as_int = json_number, js_as_string = json_text, js_null = JNull, js_write = (\<lambda>_. ''{}'')\<rparr>"

lemma json_instance_laws: "json_laws (json_instance parse) json_object"
  by (auto simp: json_laws_def json_instance_def AList.update_conv' AList.dom_update split: option.splits)

end
