(* ===== verification/Client_Manager.thy ===== *)
theory Client_Manager
  imports Json_Api
begin

text \<open>
  The clients that are logged in: \<open>src/client_manager.h\<close>, \<open>src/client_manager.cpp\<close>,
  \<open>src/client.h\<close>, \<open>src/client_interface.h\<close> and \<open>src/error_code.h\<close>. The manager calls a client
  through the virtual functions of \<open>client_interface\<close>, here the fields of a record; \<open>client\<close> is
  the one class that implements them. None is an exception that leaves the function.
\<close>

section \<open>error\_code.h\<close>

datatype error_code =
    SUCCEEDED | USER_NOT_LOGIN | USER_NOT_EXIST | JSON_PARSER_ERROR | JSON_GETVALUE_EXCEPTION
  | TEST_ERROR_CODE | UNKNOWN_ERROR

primrec error_num :: "error_code \<Rightarrow> int" where
  "error_num SUCCEEDED = 0"
| "error_num USER_NOT_LOGIN = 1"
| "error_num USER_NOT_EXIST = 2"
| "error_num JSON_PARSER_ERROR = 3"
| "error_num JSON_GETVALUE_EXCEPTION = 4"
| "error_num TEST_ERROR_CODE = 9527"
| "error_num UNKNOWN_ERROR = 2147483647"

lemma error_num_inject [simp]: "error_num a = error_num b \<longleftrightarrow> a = b"
  by (cases a; cases b) simp_all

section \<open>client\_interface.h\<close>

text \<open>The virtual functions, of a client of type \<open>'c\<close>, with the client afterwards.\<close>

record ('c, 'j) client_interface =
  init_user_info :: "int \<Rightarrow> 'c \<Rightarrow> (error_code \<times> 'c) option"
  client_do_some :: "'j \<Rightarrow> 'j \<Rightarrow> 'c \<Rightarrow> (error_code \<times> 'j \<times> 'c) option"
  get_session_data :: "'j \<Rightarrow> 'c \<Rightarrow> 'j option"

section \<open>client\<close>

text \<open>
  A client's data and number, and how many waits are pending on its timer, whose expiry is set
  by the constructor to 7200 seconds and by nothing else. \<open>id_\<close> has no value until
  \<open>init_user_info\<close>.
\<close>

record 'j client =
  m_session_data :: 'j
  client_id :: "int option"
  timer_waits :: nat

definition client_new :: "'j jsoncpp \<Rightarrow> 'j client" where
  "client_new J = \<lparr>m_session_data = js_null J, client_id = None, timer_waits = 0\<rparr>"

definition start_timer :: "'j client \<Rightarrow> 'j client" where
  "start_timer c = c\<lparr>timer_waits := timer_waits c + 1\<rparr>"

text \<open>\<open>rnd\<close> is what \<open>rand ()\<close> returns.\<close>

definition client_init_user_info ::
  "'j jsoncpp \<Rightarrow> int \<Rightarrow> int \<Rightarrow> 'j client \<Rightarrow> (error_code \<times> 'j client) option" where
  "client_init_user_info J rnd uid c = do {
     let c = start_timer c;
     s \<leftarrow> js_clear J (m_session_data c);
     s \<leftarrow> js_set J s ''Value'' (js_int J rnd);
     s \<leftarrow> js_set J s ''Name'' (js_string J ''ZX'');
     s \<leftarrow> js_set J s ''UsrID'' (js_int J uid);
     v \<leftarrow> js_set J (js_null J) ''subObj'' (js_int J 100);
     s \<leftarrow> js_set J s ''sub1'' v;
     Some (USER_NOT_EXIST, c\<lparr>m_session_data := s, client_id := Some uid\<rparr>)
   }"

definition client_logic :: "'j \<Rightarrow> 'j \<Rightarrow> 'j client \<Rightarrow> (error_code \<times> 'j \<times> 'j client) option" where
  "client_logic root res c = Some (TEST_ERROR_CODE, res, start_timer c)"

text \<open>The members of a copy of the data are swapped into the response, one by one.\<close>

fun set_members :: "'j jsoncpp \<Rightarrow> (byte list \<times> 'j) list \<Rightarrow> 'j \<Rightarrow> 'j option" where
  "set_members J [] res = Some res"
| "set_members J ((k, x) # kvs) res = do { res \<leftarrow> js_set J res k x; set_members J kvs res }"

definition client_session_data :: "'j jsoncpp \<Rightarrow> 'j \<Rightarrow> 'j client \<Rightarrow> 'j option" where
  "client_session_data J res c = set_members J (js_members J (m_session_data c)) res"

definition client_class :: "'j jsoncpp \<Rightarrow> int \<Rightarrow> ('j client, 'j) client_interface" where
  "client_class J rnd =
     \<lparr>init_user_info = client_init_user_info J rnd, client_do_some = client_logic,
      get_session_data = client_session_data J\<rparr>"

section \<open>client\_manager\<close>

text \<open>
  \<open>m_client\<close>. The operations of this section run under \<open>m_lock\<close>. The clients are made in one place,
  with \<open>new client\<close>, so what a virtual call reaches is always \<open>client_class\<close>; \<open>rnd\<close> is what \<open>rand ()\<close>
  returns in the initialisation.
\<close>

type_synonym 'c clients = "int \<Rightarrow> 'c option"

definition find_client_use_id :: "int \<Rightarrow> 'c clients \<Rightarrow> error_code \<times> 'c option" where
  "find_client_use_id uid m = (case m uid of Some c \<Rightarrow> (SUCCEEDED, Some c) | None \<Rightarrow> (USER_NOT_LOGIN, None))"

text \<open>\<open>unordered_map::insert\<close> leaves an entry that is there.\<close>

definition insert_client :: "int \<Rightarrow> 'c \<Rightarrow> 'c clients \<Rightarrow> bool \<times> 'c clients" where
  "insert_client uid c m = (if m uid = None then (True, m(uid \<mapsto> c)) else (False, m))"

definition erase_client :: "int \<Rightarrow> 'c clients \<Rightarrow> 'c clients" where
  "erase_client uid m = (if m uid \<noteq> None then m(uid := None) else m)"

definition insert_client_use_id ::
  "'j jsoncpp \<Rightarrow> int \<Rightarrow> int \<Rightarrow> 'j client clients \<Rightarrow>
   (error_code \<times> 'j client option \<times> 'j client clients) option"
where
  "insert_client_use_id J rnd uid m =
     (let (ec, sc) = find_client_use_id uid m
      in if ec \<noteq> SUCCEEDED then do {
           (ec, c) \<leftarrow> init_user_info (client_class J rnd) uid (client_new J);
           if ec \<noteq> SUCCEEDED then Some (ec, None, m)
           else let (inserted, m') = insert_client uid c m
                in Some (if \<not> inserted then UNKNOWN_ERROR else SUCCEEDED, Some c, m')
         }
         else Some (ec, sc, m))"

definition errorcode :: "'j jsoncpp \<Rightarrow> 'j \<Rightarrow> error_code \<Rightarrow> 'j option" where
  "errorcode J res ec = js_set J res ''errorcode'' (js_int J (error_num ec))"

definition process_login ::
  "'j jsoncpp \<Rightarrow> int \<Rightarrow> int \<Rightarrow> 'j \<Rightarrow> 'j client clients \<Rightarrow> ('j \<times> 'j client clients) option"
where
  "process_login J rnd uid res m =
     (let (ec, sc) = find_client_use_id uid m in do {
        (sc, res, m) \<leftarrow>
          (if ec \<noteq> SUCCEEDED then do {
             (ec, sc, m) \<leftarrow> insert_client_use_id J rnd uid m;
             res \<leftarrow> errorcode J res ec;
             Some (sc, res, m)
           }
           else Some (sc, res, m));
        res \<leftarrow> (case sc of Some c \<Rightarrow> get_session_data (client_class J rnd) res c | None \<Rightarrow> Some res);
        Some (res, m)
      })"

definition process_logic ::
  "'j jsoncpp \<Rightarrow> int \<Rightarrow> 'j \<Rightarrow> 'j \<Rightarrow> 'j client clients \<Rightarrow> ('j \<times> 'j client clients) option"
where
  "process_logic J rnd root res m = do {
     v \<leftarrow> js_get J root ''UsrID'';
     uid \<leftarrow> js_as_int J v;
     let (ec, sc) = find_client_use_id uid m in do {
       (ec, res, m) \<leftarrow>
         (case sc of
            Some c \<Rightarrow> do {
              (ec, res, c) \<leftarrow> client_do_some (client_class J rnd) root res c;
              res \<leftarrow> get_session_data (client_class J rnd) res c;
              Some (ec, res, m(uid \<mapsto> c))
            }
          | None \<Rightarrow> Some (ec, res, m));
       res \<leftarrow> errorcode J res ec;
       Some (res, m)
     }
   }"

text \<open>
  The three values in the \<open>try\<close> block; None is the caught exception. Reading a member that is
  missing adds a null member to \<open>root\<close>, which no later read tells from a missing one.
\<close>

definition message_values :: "'j jsoncpp \<Rightarrow> 'j \<Rightarrow> (byte list \<times> byte list \<times> int) option" where
  "message_values J root = do {
     v \<leftarrow> js_get J root ''ClientVersion'';
     ClientVersion \<leftarrow> js_as_string J v;
     v \<leftarrow> js_get J root ''SceneId'';
     SceneId \<leftarrow> js_as_string J v;
     v \<leftarrow> js_get J root ''UsrID'';
     iUsrID \<leftarrow> js_as_int J v;
     Some (ClientVersion, SceneId, iUsrID)
   }"

text \<open>\<open>do_some\<close> on the bytes of the body and the response value \<open>res\<close>: the \<open>do\<close> block.\<close>

definition handle_message ::
  "'j jsoncpp \<Rightarrow> int \<Rightarrow> byte list \<Rightarrow> 'j \<Rightarrow> 'j client clients \<Rightarrow> ('j \<times> 'j client clients) option"
where
  "handle_message J rnd body res m =
     (case js_parse J body of
        None \<Rightarrow> do { res \<leftarrow> errorcode J res JSON_PARSER_ERROR; Some (res, m) }
      | Some root \<Rightarrow>
          (case message_values J root of
             None \<Rightarrow> do { res \<leftarrow> errorcode J res JSON_GETVALUE_EXCEPTION; Some (res, m) }
           | Some (ClientVersion, SceneId, iUsrID) \<Rightarrow>
               if ClientVersion \<noteq> ''0.0.1'' then process_logic J rnd root res m
               else process_login J rnd iUsrID res m))"

text \<open>\<open>res["errormsg"] = res["errorcode"].asString ()\<close>\<close>

definition errormsg :: "'j jsoncpp \<Rightarrow> 'j \<Rightarrow> 'j option" where
  "errormsg J res = do {
     code \<leftarrow> js_get J res ''errorcode'';
     msg \<leftarrow> js_as_string J code;
     js_set J res ''errormsg'' (js_string J msg)
   }"

text \<open>The result of \<open>do_some\<close> is always true.\<close>

definition do_some ::
  "'j jsoncpp \<Rightarrow> int \<Rightarrow> byte list \<Rightarrow> 'j \<Rightarrow> 'j client clients \<Rightarrow> ('j \<times> 'j client clients) option"
where
  "do_some J rnd body res m = do {
     res \<leftarrow> errorcode J res SUCCEEDED;
     (res, m) \<leftarrow> handle_message J rnd body res m;
     res \<leftarrow> errormsg J res;
     Some (res, m)
   }"

text \<open>
  The handler of a wait on the timer of a client that is still alive: unless the wait was
  cancelled, the client is removed from the manager.
\<close>

definition timer_handler :: "bool \<Rightarrow> 'j client \<Rightarrow> 'j client clients \<Rightarrow> 'j client clients" where
  "timer_handler operation_aborted c m =
     (if operation_aborted then m
      else case client_id c of Some uid \<Rightarrow> erase_client uid m | None \<Rightarrow> m)"

section \<open>What the manager answers\<close>

lemma errorcode_ok:
  assumes "json_laws J obj" "obj res"
  shows "\<exists>res'. errorcode J res ec = Some res' \<and> obj res'
    \<and> js_get J res' ''errorcode'' = Some (js_int J (error_num ec))"
  using json_set [OF assms, of "''errorcode''" "js_int J (error_num ec)"]
  by (auto simp: errorcode_def)

text \<open>The response has the code \<open>ec\<close>, and its digits as the message.\<close>

definition answer :: "'j jsoncpp \<Rightarrow> 'j \<Rightarrow> error_code \<Rightarrow> bool" where
  "answer J res ec \<longleftrightarrow>
     js_get J res ''errorcode'' = Some (js_int J (error_num ec))
     \<and> js_get J res ''errormsg'' = Some (js_string J (int_string (error_num ec)))"

lemma errormsg_ok:
  assumes laws: "json_laws J obj" and res: "obj res"
    and code: "js_get J res ''errorcode'' = Some (js_int J (error_num ec))"
  shows "\<exists>res'. errormsg J res = Some res' \<and> obj res' \<and> answer J res' ec"
  using json_set [OF laws res, of "''errormsg''" "js_string J (int_string (error_num ec))"] code json_int [OF laws]
  by (auto simp: errormsg_def answer_def)

text \<open>So \<open>do_some\<close> answers with the code that the \<open>do\<close> block leaves.\<close>

lemma do_some_answer:
  assumes laws: "json_laws J obj" and res: "obj res"
    and handle: "\<And>res1. obj res1 \<Longrightarrow> js_get J res1 ''errorcode'' = Some (js_int J (error_num SUCCEEDED)) \<Longrightarrow>
      \<exists>res2. handle_message J rnd body res1 m = Some (res2, m') \<and> obj res2
        \<and> js_get J res2 ''errorcode'' = Some (js_int J (error_num ec))"
  shows "\<exists>res'. do_some J rnd body res m = Some (res', m') \<and> obj res' \<and> answer J res' ec"
proof -
  from errorcode_ok [OF laws res, of SUCCEEDED] obtain res1 where
    res1: "errorcode J res SUCCEEDED = Some res1" "obj res1"
      "js_get J res1 ''errorcode'' = Some (js_int J (error_num SUCCEEDED))" by blast
  from handle [OF res1(2,3)] obtain res2 where
    res2: "handle_message J rnd body res1 m = Some (res2, m')" "obj res2"
      "js_get J res2 ''errorcode'' = Some (js_int J (error_num ec))" by blast
  from errormsg_ok [OF laws res2(2,3)] res1(1) res2(1) show ?thesis
    by (auto simp: do_some_def)
qed

lemma client_init_result:
  assumes laws: "json_laws J obj"
  shows "\<exists>c. client_init_user_info J rnd uid (client_new J) = Some (USER_NOT_EXIST, c)"
proof -
  have null: "obj (js_null J)" using laws by (rule json_null)
  obtain s0 where s0: "js_clear J (js_null J) = Some s0" "obj s0" using json_clear [OF laws null] by blast
  have step: "\<exists>t. js_set J s k x = Some t \<and> obj t" if "obj s" for s k x
    using json_set [OF laws that, of k x] by blast
  obtain s1 where s1: "js_set J s0 ''Value'' (js_int J rnd) = Some s1" "obj s1" using step [OF s0(2)] by blast
  obtain s2 where s2: "js_set J s1 ''Name'' (js_string J ''ZX'') = Some s2" "obj s2" using step [OF s1(2)] by blast
  obtain s3 where s3: "js_set J s2 ''UsrID'' (js_int J uid) = Some s3" "obj s3" using step [OF s2(2)] by blast
  obtain v where v: "js_set J (js_null J) ''subObj'' (js_int J 100) = Some v" using step [OF null] by blast
  obtain s4 where s4: "js_set J s3 ''sub1'' v = Some s4" using step [OF s3(2)] by blast
  show ?thesis
    using s0 s1 s2 s3 v s4 by (simp add: client_init_user_info_def client_new_def start_timer_def)
qed

text \<open>What comes out of the initialisation, if anything does, is always \<open>USER_NOT_EXIST\<close>.\<close>

lemma client_init_code: "client_init_user_info J rnd uid c = Some (ec, c') \<Longrightarrow> ec = USER_NOT_EXIST"
  by (auto simp: client_init_user_info_def bind_eq_Some_conv Let_def)

section \<open>The managers the server can come to\<close>

inductive manager_reach :: "'j jsoncpp \<Rightarrow> 'j client clients \<Rightarrow> bool" for J :: "'j jsoncpp" where
  manager_new: "manager_reach J (\<lambda>_. None)"
| manager_message:
    "manager_reach J m \<Longrightarrow>
     do_some J rnd body res m = Some (res', m') \<Longrightarrow> manager_reach J m'"
| manager_erase: "manager_reach J m \<Longrightarrow> manager_reach J (erase_client uid m)"
| manager_timer: "manager_reach J m \<Longrightarrow> manager_reach J (timer_handler aborted c m)"

lemma login_empty:
  assumes "process_login J rnd uid res (\<lambda>_. None) = Some (res', m')"
  shows "m' = (\<lambda>_. None)"
  using assms
  by (auto simp: process_login_def find_client_use_id_def insert_client_use_id_def Let_def client_class_def
      bind_eq_Some_conv split: if_splits prod.splits option.splits dest!: client_init_code)

lemma logic_empty:
  assumes "process_logic J rnd root res (\<lambda>_. None) = Some (res', m')"
  shows "m' = (\<lambda>_. None)"
  using assms by (auto simp: process_logic_def find_client_use_id_def bind_eq_Some_conv)

lemma handle_empty:
  assumes "handle_message J rnd body res (\<lambda>_. None) = Some (res', m')"
  shows "m' = (\<lambda>_. None)"
  using assms
  by (auto simp: handle_message_def bind_eq_Some_conv split: option.splits if_splits
      dest: login_empty logic_empty)

lemma manager_empty:
  assumes "manager_reach J m"
  shows "m = (\<lambda>_. None)"
  using assms
proof (induction rule: manager_reach.induct)
  case (manager_message m rnd body res res' m')
  then show ?case
    by (auto simp: do_some_def bind_eq_Some_conv dest: handle_empty)
qed (simp_all add: erase_client_def timer_handler_def split: option.split)

text \<open>
  C14. No client is ever stored. \<open>client::init_user_info\<close> returns \<open>USER_NOT_EXIST\<close> in every case,
  so however many messages arrive, clients are erased and timers fire, the map of clients stays
  empty: nobody can log in.
\<close>

theorem manager_stays_empty:
  assumes "manager_reach J m"
  shows "m = (\<lambda>_. None)"
  using assms by (rule manager_empty)

lemma manager_stays_empty_witness:
  "erase_client 7 (timer_handler False (client_new (json_instance (\<lambda>_. None))) (\<lambda>_. None)) = (\<lambda>_. None)"
  by (rule manager_stays_empty [where J = "json_instance (\<lambda>_. None)"])
    (intro manager_erase manager_timer manager_new)

section \<open>Answers\<close>

definition expected_code :: "'j jsoncpp \<Rightarrow> byte list \<Rightarrow> error_code" where
  "expected_code J body =
     (case js_parse J body of
        None \<Rightarrow> JSON_PARSER_ERROR
      | Some root \<Rightarrow>
          (case message_values J root of
             None \<Rightarrow> JSON_GETVALUE_EXCEPTION
           | Some (ver, scene, uid) \<Rightarrow> if ver \<noteq> ''0.0.1'' then USER_NOT_LOGIN else USER_NOT_EXIST))"

lemma message_uid:
  "message_values J root = Some (ver, scene, uid) \<Longrightarrow>
   \<exists>v. js_get J root ''UsrID'' = Some v \<and> js_as_int J v = Some uid"
  by (auto simp: message_values_def bind_eq_Some_conv)

lemma login_unknown:
  assumes laws: "json_laws J obj" and res: "obj res" and m: "m uid = None"
  shows "\<exists>res'. process_login J rnd uid res m = Some (res', m) \<and> obj res'
    \<and> js_get J res' ''errorcode'' = Some (js_int J (error_num USER_NOT_EXIST))"
  using client_init_result [OF laws, of rnd uid] errorcode_ok [OF laws res, of USER_NOT_EXIST] m
  by (auto simp: process_login_def insert_client_use_id_def find_client_use_id_def client_class_def)

lemma logic_unknown:
  assumes laws: "json_laws J obj" and res: "obj res" and m: "m uid = None"
    and uid: "js_get J root ''UsrID'' = Some v" "js_as_int J v = Some uid"
  shows "\<exists>res'. process_logic J rnd root res m = Some (res', m) \<and> obj res'
    \<and> js_get J res' ''errorcode'' = Some (js_int J (error_num USER_NOT_LOGIN))"
  using errorcode_ok [OF laws res, of USER_NOT_LOGIN] m uid
  by (auto simp: process_logic_def find_client_use_id_def)

lemma do_some_expected:
  assumes laws: "json_laws J obj" and res: "obj res" and reach: "manager_reach J m"
  shows "\<exists>res'. do_some J rnd body res m = Some (res', m) \<and> obj res'
    \<and> answer J res' (expected_code J body)"
proof -
  have m: "m uid = None" for uid
    using manager_empty [OF reach] by simp
  have "\<exists>res2. handle_message J rnd body res1 m = Some (res2, m) \<and> obj res2
      \<and> js_get J res2 ''errorcode'' = Some (js_int J (error_num (expected_code J body)))"
    if res1: "obj res1" for res1
  proof (cases "js_parse J body")
    case None
    then show ?thesis
      using errorcode_ok [OF laws res1, of JSON_PARSER_ERROR]
      by (auto simp: handle_message_def expected_code_def)
  next
    case root: (Some root)
    show ?thesis
    proof (cases "message_values J root")
      case None
      then show ?thesis
        using root errorcode_ok [OF laws res1, of JSON_GETVALUE_EXCEPTION]
        by (auto simp: handle_message_def expected_code_def)
    next
      case (Some vals)
      then obtain ver scene uid where vals: "message_values J root = Some (ver, scene, uid)"
        by (cases vals) auto
      from message_uid [OF this] obtain v where
        "js_get J root ''UsrID'' = Some v" "js_as_int J v = Some uid" by blast
      then show ?thesis
        using root vals login_unknown [OF laws res1 m, of rnd uid]
          logic_unknown [OF laws res1 m, of root v uid rnd]
        by (cases "ver = ''0.0.1''") (simp_all add: handle_message_def expected_code_def)
    qed
  qed
  then show ?thesis by (intro do_some_answer [OF laws res])
qed

text \<open>
  C13. Every message that the server can get is answered: \<open>do_some\<close> lets no exception out, the
  members \<open>errorcode\<close> and \<open>errormsg\<close> of the response are the number and the digits of
  \<open>JSON_PARSER_ERROR\<close> for a body that is no JSON, of \<open>JSON_GETVALUE_EXCEPTION\<close> when one of the
  three members has the wrong type, of \<open>USER_NOT_LOGIN\<close> for a message of the business logic, and
  of \<open>USER_NOT_EXIST\<close> for a login; the clients do not change.
\<close>

theorem do_some_answers:
  assumes "json_laws J obj" and "obj res" and "manager_reach J m"
  shows "\<exists>res'. do_some J rnd body res m = Some (res', m)
    \<and> answer J res' (expected_code J body)"
  using do_some_expected [OF assms] by blast

lemma do_some_answers_witness:
  "let J = json_instance (\<lambda>bs. if bs = ''x'' then Some (JObject [(''UsrID'', JInt 7)]) else None)
   in \<exists>res'. do_some J 42 ''x'' JNull (\<lambda>_. None) = Some (res', \<lambda>_. None)
        \<and> answer J res' USER_NOT_LOGIN"
proof -
  let ?J = "json_instance (\<lambda>bs. if bs = ''x'' then Some (JObject [(''UsrID'', JInt 7)]) else None)"
  have "expected_code ?J ''x'' = USER_NOT_LOGIN"
    by (simp add: expected_code_def message_values_def json_instance_def)
  then show ?thesis
    using do_some_answers [OF json_instance_laws _ manager_new, of JNull
        "\<lambda>bs. if bs = ''x'' then Some (JObject [(''UsrID'', JInt 7)]) else None" 42 "''x''"]
    by simp
qed

lemma set_members_ok:
  assumes laws: "json_laws J obj"
  shows "obj res \<Longrightarrow> \<exists>res'. set_members J kvs res = Some res' \<and> obj res'
    \<and> (\<forall>k. k \<notin> fst ` set kvs \<longrightarrow> js_get J res' k = js_get J res k)
    \<and> (\<forall>k x. (k, x) \<in> set kvs \<longrightarrow> distinct (map fst kvs) \<longrightarrow> js_get J res' k = Some x)"
proof (induction kvs arbitrary: res)
  case (Cons kv kvs)
  obtain k x where kv: "kv = (k, x)" by (cases kv)
  from json_set [OF laws Cons.prems, of k x] obtain res1 where
    res1: "js_set J res k x = Some res1" "obj res1"
      "\<forall>k'. js_get J res1 k' = (if k' = k then Some x else js_get J res k')" by blast
  from Cons.IH [OF res1(2)] obtain res' where
    res': "set_members J kvs res1 = Some res'" "obj res'"
      "\<forall>k. k \<notin> fst ` set kvs \<longrightarrow> js_get J res' k = js_get J res1 k"
      "\<forall>k x. (k, x) \<in> set kvs \<longrightarrow> distinct (map fst kvs) \<longrightarrow> js_get J res' k = Some x" by blast
  have "set_members J (kv # kvs) res = Some res'" using kv res1(1) res'(1) by simp
  moreover have "js_get J res' k' = js_get J res k'" if "k' \<notin> fst ` set (kv # kvs)" for k'
    using that kv res1(3) res'(3) by auto
  moreover have "js_get J res' k' = Some x'" if "(k', x') \<in> set (kv # kvs)" "distinct (map fst (kv # kvs))" for k' x'
    using that kv res1(3) res'(3,4) by auto
  ultimately show ?case using res'(2) by blast
qed simp

text \<open>
  C15. A message of the business logic for a client that is stored, whose data are an object with
  the members \<open>client::init_user_info\<close> makes (so \<open>errorcode\<close> and \<open>errormsg\<close> are not among them),
  is answered with \<open>TEST_ERROR_CODE\<close> and every member of the client's data; the client gets one
  more wait on its timer, and no other client changes.
\<close>

theorem logic_answers_session_data:
  assumes laws: "json_laws J obj" and res: "obj res"
    and logic: "js_parse J body = Some root" "message_values J root = Some (ver, scene, uid)" "ver \<noteq> ''0.0.1''"
    and m: "m uid = Some c"
    and data: "distinct (map fst (js_members J (m_session_data c)))"
      "''errorcode'' \<notin> fst ` set (js_members J (m_session_data c))"
      "''errormsg'' \<notin> fst ` set (js_members J (m_session_data c))"
  shows "\<exists>res'. do_some J rnd body res m = Some (res', m(uid \<mapsto> start_timer c))
    \<and> answer J res' TEST_ERROR_CODE
    \<and> (\<forall>(k, x) \<in> set (js_members J (m_session_data c)). js_get J res' k = Some x)"
proof -
  let ?kvs = "js_members J (m_session_data c)"
  from message_uid [OF logic(2)] obtain v where v: "js_get J root ''UsrID'' = Some v" "js_as_int J v = Some uid"
    by blast
  obtain res1 where res1: "errorcode J res SUCCEEDED = Some res1" "obj res1"
    using errorcode_ok [OF laws res] by blast
  from set_members_ok [OF laws res1(2), of ?kvs] data(1) obtain res2 where
    res2: "set_members J ?kvs res1 = Some res2" "obj res2"
      "\<forall>k x. (k, x) \<in> set ?kvs \<longrightarrow> js_get J res2 k = Some x" by blast
  from json_set [OF laws res2(2), of "''errorcode''" "js_int J (error_num TEST_ERROR_CODE)"] obtain res3 where
    res3: "errorcode J res2 TEST_ERROR_CODE = Some res3" "obj res3"
      "\<forall>k. js_get J res3 k = (if k = ''errorcode'' then Some (js_int J (error_num TEST_ERROR_CODE))
         else js_get J res2 k)"
    by (auto simp: errorcode_def)
  from json_set [OF laws res3(2), of "''errormsg''" "js_string J (int_string (error_num TEST_ERROR_CODE))"] obtain res4 where
    res4: "js_set J res3 ''errormsg'' (js_string J (int_string (error_num TEST_ERROR_CODE))) = Some res4"
      "\<forall>k. js_get J res4 k = (if k = ''errormsg'' then Some (js_string J (int_string (error_num TEST_ERROR_CODE)))
         else js_get J res3 k)" by blast
  have "errormsg J res3 = Some res4"
    using res3(3) res4(1) json_int [OF laws] by (simp add: errormsg_def)
  moreover have "handle_message J rnd body res1 m
      = Some (res3, m(uid \<mapsto> start_timer c))"
    using logic v m res2(1) res3(1)
    by (simp add: handle_message_def process_logic_def find_client_use_id_def client_class_def client_logic_def
        client_session_data_def start_timer_def)
  moreover have "answer J res4 TEST_ERROR_CODE" using res3(3) res4(2) by (simp add: answer_def)
  moreover have "\<forall>(k, x) \<in> set ?kvs. js_get J res4 k = Some x"
  proof clarify
    fix k x assume kx: "(k, x) \<in> set ?kvs"
    then have "k \<noteq> ''errorcode''" "k \<noteq> ''errormsg''" using data(2,3) by force+
    with kx show "js_get J res4 k = Some x" using res2(3) res3(3) res4(2) by simp
  qed
  ultimately show ?thesis
    using res1(1) by (simp add: do_some_def)
qed

lemma logic_answers_session_data_witness:
  "let J = json_instance (\<lambda>_. Some (JObject [(''UsrID'', JInt 7)]));
       c = \<lparr>m_session_data = JObject [(''Name'', JString ''ZX'')], client_id = Some 7, timer_waits = 1\<rparr>
   in \<exists>res'. do_some J 0 ''x'' JNull [7 \<mapsto> c] = Some (res', [7 \<mapsto> start_timer c])
        \<and> answer J res' TEST_ERROR_CODE"
proof -
  define J where "J = json_instance (\<lambda>_. Some (JObject [(''UsrID'', JInt 7)]))"
  define c where "c = \<lparr>m_session_data = JObject [(''Name'', JString ''ZX'')], client_id = Some (7 :: int), timer_waits = 1\<rparr>"
  have "message_values J (JObject [(''UsrID'', JInt 7)]) = Some ([], [], 7)"
    by (simp add: message_values_def J_def json_instance_def)
  then show ?thesis
    using logic_answers_session_data [where J = J and obj = json_object and m = "[7 \<mapsto> c]" and uid = 7 and c = c
        and rnd = 0 and body = "''x''" and res = JNull and root = "JObject [(''UsrID'', JInt 7)]"]
    unfolding J_def c_def Let_def by (simp add: json_instance_laws) (auto simp: json_instance_def)
qed

end
