(* ===== verification/Http_Session.thy ===== *)
theory Http_Session
  imports Parser_Api Client_Manager
begin

text \<open>
  A connection: \<open>src/http_session.h\<close> and \<open>src/http_session.cpp\<close>. The callbacks that
  \<open>http_session::start\<close> sets run inside \<open>http_parser_execute\<close>; the completion handlers of the
  asynchronous operations (\<open>onRead\<close>, \<open>onWrite\<close>, the timer) are the steps of a session. What the
  network does is which handler runs and what a read puts into the buffer.
\<close>

section \<open>State\<close>

definition max_length :: nat where
  "max_length = 2048"

text \<open>
  The members of \<open>http_session\<close> other than the parser, and what has become of it: the texts
  given to \<open>async_write\<close>, whether a read is outstanding, whether \<open>close\<close> has run, whether an
  exception or undefined behaviour came out of the message handler, and the state \<open>'s\<close> of the
  server that the message handler changes.
\<close>

record ('j, 's) session =
  s_request :: request
  s_response :: "'j response"
  s_data :: "byte list"
  s_pos :: nat
  s_process :: bool
  s_outbox :: "byte list list"
  s_reading :: bool
  s_closed :: bool
  s_fault :: bool
  s_server :: 's

text \<open>
  \<open>http_server::invoke\<close>: the function that the server was given, on the bytes of the request
  body and the value of the response. None is an exception.
\<close>

type_synonym ('j, 's) message_handler = "byte list \<Rightarrow> 'j \<Rightarrow> 's \<Rightarrow> ('j \<times> 's) option"

text \<open>The bytes from \<open>get_body ()\<close> to \<open>get_body () + get_body_len ()\<close>.\<close>

definition request_body :: "('j, 's) session \<Rightarrow> byte list" where
  "request_body s =
     (case req_body (s_request s) of
        None \<Rightarrow> []
      | Some b \<Rightarrow> byte_range (s_data s) b (req_len (s_request s)))"

section \<open>Callbacks\<close>

text \<open>The parser runs on the buffer from \<open>data_ + pos_\<close>, so \<open>at\<close> is \<open>pos_ + m\<close> in \<open>data_\<close>.\<close>

definition session_on_body :: "('j, 's) session http_data_cb" where
  "session_on_body ps m bytes s =
     (0, ps, s\<lparr>s_request := (s_request s)\<lparr>req_body := Some (s_pos s + m), req_len := length bytes\<rparr>\<rparr>)"

definition do_write :: "byte list \<Rightarrow> ('j, 's) session \<Rightarrow> ('j, 's) session" where
  "do_write respons s = s\<lparr>s_outbox := s_outbox s @ [respons]\<rparr>"

definition session_on_message_complete ::
  "'j jsoncpp \<Rightarrow> ('j, 's) message_handler \<Rightarrow> ('j, 's) session http_cb" where
  "session_on_message_complete J h ps s =
     (case h (request_body s) (res_root (s_response s)) (s_server s) of
        None \<Rightarrow> (0, ps, s\<lparr>s_fault := True\<rparr>)
      | Some (root, srv) \<Rightarrow>
          let s = s\<lparr>s_response := (s_response s)\<lparr>res_root := root\<rparr>, s_server := srv, s_process := True\<rparr>
          in case response_end (js_write J) (s_response s) of
               None \<Rightarrow> (0, ps, s\<lparr>s_fault := True\<rparr>)
             | Some (txt, r) \<Rightarrow> (0, ps, do_write txt (s\<lparr>s_response := r\<rparr>)))"

definition session_settings :: "'j jsoncpp \<Rightarrow> ('j, 's) message_handler \<Rightarrow> ('j, 's) session http_parser_settings"
where
  "session_settings J h =
     http_parser_settings_init
       \<lparr>on_body := Some session_on_body, on_message_complete := Some (session_on_message_complete J h)\<rparr>"

section \<open>Handlers\<close>

definition close_session :: "('j, 's) session \<Rightarrow> ('j, 's) session" where
  "close_session s = s\<lparr>s_closed := True, s_reading := False\<rparr>"

definition do_read :: "('j, 's) session \<Rightarrow> ('j, 's) session" where
  "do_read s = s\<lparr>s_reading := True\<rparr>"

text \<open>The constructor; the contents of \<open>data_\<close> are arbitrary.\<close>

definition session_new :: "'j jsoncpp \<Rightarrow> byte list \<Rightarrow> 's \<Rightarrow> ('j, 's) session" where
  "session_new J data srv =
     \<lparr>s_request = request_new, s_response = response_new (js_null J), s_data = data, s_pos = 0,
      s_process = False, s_outbox = [], s_reading = False, s_closed = False, s_fault = False,
      s_server = srv\<rparr>"

text \<open>\<open>start\<close>: the parser is initialised for requests, \<open>this\<close> is its \<open>data\<close>, and the first read begins.\<close>

definition session_start ::
  "uint64 \<Rightarrow> http_parser \<times> ('j, 's) session \<Rightarrow> http_parser \<times> ('j, 's) session" where
  "session_start this_ptr =
     (\<lambda>(ps, s). ((http_parser_init ps HTTP_REQUEST)\<lparr>p_data := this_ptr\<rparr>, do_read s))"

text \<open>A read puts bytes into the buffer from \<open>pos_\<close> on.\<close>

definition fill :: "byte list \<Rightarrow> ('j, 's) session \<Rightarrow> ('j, 's) session" where
  "fill bs s =
     s\<lparr>s_data := take (s_pos s) (s_data s) @ bs @ drop (s_pos s + length bs) (s_data s), s_reading := False\<rparr>"

text \<open>
  \<open>onRead\<close> without an error, for the bytes that were read. The number of bytes that the parser
  took, and its errno, are not looked at. None is a fault in the parser, an exception, or
  undefined behaviour.
\<close>

definition onRead ::
  "'j jsoncpp \<Rightarrow> ('j, 's) message_handler \<Rightarrow> byte list \<Rightarrow> http_parser \<times> ('j, 's) session
     \<Rightarrow> (http_parser \<times> ('j, 's) session) option" where
  "onRead J h bs =
     (\<lambda>(ps, s).
       case http_parser_execute (session_settings J h) bs ps (fill bs s) of
         Some (Returned n ps s) \<Rightarrow>
           if s_fault s then None
           else let s = s\<lparr>s_pos := s_pos s + length bs\<rparr>
                in Some (ps, if \<not> s_process s
                             then (if max_length \<le> s_pos s then close_session s else do_read s)
                             else s)
       | _ \<Rightarrow> None)"

text \<open>\<open>onRead\<close> with an error, \<open>onWrite\<close> (with or without an error), and the timer.\<close>

definition onRead_error :: "http_parser \<times> ('j, 's) session \<Rightarrow> http_parser \<times> ('j, 's) session" where
  "onRead_error = (\<lambda>(ps, s). (ps, close_session s))"

definition onWrite :: "http_parser \<times> ('j, 's) session \<Rightarrow> http_parser \<times> ('j, 's) session" where
  "onWrite = (\<lambda>(ps, s). (ps, close_session s))"

definition onTimer :: "bool \<Rightarrow> http_parser \<times> ('j, 's) session \<Rightarrow> http_parser \<times> ('j, 's) session" where
  "onTimer operation_aborted = (\<lambda>(ps, s). (ps, if operation_aborted then s else close_session s))"

section \<open>Steps\<close>

text \<open>
  A read completes only while one is outstanding, with at most as many bytes as the buffer given
  to it holds; a write completes only if one was begun. A closed session takes no more steps:
  the server has dropped its pointer, and the handlers hold weak ones. Other sessions may change
  the server's state within \<open>W\<close> in between.
\<close>

inductive session_step ::
  "'j jsoncpp \<Rightarrow> ('j, 's) message_handler \<Rightarrow> ('s \<Rightarrow> bool) \<Rightarrow> http_parser \<times> ('j, 's) session
     \<Rightarrow> http_parser \<times> ('j, 's) session \<Rightarrow> bool"
  for J :: "'j jsoncpp" and h :: "('j, 's) message_handler" and W :: "'s \<Rightarrow> bool"
where
  step_read:
    "\<not> s_closed s \<Longrightarrow> s_reading s \<Longrightarrow> length bs \<le> max_length - s_pos s \<Longrightarrow> onRead J h bs (ps, s) = Some c \<Longrightarrow>
     session_step J h W (ps, s) c"
| step_read_error: "\<not> s_closed s \<Longrightarrow> s_reading s \<Longrightarrow> session_step J h W (ps, s) (onRead_error (ps, s))"
| step_write: "\<not> s_closed s \<Longrightarrow> s_outbox s \<noteq> [] \<Longrightarrow> session_step J h W (ps, s) (onWrite (ps, s))"
| step_timer: "\<not> s_closed s \<Longrightarrow> session_step J h W (ps, s) (onTimer aborted (ps, s))"
| step_other: "\<not> s_closed s \<Longrightarrow> W srv \<Longrightarrow> session_step J h W (ps, s) (ps, s\<lparr>s_server := srv\<rparr>)"

inductive session_reach ::
  "'j jsoncpp \<Rightarrow> ('j, 's) message_handler \<Rightarrow> ('s \<Rightarrow> bool) \<Rightarrow> http_parser \<times> ('j, 's) session \<Rightarrow> bool"
  for J :: "'j jsoncpp" and h :: "('j, 's) message_handler" and W :: "'s \<Rightarrow> bool"
where
  reach_start:
    "length data = max_length \<Longrightarrow> W srv \<Longrightarrow>
     session_reach J h W (session_start this_ptr (ps, session_new J data srv))"
| reach_step: "session_reach J h W c \<Longrightarrow> session_step J h W c c' \<Longrightarrow> session_reach J h W c'"

inductive_cases session_stepE: "session_step J h W (ps, s) c"

section \<open>The callbacks as a client of the parser\<close>

text \<open>
  What holds of a session while the parser runs on the bytes \<open>d\<close>: they are in the buffer from
  \<open>pos_\<close> on, and the body pointer, if any, points into the buffer.
\<close>

definition body_inside :: "('j, 's) session \<Rightarrow> bool" where
  "body_inside s \<longleftrightarrow>
     (\<forall>b. req_body (s_request s) = Some b \<longrightarrow> b + req_len (s_request s) \<le> max_length)"

definition running :: "byte list \<Rightarrow> ('j, 's) session \<Rightarrow> bool" where
  "running d s \<longleftrightarrow>
     length (s_data s) = max_length \<and> s_pos s + length d \<le> max_length
     \<and> byte_range (s_data s) (s_pos s) (length d) = d \<and> body_inside s
     \<and> (s_process s \<longrightarrow> s_outbox s \<noteq> [] \<or> s_fault s) \<and> (s_outbox s \<noteq> [] \<longrightarrow> s_process s)"

lemma on_notify_session:
  "on_notify (session_settings J h) FOR =
     (if FOR = FOR_message_complete then Some (session_on_message_complete J h) else None)"
  by (cases FOR) (simp_all add: session_settings_def http_parser_settings_init_def)

lemma on_data_session:
  "on_data (session_settings J h) FOR = (if FOR = FOR_body then Some session_on_body else None)"
  by (cases FOR) (simp_all add: session_settings_def http_parser_settings_init_def)

lemma on_headers_complete_session: "on_headers_complete (session_settings J h) = None"
  by (simp add: session_settings_def http_parser_settings_init_def)

lemma message_complete_frames:
  "session_on_message_complete J h ps s = (r, ps', s') \<Longrightarrow> ps' = ps \<and> r = 0"
  by (auto simp: session_on_message_complete_def Let_def split: option.splits)

text \<open>Inside \<open>onRead\<close> no read is outstanding, and the session is open.\<close>

definition working :: "byte list \<Rightarrow> ('j, 's) session \<Rightarrow> bool" where
  "working d s \<longleftrightarrow> running d s \<and> \<not> s_reading s \<and> \<not> s_closed s"

lemmas working_defs = working_def running_def body_inside_def

lemma message_complete_working:
  "working d s \<Longrightarrow> session_on_message_complete J h ps s = (r, ps', s') \<Longrightarrow> working d s'"
  by (auto simp: session_on_message_complete_def Let_def working_defs do_write_def split: option.splits)

lemma on_body_working:
  assumes "working d s" "m + n \<le> length d"
  shows "session_on_body ps m (byte_range d m n) s = (0, ps, s') \<Longrightarrow> working d s'"
  using assms by (auto simp: session_on_body_def working_defs)

interpretation session_parser: parser_client "session_settings J h" "take max_length d" "working (take max_length d)"
  for J :: "'j jsoncpp" and h :: "('j, 's) message_handler" and d
proof unfold_locales
  show "notify_law (working (take max_length d)) (on_notify (session_settings J h) FOR)" for FOR
    by (auto simp: notify_law_def on_notify_session message_complete_working dest: message_complete_frames)
  show "notify_law (working (take max_length d)) (on_headers_complete (session_settings J h))"
    by (simp add: notify_law_def on_headers_complete_session)
  show "data_law (take max_length d) (working (take max_length d)) (on_data (session_settings J h) FOR)" for FOR
    using on_body_working [of "take max_length d"]
    by (auto simp: data_law_def on_data_session session_on_body_def split: prod.splits)
  show "length (take max_length d) < 2 ^ 64"
    by (simp add: max_length_def)
qed

section \<open>Invariant of a connection\<close>

text \<open>An open session has either a read outstanding, with room in the buffer, or a write.\<close>

definition never_stuck :: "('j, 's) session \<Rightarrow> bool" where
  "never_stuck s \<longleftrightarrow>
     s_closed s \<or>
     (if s_process s then s_outbox s \<noteq> [] \<and> \<not> s_reading s
      else s_outbox s = [] \<and> s_reading s \<and> s_pos s < max_length)"

definition conn_ok :: "http_parser \<times> ('j, 's) session \<Rightarrow> bool" where
  "conn_ok = (\<lambda>(ps, s). parser_ok ps \<and> running [] s \<and> \<not> s_fault s \<and> never_stuck s)"

lemma fill_working:
  assumes "running [] s" "\<not> s_closed s" "length bs \<le> max_length - s_pos s"
  shows "working bs (fill bs s)"
  using assms by (auto simp: working_defs fill_def byte_range_def)

lemma running_advance:
  assumes "running bs s"
  shows "running [] (s\<lparr>s_pos := s_pos s + length bs\<rparr>)"
  using assms by (auto simp: running_def body_inside_def byte_range_def)

lemma running_update [simp]:
  "running d (close_session s) = running d s" "running d (do_read s) = running d s"
  "running d (s\<lparr>s_server := srv\<rparr>) = running d s"
  by (simp_all add: running_def body_inside_def close_session_def do_read_def)

text \<open>The end of \<open>onRead\<close>, after the parser has returned.\<close>

lemma after_read_ok:
  assumes run: "working bs s" and no_fault: "\<not> s_fault s" and ps: "parser_ok ps"
  shows "conn_ok (let s = s\<lparr>s_pos := s_pos s + length bs\<rparr>
    in (ps, if \<not> s_process s then (if max_length \<le> s_pos s then close_session s else do_read s) else s))"
proof -
  have "running [] (s\<lparr>s_pos := s_pos s + length bs\<rparr>)"
    using run by (simp add: working_def running_advance)
  then show ?thesis
    using no_fault ps run
    by (auto simp: conn_ok_def never_stuck_def Let_def working_defs close_session_def do_read_def)
qed

text \<open>
  What the message handler promises: for every body it returns a response value and a state of
  the server of the same kind again.
\<close>

definition handler_ok :: "('j, 's) message_handler \<Rightarrow> ('j \<Rightarrow> bool) \<Rightarrow> ('s \<Rightarrow> bool) \<Rightarrow> bool" where
  "handler_ok h obj W \<longleftrightarrow>
     (\<forall>body root srv. obj root \<longrightarrow> W srv \<longrightarrow>
        (\<exists>root' srv'. h body root srv = Some (root', srv') \<and> obj root' \<and> W srv'))"

text \<open>The status is 200 as the constructor sets it, for which there is a status text.\<close>

definition serving :: "('j \<Rightarrow> bool) \<Rightarrow> ('s \<Rightarrow> bool) \<Rightarrow> byte list \<Rightarrow> ('j, 's) session \<Rightarrow> bool" where
  "serving obj W d s \<longleftrightarrow>
     working d s \<and> \<not> s_fault s \<and> res_status (s_response s) = 200 \<and> obj (res_root (s_response s)) \<and> W (s_server s)"

lemma message_complete_serving:
  assumes h: "handler_ok h obj W" and s: "serving obj W d s"
    and res: "session_on_message_complete J h ps s = (r, ps', s')"
  shows "serving obj W d s'"
proof -
  from h s obtain root srv where handled: "h (request_body s) (res_root (s_response s)) (s_server s) = Some (root, srv)"
    "obj root" "W srv" unfolding handler_ok_def serving_def by blast
  have "get_status_text 200 = Some ''OK''" by (simp add: get_status_text_def)
  with handled s res message_complete_working [of d s J h ps r ps' s'] show ?thesis
    by (auto simp: session_on_message_complete_def serving_def response_end_def Let_def do_write_def)
qed

lemma on_body_serving:
  "serving obj W d s \<Longrightarrow> m + n \<le> length d \<Longrightarrow>
   session_on_body ps m (byte_range d m n) s = (0, ps, s') \<Longrightarrow> serving obj W d s'"
  using on_body_working [of d s m n ps s'] by (auto simp: serving_def session_on_body_def)

lemma serving_client:
  assumes h: "handler_ok h obj W" and "length d < 2 ^ 64"
  shows "parser_client (session_settings J h) d (serving obj W d)"
proof
  show "notify_law (serving obj W d) (on_notify (session_settings J h) FOR)" for FOR
    using message_complete_serving [OF h]
    by (auto simp: notify_law_def on_notify_session dest: message_complete_frames)
  show "notify_law (serving obj W d) (on_headers_complete (session_settings J h))"
    by (simp add: notify_law_def on_headers_complete_session)
  show "data_law d (serving obj W d) (on_data (session_settings J h) FOR)" for FOR
    using on_body_serving [of obj W d]
    by (auto simp: data_law_def on_data_session session_on_body_def split: prod.splits)
qed (rule assms(2))

lemma start_ok:
  assumes "length data = max_length"
  shows "conn_ok (session_start this_ptr (ps, session_new J data srv))"
proof -
  have "parser_ok ((http_parser_init ps HTTP_REQUEST)\<lparr>p_data := this_ptr\<rparr>)"
    using init_parser_ok [of ps HTTP_REQUEST] by (simp add: parser_ok_def)
  then show ?thesis
    using assms
    by (simp add: session_start_def conn_ok_def session_new_def do_read_def running_def body_inside_def
        request_new_def never_stuck_def max_length_def)
qed

lemma fill_other [simp]:
  "s_fault (fill bs s) = s_fault s" "s_reading (fill bs s) = False" "s_closed (fill bs s) = s_closed s"
  "s_response (fill bs s) = s_response s" "s_server (fill bs s) = s_server s"
  by (simp_all add: fill_def)

lemma reading_pos: "conn_ok (ps, s) \<Longrightarrow> \<not> s_closed s \<Longrightarrow> s_reading s \<Longrightarrow> \<not> s_process s \<and> s_pos s < max_length"
  by (auto simp: conn_ok_def never_stuck_def split: if_splits)

lemma read_conn_ok:
  assumes ok: "conn_ok (ps, s)" and op: "\<not> s_closed s" and fits: "length bs \<le> max_length - s_pos s"
    and read: "onRead J h bs (ps, s) = Some c"
  shows "conn_ok c"
proof -
  have small: "take max_length bs = bs" using fits by simp
  have "working bs (fill bs s)" "parser_ok ps"
    using ok op fits by (auto simp: conn_ok_def intro: fill_working)
  then have "done_ok bs (working bs) (http_parser_execute (session_settings J h) bs ps (fill bs s))"
    using session_parser.execute_ok [where d = bs and ps = ps and u = "fill bs s" and J = J and h = h]
    by (simp add: small)
  then obtain n ps1 s1 where
    exec: "http_parser_execute (session_settings J h) bs ps (fill bs s) = Some (Returned n ps1 s1)"
    and ok1: "parser_ok ps1" "working bs s1" by (auto simp: done_ok_def)
  with read have "\<not> s_fault s1" by (auto simp: onRead_def split: if_splits)
  with read exec after_read_ok [OF ok1(2) _ ok1(1)] show ?thesis
    by (auto simp: onRead_def Let_def)
qed

lemma step_conn_ok: "session_step J h W c c' \<Longrightarrow> conn_ok c \<Longrightarrow> conn_ok c'"
proof (induction rule: session_step.induct)
  case (step_read s bs ps c)
  then show ?case by (auto intro: read_conn_ok)
next
  case (step_other s srv ps)
  then show ?case by (auto simp: conn_ok_def never_stuck_def)
qed (auto simp: conn_ok_def never_stuck_def onRead_error_def onWrite_def onTimer_def, simp_all add: close_session_def)

lemma reach_conn_ok: "session_reach J h W c \<Longrightarrow> conn_ok c"
  by (induction rule: session_reach.induct) (auto intro: start_ok step_conn_ok)

text \<open>With a message handler that keeps its promise, the value of the response and the server's
  state stay within it, and no read ends in a fault.\<close>

definition kept :: "('j \<Rightarrow> bool) \<Rightarrow> ('s \<Rightarrow> bool) \<Rightarrow> ('j, 's) session \<Rightarrow> bool" where
  "kept obj W s \<longleftrightarrow> res_status (s_response s) = 200 \<and> obj (res_root (s_response s)) \<and> W (s_server s)"

lemma kept_update [simp]:
  "kept obj W (close_session s) = kept obj W s" "kept obj W (do_read s) = kept obj W s"
  "kept obj W (s\<lparr>s_pos := n\<rparr>) = kept obj W s"
  by (simp_all add: kept_def close_session_def do_read_def)

lemma onRead_serves:
  assumes h: "handler_ok h obj W" and ok: "conn_ok (ps, s)" and op: "\<not> s_closed s" and kept: "kept obj W s"
    and fits: "length bs \<le> max_length - s_pos s"
  shows "\<exists>ps' s'. onRead J h bs (ps, s) = Some (ps', s') \<and> kept obj W s'"
proof -
  have "length bs < 2 ^ 64" using fits by (simp add: max_length_def)
  moreover have "serving obj W bs (fill bs s)" "parser_ok ps"
    using ok op kept fits fill_working [of s bs] by (auto simp: conn_ok_def serving_def kept_def)
  ultimately have "done_ok bs (serving obj W bs) (http_parser_execute (session_settings J h) bs ps (fill bs s))"
    by (intro parser_client.execute_ok [OF serving_client [OF h]])
  then obtain n ps1 s1 where
    "http_parser_execute (session_settings J h) bs ps (fill bs s) = Some (Returned n ps1 s1)"
    and ok1: "serving obj W bs s1" by (auto simp: done_ok_def)
  moreover have "\<not> s_fault s1" "kept obj W s1" using ok1 by (simp_all add: serving_def kept_def)
  ultimately show ?thesis by (simp add: onRead_def Let_def)
qed

lemma reach_kept:
  assumes h: "handler_ok h obj W" and null: "obj (js_null J)"
  shows "session_reach J h W c \<Longrightarrow> kept obj W (snd c)"
proof (induction rule: session_reach.induct)
  case (reach_start data srv this_ptr ps)
  then show ?case
    using null by (simp add: session_start_def session_new_def response_new_def kept_def do_read_def)
next
  case (reach_step c c')
  from reach_step(2) reach_step(3) reach_conn_ok [OF reach_step(1)] show ?case
  proof (induction rule: session_step.induct)
    case (step_read s bs ps c)
    then show ?case using onRead_serves [OF h, of ps s bs J] by auto
  next
    case (step_other s srv ps)
    then show ?case by (simp add: kept_def)
  qed (auto simp: onRead_error_def onWrite_def onTimer_def)
qed

text \<open>
  C7. Memory safety and progress of a connection, whatever the client sends and in whatever
  portions, and whatever the message handler does: \<open>pos_\<close> stays within the buffer of 2048
  bytes, \<open>request::body_\<close> and \<open>len_\<close> always denote bytes of the buffer, and while the
  connection is open there is either a read outstanding for which the buffer has room and no
  message has been handled, or a response is being written.
\<close>

theorem session_memory_safe:
  assumes "session_reach J h W (ps, s)"
  shows "length (s_data s) = max_length \<and> s_pos s \<le> max_length \<and> body_inside s
    \<and> (s_closed s \<or> (if s_process s then s_outbox s \<noteq> [] \<and> \<not> s_reading s
                     else s_outbox s = [] \<and> s_reading s \<and> s_pos s < max_length))"
  using reach_conn_ok [OF assms] by (simp add: conn_ok_def running_def never_stuck_def)

definition first_session :: "(json, bool) session" where
  "first_session = session_new (json_instance (\<lambda>_. None)) (replicate 2048 NUL) True"

lemma first_session_reach: "session_reach (json_instance (\<lambda>_. None)) h (\<lambda>_. True)
   (session_start 0 (blank_parser, first_session))"
  unfolding first_session_def by (rule reach_start) (simp_all add: max_length_def)

lemma first_session_start:
  obtains ps s where "session_start 0 (blank_parser, first_session) = (ps, s)" and "\<not> s_closed s"
    and "s_reading s" and "s_pos s = 0"
  by (simp add: session_start_def first_session_def do_read_def session_new_def)

lemma session_memory_safe_witness: "body_inside (snd (session_start 0 (blank_parser, first_session)))"
proof -
  obtain ps s where start: "session_start 0 (blank_parser, first_session) = (ps, s)"
    by (rule first_session_start)
  show ?thesis
    using session_memory_safe [OF first_session_reach [of "\<lambda>_ _ _. None", unfolded start]] by (simp add: start)
qed

text \<open>
  C8. No read makes the server fail. When the message handler answers every body without an
  exception, \<open>onRead\<close> returns for every sequence of bytes that the buffer has room for, in every
  connection that can be reached: the parser neither faults nor runs on, the status of the
  response has a text, and the connection goes on.
\<close>

theorem session_read_returns:
  assumes "handler_ok h obj W" and "obj (js_null J)" and "session_reach J h W (ps, s)"
    and "\<not> s_closed s" and "s_reading s" and "length bs \<le> max_length - s_pos s"
  shows "\<exists>c. onRead J h bs (ps, s) = Some c \<and> session_reach J h W c"
proof -
  have "kept obj W s" using reach_kept [OF assms(1,2,3)] by simp
  from onRead_serves [OF assms(1) reach_conn_ok [OF assms(3)] assms(4) this assms(6), of J]
  obtain c where c: "onRead J h bs (ps, s) = Some c" by blast
  with assms(3-6) show ?thesis by (blast intro: reach_step step_read)
qed

lemma session_read_returns_witness:
  "\<exists>c. onRead (json_instance (\<lambda>_. None)) (\<lambda>body root srv. Some (root, srv)) ''GET / HTTP/1.1''
      (session_start 0 (blank_parser, first_session)) = Some c"
proof -
  obtain ps s where start: "session_start 0 (blank_parser, first_session) = (ps, s)"
    "\<not> s_closed s" "s_reading s" "s_pos s = 0" by (rule first_session_start)
  have "handler_ok (\<lambda>body root (srv :: bool). Some (root, srv)) (\<lambda>_. True) (\<lambda>_. True)"
    by (simp add: handler_ok_def)
  then show ?thesis
    using session_read_returns [OF _ _ first_session_reach [unfolded start(1)], of _ _ "''GET / HTTP/1.1''"] start
    by (fastforce simp: max_length_def)
qed

section \<open>The message handler of the server\<close>

text \<open>
  The function that \<open>main\<close> (\<open>src/UCludeProject.cpp\<close>) gives to the server: \<open>do_some\<close> of
  the client manager. The server's state is the map of clients and the values that \<open>rand ()\<close>
  will return.
\<close>

definition server_handler :: "'j jsoncpp \<Rightarrow> ('j, 'j client clients \<times> (nat \<Rightarrow> int)) message_handler" where
  "server_handler J body res =
     (\<lambda>(m, rs). map_option (\<lambda>(res, m). (res, m, \<lambda>n. rs (Suc n)))
        (do_some J (rs 0) body res m))"

lemma server_handler_ok:
  fixes J :: "'j jsoncpp"
  assumes laws: "json_laws J obj"
  shows "handler_ok (server_handler J) obj (\<lambda>(m, rs). manager_reach J m)"
  unfolding handler_ok_def
proof (intro allI impI)
  fix body res and srv :: "'j client clients \<times> (nat \<Rightarrow> int)"
  assume res: "obj res" and srv: "case srv of (m, rs) \<Rightarrow> manager_reach J m"
  then obtain m rs where m: "srv = (m, rs)" "manager_reach J m" by (cases srv) auto
  from do_some_expected [OF laws res m(2), of "rs 0" body] show
    "\<exists>root' srv'. server_handler J body res srv = Some (root', srv') \<and> obj root'
      \<and> (case srv' of (m, rs) \<Rightarrow> manager_reach J m)"
    using m by (auto simp: server_handler_def)
qed

end
