(* ===== verification/Parser_Names.thy ===== *)
theory Parser_Names
  imports Parser_Api "HOL-Library.Sublist"
begin

text \<open>
  Which header a field name is taken for. While the parser reads a name it compares it byte by
  byte with the five names it knows; the state it is in after the name is determined by the name
  in lower case: the state of the known name if it is one of them, and otherwise one from which
  the value is read as that of any other header.
\<close>

definition known_names :: "(byte list \<times> header_states) list" where
  "known_names =
     [(''connection'', h_connection), (''proxy-connection'', h_connection),
      (''content-length'', h_content_length), (''transfer-encoding'', h_transfer_encoding),
      (''upgrade'', h_upgrade)]"

text \<open>The header state and the index after the lower-case bytes \<open>w\<close> of a name.\<close>

definition matching :: "nat \<Rightarrow> byte list \<Rightarrow> byte list \<Rightarrow> uint8 \<Rightarrow> bool" where
  "matching m X w idx \<longleftrightarrow>
     (\<exists>k. 0 < k \<and> m \<le> k \<and> k < length X \<and> w = take k X \<and> idx + 1 = of_nat k)"

definition name_inv :: "byte list \<Rightarrow> header_states \<Rightarrow> uint8 \<Rightarrow> bool" where
  "name_inv w h idx \<longleftrightarrow>
     (case h of
        h_general \<Rightarrow> list_all (\<lambda>X. \<not> prefix w (fst X)) known_names
      | h_C \<Rightarrow> w = ''c'' \<and> idx = 0
      | h_CO \<Rightarrow> w = ''co'' \<and> idx = 1
      | h_CON \<Rightarrow> w = ''con'' \<and> idx = 2
      | h_matching_connection \<Rightarrow> matching 4 ''connection'' w idx
      | h_matching_proxy_connection \<Rightarrow> matching 1 ''proxy-connection'' w idx
      | h_matching_content_length \<Rightarrow> matching 4 ''content-length'' w idx
      | h_matching_transfer_encoding \<Rightarrow> matching 1 ''transfer-encoding'' w idx
      | h_matching_upgrade \<Rightarrow> matching 1 ''upgrade'' w idx
      | h_connection \<Rightarrow> w = ''connection'' \<or> w = ''proxy-connection''
      | h_content_length \<Rightarrow> w = ''content-length''
      | h_transfer_encoding \<Rightarrow> w = ''transfer-encoding''
      | h_upgrade \<Rightarrow> w = ''upgrade''
      | _ \<Rightarrow> False)"

text \<open>
  One comparison: from a proper prefix of \<open>X\<close> to a longer one, to \<open>X\<close>, or to the general header.
\<close>

lemma match_next_prefix:
  assumes w: "matching m X w idx" and X: "length X < 256"
  shows "w @ [c] = X \<and> match_next X same hit miss c (idx + 1) = hit
    \<or> matching m X (w @ [c]) (idx + 1) \<and> match_next X same hit miss c (idx + 1) = same
    \<or> \<not> prefix (w @ [c]) X \<and> prefix (take m X) w \<and> match_next X same hit miss c (idx + 1) = miss"
proof -
  obtain k where k: "0 < k" "m \<le> k" "k < length X" "w = take k X" "idx + 1 = of_nat k"
    using w by (auto simp: matching_def)
  have "unat (idx + 1) = k" using k(3,5) X by (simp add: unat_of_nat_small)
  moreover have "cstr_at X k = X ! k" using k(3) by (simp add: cstr_at_def nth_append)
  ultimately have nx: "match_next X same hit miss c (idx + 1) =
      (if c \<noteq> X ! k then miss else if k = length X - 1 then hit else same)"
    using k(3) by (simp add: match_next_def)
  have snoc: "w @ [X ! k] = take (Suc k) X" using k by (simp add: take_Suc_conv_app_nth)
  show ?thesis
  proof (cases "c = X ! k")
    case True
    then show ?thesis
      using nx snoc k by (cases "Suc k = length X") (auto simp: matching_def intro!: exI [of _ "Suc k"])
  next
    case False
    have "prefix (take m X) w" using k by (metis min_absorb1 take_is_prefix take_take)
    moreover have "\<not> prefix (w @ [c]) X"
    proof
      assume "prefix (w @ [c]) X"
      then obtain zs where "X = take k X @ c # zs" using k(4) by (auto simp: prefix_def)
      then have "X ! k = (take k X @ c # zs) ! k" by simp
      then show False using False k(3) by (simp add: nth_append)
    qed
    ultimately show ?thesis using nx False by simp
  qed
qed

lemma not_known:
  assumes "\<not> prefix (w @ [c]) X" "prefix v w"
    and "list_all (\<lambda>Y. fst Y = X \<or> \<not> prefix v (fst Y)) known_names"
  shows "list_all (\<lambda>Y. \<not> prefix (w @ [c]) (fst Y)) known_names"
  unfolding list_all_iff
proof
  fix Y assume Y: "Y \<in> set known_names"
  show "\<not> prefix (w @ [c]) (fst Y)"
  proof
    assume pre: "prefix (w @ [c]) (fst Y)"
    then have "prefix v (fst Y)" using assms(2) by (meson append_prefixD prefix_order.trans)
    with assms(3) Y have "fst Y = X" by (auto simp: list_all_iff)
    with pre assms(1) show False by simp
  qed
qed

lemma known_longer: "(X, h) \<in> set known_names \<Longrightarrow> list_all (\<lambda>Y. \<not> prefix (X @ [c]) (fst Y)) known_names"
  by (auto simp: known_names_def)

lemma general_stays:
  "list_all (\<lambda>Y. \<not> prefix w (fst Y)) known_names \<Longrightarrow> list_all (\<lambda>Y. \<not> prefix (w @ [c]) (fst Y)) known_names"
  by (auto simp: list_all_iff dest: append_prefixD)

text \<open>The two kinds of step: a comparison with \<open>X\<close>, and a byte after a complete name.\<close>

lemma matching_step:
  assumes w: "matching m X w (index ps)" and X: "length X < 256"
    and others: "list_all (\<lambda>Y. fst Y = X \<or> \<not> prefix (take m X) (fst Y)) known_names"
    and step: "header_field_step ch c ps =
      Some (ps\<lparr>index := index ps + 1, header_state := match_next X same hit h_general c (index ps + 1)\<rparr>)"
    and same: "\<And>v idx. name_inv v same idx \<longleftrightarrow> matching m X v idx"
    and hit: "\<And>idx. name_inv X hit idx"
  shows "\<exists>h idx. header_field_step ch c ps = Some (ps\<lparr>header_state := h, index := idx\<rparr>) \<and> name_inv (w @ [c]) h idx"
proof -
  let ?h = "match_next X same hit h_general c (index ps + 1)"
  have general: "name_inv (w @ [c]) h_general idx" if "\<not> prefix (w @ [c]) X" "prefix (take m X) w" for idx
    using not_known [OF that others] by (simp add: name_inv_def)
  have "name_inv (w @ [c]) ?h (index ps + 1)"
    using match_next_prefix [OF w X, of c same hit h_general] same [of "w @ [c]"] hit [of "index ps + 1"]
      general [of "index ps + 1"]
    by (elim disjE) simp_all
  then show ?thesis
    using step by (intro exI [of _ ?h] exI [of _ "index ps + 1"]) simp
qed

lemma longer_step:
  assumes "(w, h) \<in> set known_names"
    and "header_field_step ch c ps = Some (ps\<lparr>header_state := h_general\<rparr>)"
  shows "\<exists>h idx. header_field_step ch c ps = Some (ps\<lparr>header_state := h, index := idx\<rparr>) \<and> name_inv (w @ [c]) h idx"
  using known_longer [OF assms(1), of c] assms(2)
  by (intro exI [of _ h_general] exI [of _ "index ps"]) (simp add: name_inv_def)

lemmas name_step_simps = header_field_step_def name_inv_def known_names_def Let_def

lemma name_step:
  assumes inv: "name_inv w (header_state ps) (index ps)" and c: "ch \<noteq> CHR '' ''"
  shows "\<exists>h idx. header_field_step ch c ps = Some (ps\<lparr>header_state := h, index := idx\<rparr>) \<and> name_inv (w @ [c]) h idx"
proof (cases "header_state ps")
  case h_general
  then show ?thesis
    using inv general_stays [of w c]
    by (intro exI [of _ h_general] exI [of _ "index ps"]) (simp add: header_field_step_def name_inv_def)
next
  case h_C
  then show ?thesis
    using inv by (intro exI [of _ "if c = CHR ''o'' then h_CO else h_general"] exI [of _ "index ps + 1"])
      (simp add: name_step_simps)
next
  case h_CO
  then show ?thesis
    using inv by (intro exI [of _ "if c = CHR ''n'' then h_CON else h_general"] exI [of _ "index ps + 1"])
      (simp add: name_step_simps)
next
  case h_CON
  then show ?thesis
    using inv by (intro exI [of _ "if c = CHR ''n'' then h_matching_connection
        else if c = CHR ''t'' then h_matching_content_length else h_general"] exI [of _ "index ps + 1"])
      (auto simp: name_step_simps matching_def intro!: exI [of _ 4])
next
  case h_matching_connection
  then show ?thesis
    using inv by (intro matching_step
        [where m = 4 and X = "''connection''" and same = h_matching_connection and hit = h_connection])
      (simp_all add: name_step_simps)
next
  case h_matching_proxy_connection
  then show ?thesis
    using inv by (intro matching_step
        [where m = 1 and X = "''proxy-connection''" and same = h_matching_proxy_connection and hit = h_connection])
      (simp_all add: name_step_simps)
next
  case h_matching_content_length
  then show ?thesis
    using inv by (intro matching_step
        [where m = 4 and X = "''content-length''" and same = h_matching_content_length and hit = h_content_length])
      (simp_all add: name_step_simps)
next
  case h_matching_transfer_encoding
  then show ?thesis
    using inv by (intro matching_step
        [where m = 1 and X = "''transfer-encoding''" and same = h_matching_transfer_encoding and hit = h_transfer_encoding])
      (simp_all add: name_step_simps)
next
  case h_matching_upgrade
  then show ?thesis
    using inv by (intro matching_step
        [where m = 1 and X = "''upgrade''" and same = h_matching_upgrade and hit = h_upgrade])
      (simp_all add: name_step_simps)
next
  case h_connection
  then show ?thesis
    using inv c by (intro longer_step [of _ h_connection]) (auto simp: name_step_simps)
next
  case h_content_length
  then show ?thesis
    using inv c by (intro longer_step [of _ h_content_length]) (auto simp: name_step_simps)
next
  case h_transfer_encoding
  then show ?thesis
    using inv c by (intro longer_step [of _ h_transfer_encoding]) (auto simp: name_step_simps)
next
  case h_upgrade
  then show ?thesis
    using inv c by (intro longer_step [of _ h_upgrade]) (auto simp: name_step_simps)
qed (use inv in \<open>simp_all add: name_inv_def\<close>)

section \<open>The whole name\<close>

text \<open>How the value of a header is read: the class of the lower-case name.\<close>

definition name_class :: "byte list \<Rightarrow> header_states" where
  "name_class w = (case map_of known_names w of Some h \<Rightarrow> h | None \<Rightarrow> h_general)"

text \<open>
  What \<open>exec_s_header_value_start\<close> makes of the header state after a name: in a state in which
  the comparison has not come to its end, the value is that of any other header.
\<close>

definition value_class :: "header_states \<Rightarrow> header_states" where
  "value_class h =
     (if h \<in> {h_connection, h_content_length, h_transfer_encoding, h_upgrade} then h else h_general)"

lemma proper_prefix_unknown:
  assumes "matching m X w idx" "list_all (\<lambda>k. map_of known_names (take k X) = None) [m..<length X]"
  shows "map_of known_names w = None"
  using assms by (auto simp: matching_def list_all_iff)

lemma prefixes_unknown:
  "matching 4 ''connection'' w idx \<Longrightarrow> map_of known_names w = None"
  "matching 1 ''proxy-connection'' w idx \<Longrightarrow> map_of known_names w = None"
  "matching 4 ''content-length'' w idx \<Longrightarrow> map_of known_names w = None"
  "matching 1 ''transfer-encoding'' w idx \<Longrightarrow> map_of known_names w = None"
  "matching 1 ''upgrade'' w idx \<Longrightarrow> map_of known_names w = None"
  by (erule proper_prefix_unknown, simp add: upt_rec known_names_def)+

lemma general_unknown:
  "list_all (\<lambda>X. \<not> prefix w (fst X)) known_names \<Longrightarrow> map_of known_names w = None"
  by (auto simp: map_of_eq_None_iff list_all_iff)

lemma known_class:
  "name_class ''connection'' = h_connection" "name_class ''proxy-connection'' = h_connection"
  "name_class ''content-length'' = h_content_length"
  "name_class ''transfer-encoding'' = h_transfer_encoding" "name_class ''upgrade'' = h_upgrade"
  "name_class ''c'' = h_general" "name_class ''co'' = h_general" "name_class ''con'' = h_general"
  by (simp_all add: name_class_def known_names_def)

lemma unknown_class: "map_of known_names w = None \<Longrightarrow> name_class w = h_general"
  by (simp add: name_class_def)

lemma name_inv_class: "name_inv w h idx \<Longrightarrow> value_class h = name_class w"
  unfolding name_inv_def value_class_def
  by (cases h) (auto simp: known_class unknown_class dest: prefixes_unknown general_unknown simp del: One_nat_def)

lemma token_no_space [simp]: "TOKEN c \<noteq> NUL \<Longrightarrow> c \<noteq> CHR '' ''"
  by (auto simp: byte_simps IS_ALPHANUM_def)

lemma header_field_loop_class:
  assumes "name_inv w (header_state ps) (index ps)" "list_all (\<lambda>c. TOKEN c \<noteq> NUL) cs" "TOKEN stop = NUL"
  shows "\<exists>h idx. header_field_loop (cs @ stop # rest) ps n =
      Some (ps\<lparr>header_state := h, index := idx\<rparr>, n + length cs, Some stop)
    \<and> name_inv (w @ map TOKEN cs) h idx"
  using assms
proof (induction cs arbitrary: w ps n)
  case Nil
  then show ?case
    by (intro exI [of _ "header_state ps"] exI [of _ "index ps"]) simp
next
  case (Cons c cs)
  from Cons.prems name_step [of w ps c "TOKEN c"] obtain h idx where
    "header_field_step c (TOKEN c) ps = Some (ps\<lparr>header_state := h, index := idx\<rparr>)"
    "name_inv (w @ [TOKEN c]) h idx"
    by auto
  with Cons.IH [of "w @ [TOKEN c]" "ps\<lparr>header_state := h, index := idx\<rparr>" "n + 1"] Cons.prems
  show ?case by simp
qed

text \<open>The state after the first byte.\<close>

definition first_name_state :: "byte \<Rightarrow> header_states" where
  "first_name_state c =
     (if c = CHR ''c'' then h_C
      else if c = CHR ''p'' then h_matching_proxy_connection
      else if c = CHR ''t'' then h_matching_transfer_encoding
      else if c = CHR ''u'' then h_matching_upgrade
      else h_general)"

lemma first_name_inv: "name_inv [c] (first_name_state c) 0"
  by (auto simp: first_name_state_def name_inv_def matching_def known_names_def
      intro!: exI [of _ "Suc 0"])

lemma exec_s_header_field_start_token:
  assumes "TOKEN c \<noteq> NUL"
  shows "exec_s_header_field_start c l =
    Break ((MARK FOR_header_field l)
      \<lparr>p_state := s_header_field,
       parser := (parser l)\<lparr>index := 0, header_state := first_name_state (TOKEN c)\<rparr>\<rparr>)"
proof -
  have "c \<noteq> CR" "c \<noteq> LF" using assms by (auto simp: byte_simps IS_ALPHANUM_def)
  then show ?thesis using assms
    by (simp add: exec_s_header_field_start_def Let_def first_name_state_def)
qed

text \<open>
  C37. Recognition of header names. Reading a name \<open>c # cs\<close> of token bytes, in any mixture of
  upper and lower case, up to the colon, the parser passes exactly the name, changes nothing of
  itself but the two fields of the comparison, and its value is then read as that of
  Connection, Content-Length, Transfer-Encoding or Upgrade if and only if the name in lower case
  is connection or proxy-connection, content-length, transfer-encoding or upgrade.
\<close>

theorem header_name_recognised:
  assumes "list_all (\<lambda>b. TOKEN b \<noteq> NUL) (c # cs)"
  shows "\<exists>l' h idx. exec_s_header_field_start c l = Break l'
    \<and> header_field_loop (cs @ CHR '':'' # rest) (parser l') 0 =
        Some ((parser l)\<lparr>header_state := h, index := idx\<rparr>, length cs, Some (CHR '':''))
    \<and> value_class h = name_class (map TOKEN (c # cs))"
proof -
  have "TOKEN (CHR '':'') = NUL" by (simp add: byte_simps IS_ALPHANUM_def)
  with assms header_field_loop_class [of "[TOKEN c]"
    "(parser l)\<lparr>index := 0, header_state := first_name_state (TOKEN c)\<rparr>" cs "CHR '':''" rest 0]
  obtain h idx where
    "header_field_loop (cs @ CHR '':'' # rest)
        ((parser l)\<lparr>index := 0, header_state := first_name_state (TOKEN c)\<rparr>) 0 =
      Some ((parser l)\<lparr>header_state := h, index := idx\<rparr>, length cs, Some (CHR '':''))"
    "name_inv (map TOKEN (c # cs)) h idx"
    by (auto simp: first_name_inv)
  with assms show ?thesis
    by (auto simp: exec_s_header_field_start_token dest: name_inv_class)
qed

lemma header_name_recognised_witness:
  "\<exists>l' h idx. exec_s_header_field_start (CHR ''C'') (initial_locals blank_parser ()) = Break l'
    \<and> header_field_loop ''ontent-LENGTH: 5'' (parser l') 0 =
        Some (blank_parser\<lparr>header_state := h, index := idx\<rparr>, 13, Some (CHR '':''))
    \<and> value_class h = h_content_length"
proof -
  have tokens: "list_all (\<lambda>b. TOKEN b \<noteq> NUL) ''Content-LENGTH''"
    by (simp add: TOKEN_def tokens_def)
  have low: "map TOKEN ''Content-LENGTH'' = ''content-length''"
    by (simp add: TOKEN_def tokens_def)
  have lits: "''ontent-LENGTH'' @ CHR '':'' # '' 5'' = ''ontent-LENGTH: 5''" "length ''ontent-LENGTH'' = 13"
    "parser (initial_locals blank_parser ()) = blank_parser"
    by (simp_all add: initial_locals_def)
  show ?thesis
    using header_name_recognised [OF tokens, of "initial_locals blank_parser ()" "'' 5''"]
    unfolding low known_class lits .
qed

end
