(* ===== verification/Parser_Steps.thy ===== *)
theory Parser_Steps
  imports Parser_Names Response
begin

text \<open>
  Runs of the loop of \<open>http_parser_execute\<close>, followed byte by byte: snapshots of the locals, the
  passes of the loop between them, and what becomes of a request line. The statements are about
  applications whose callbacks return 0 and leave the parser as it is (locale
  \<open>passive_client\<close>); what the callbacks do to the application's state is a parameter of the locale.
\<close>

section \<open>Applications that leave the parser alone\<close>

locale passive_client =
  fixes cfg :: "'u http_parser_settings"
    and eff_data :: "data_for \<Rightarrow> nat \<Rightarrow> byte list \<Rightarrow> 'u \<Rightarrow> 'u"
    and eff_notify :: "notify_for \<Rightarrow> 'u \<Rightarrow> 'u"
    and eff_headers :: "'u \<Rightarrow> 'u"
  assumes data_Some: "on_data cfg DFOR = Some f \<Longrightarrow> f ps m bs u = (0, ps, eff_data DFOR m bs u)"
    and data_None: "on_data cfg DFOR = None \<Longrightarrow> eff_data DFOR m bs u = u"
    and notify_Some: "on_notify cfg NFOR = Some g \<Longrightarrow> g ps u = (0, ps, eff_notify NFOR u)"
    and notify_None: "on_notify cfg NFOR = None \<Longrightarrow> eff_notify NFOR u = u"
    and headers_Some: "on_headers_complete cfg = Some g \<Longrightarrow> g ps u = (0, ps, eff_headers u)"
    and headers_None: "on_headers_complete cfg = None \<Longrightarrow> eff_headers u = u"
begin

lemma CALLBACK_NOTIFY_at_passive:
  assumes "http_errno (parser l) = HPE_OK"
  shows "\<exists>st. CALLBACK_NOTIFY_at cfg FOR ER k l =
    k (l\<lparr>parser := (parser l)\<lparr>state := st\<rparr>, p_state := p_state l, user := eff_notify FOR (user l)\<rparr>)"
proof (cases "on_notify cfg FOR")
  case None
  then show ?thesis
    using assms notify_None [OF None]
    by (intro exI [of _ "state (parser l)"]) (simp add: CALLBACK_NOTIFY_at_def assert_then_def)
next
  case (Some g)
  then show ?thesis
    using assms notify_Some [OF Some]
    by (intro exI [of _ "p_state l"])
      (simp add: CALLBACK_NOTIFY_at_def assert_then_def after_callback_def Let_def)
qed

lemma CALLBACK_DATA_at_passive:
  assumes "http_errno (parser l) = HPE_OK" "marks l FOR = Some m"
  shows "\<exists>st. CALLBACK_DATA_at cfg d FOR LEN ER k l =
    k (l\<lparr>parser := (parser l)\<lparr>state := st\<rparr>, p_state := p_state l,
        user := eff_data FOR m (byte_range d m (LEN m)) (user l), marks := (marks l)(FOR := None)\<rparr>)"
proof (cases "on_data cfg FOR")
  case None
  then show ?thesis
    using assms data_None [OF None]
    by (intro exI [of _ "state (parser l)"]) (simp add: CALLBACK_DATA_at_def assert_then_def Let_def)
next
  case (Some f)
  then show ?thesis
    using assms data_Some [OF Some]
    by (intro exI [of _ "p_state l"])
      (simp add: CALLBACK_DATA_at_def assert_then_def after_callback_def Let_def)
qed

end

section \<open>Snapshots of the loop\<close>

text \<open>
  A parser in the middle of a message: with the flags of \<open>ps\<close>, and with none, as it is as long as no
  header has set one.
\<close>

definition rqf :: "http_parser \<Rightarrow> http_method \<Rightarrow> uint16 \<times> uint16 \<Rightarrow> uint64 \<Rightarrow> bool \<Rightarrow> nat
    \<Rightarrow> state \<Rightarrow> header_states \<Rightarrow> uint8 \<Rightarrow> http_parser" where
  "rqf ps m v cl up k st h idx =
     \<lparr>p_type = p_type ps, flags = flags ps, state = st, header_state = h, index = idx,
      nread = of_nat k, content_length = cl, http_major = fst v, http_minor = snd v,
      status_code = status_code ps, p_method = m, http_errno = HPE_OK, upgrade = up,
      p_data = p_data ps\<rparr>"

abbreviation rq :: "http_parser \<Rightarrow> http_method \<Rightarrow> uint16 \<times> uint16 \<Rightarrow> uint64 \<Rightarrow> bool \<Rightarrow> nat
    \<Rightarrow> state \<Rightarrow> header_states \<Rightarrow> uint8 \<Rightarrow> http_parser" where
  "rq ps \<equiv> rqf (ps\<lparr>flags := 0\<rparr>)"

text \<open>The locals at the loop head; the last byte read plays no role there.\<close>

definition here :: "state \<Rightarrow> nat \<Rightarrow> (data_for \<Rightarrow> nat option) \<Rightarrow> http_parser \<Rightarrow> 'u \<Rightarrow> 'u locals" where
  "here s i mk ps u = \<lparr>parser = ps, p_state = s, pos = i, cur = NUL, marks = mk, user = u\<rparr>"

definition go where
  "go cfg d s i mk ps u = exec_loop cfg d False (here s i mk ps u)"

text \<open>One pass through the loop: in the headers, where the byte is counted, and in a body.\<close>

lemma go_header:
  assumes d: "drop i d = c # rest" and ps: "unat (nread ps) < HTTP_MAX_HEADER_SIZE" and s: "PARSING_HEADER s"
  shows "go cfg d s i mk ps u = exec_loop cfg d True
    ((here s i mk (ps\<lparr>nread := nread ps + 1\<rparr>) u)\<lparr>cur := c\<rparr>)"
proof -
  from drop_eq_Cons_nth [OF d] have i: "i < length d" "d ! i = c" by auto
  have "unat (nread ps + 1) = unat (nread ps) + 1"
    using ps by (intro unat_inc_word) (simp add: HTTP_MAX_HEADER_SIZE_def)
  with ps have "\<not> HTTP_MAX_HEADER_SIZE < unat (nread ps + 1)" by simp
  with i s show ?thesis
    unfolding go_def by (subst exec_loop.simps) (simp add: here_def count_header_byte_def COUNT_HEADER_SIZE_def)
qed

lemma go_body:
  assumes d: "drop i d = c # rest" and s: "\<not> PARSING_HEADER s"
  shows "go cfg d s i mk ps u = exec_loop cfg d True ((here s i mk ps u)\<lparr>cur := c\<rparr>)"
proof -
  from drop_eq_Cons_nth [OF d] have i: "i < length d" "d ! i = c" by auto
  with s show ?thesis
    unfolding go_def by (subst exec_loop.simps) (simp add: here_def count_header_byte_def)
qed

lemma go_Break:
  assumes "exec_switch cfg d (cur l) l = Break l'"
  shows "exec_loop cfg d True l = go cfg d (p_state l') (Suc (pos l')) (marks l') (parser l') (user l')"
proof -
  have "exec_loop cfg d True l = exec_loop cfg d False (l'\<lparr>pos := pos l' + 1\<rparr>)"
    using assms by (subst exec_loop.simps) simp
  also have "\<dots> = exec_loop cfg d False (l'\<lparr>pos := pos l' + 1\<rparr>\<lparr>cur := NUL\<rparr>)"
    by (rule exec_loop_cur [symmetric])
  also have "l'\<lparr>pos := pos l' + 1\<rparr>\<lparr>cur := NUL\<rparr> = here (p_state l') (Suc (pos l')) (marks l') (parser l') (user l')"
    by (simp add: here_def)
  finally show ?thesis by (simp add: go_def)
qed

lemma go_Reexecute:
  "exec_switch cfg d (cur l) l = Reexecute l' \<Longrightarrow> exec_loop cfg d True l = exec_loop cfg d True l'"
  by (subst exec_loop.simps) simp

lemma rq_count [simp]:
  "rqf ps m v cl up k st h idx \<lparr>nread := nread (rqf ps m v cl up k st h idx) + 1\<rparr> = rqf ps m v cl up (Suc k) st h idx"
  by (simp add: rqf_def)

text \<open>A byte of the headers that moves the parser to \<open>s'\<close> and changes only its fields.\<close>

lemma go_step:
  assumes "drop i d = c # rest" "k < HTTP_MAX_HEADER_SIZE" "PARSING_HEADER s"
    and "exec_switch cfg d c ((here s i mk (rqf ps m v cl up (Suc k) st h idx) u)\<lparr>cur := c\<rparr>)
      = Break ((here s' i' mk' ps' u')\<lparr>cur := c'\<rparr>)"
  shows "go cfg d s i mk (rqf ps m v cl up k st h idx) u = go cfg d s' (Suc i') mk' ps' u'"
proof -
  have "unat (nread (rqf ps m v cl up k st h idx)) = k"
    using assms(2) by (simp add: rqf_def unat_of_nat_small HTTP_MAX_HEADER_SIZE_def)
  then have "go cfg d s i mk (rqf ps m v cl up k st h idx) u = exec_loop cfg d True
      ((here s i mk (rqf ps m v cl up (Suc k) st h idx) u)\<lparr>cur := c\<rparr>)"
    using assms(1-3) by (subst go_header) simp_all
  with assms(4) show ?thesis by (simp add: go_Break here_def)
qed

section \<open>The request line\<close>

lemmas step_simps = exec_switch_def here_def rqf_def set_errno_goto_error_def STRICT_CHECK_def

text \<open>The bytes after the URL: a space, the version and the end of the line.\<close>

lemma version_step:
  assumes "drop i d = c # rest" "k < HTTP_MAX_HEADER_SIZE"
    and "(s, c, v, s', v') \<in> {(s_req_http_start, CHR ''H'', v, s_req_http_H, v),
      (s_req_http_H, CHR ''T'', v, s_req_http_HT, v), (s_req_http_HT, CHR ''T'', v, s_req_http_HTT, v),
      (s_req_http_HTT, CHR ''P'', v, s_req_http_HTTP, v), (s_req_http_HTTP, CHR ''/'', v, s_req_first_http_major, v),
      (s_req_first_http_major, CHR ''1'', v, s_req_http_major, (1, snd v)),
      (s_req_http_major, CHR ''.'', v, s_req_first_http_minor, v),
      (s_req_first_http_minor, CHR ''1'', v, s_req_http_minor, (fst v, 1)),
      (s_req_http_minor, CR, v, s_req_line_almost_done, v), (s_req_line_almost_done, LF, v, s_header_field_start, v)}"
  shows "go cfg d s i mk (rq ps m v cl up k st h idx) u
    = go cfg d s' (Suc i) mk (rq ps m v' cl up (Suc k) st h idx) u"
proof -
  have "PARSING_HEADER s" using assms(3) by (auto simp: PARSING_HEADER_iff)
  moreover have "exec_switch cfg d c ((here s i mk (rq ps m v cl up (Suc k) st h idx) u)\<lparr>cur := c\<rparr>)
      = Break ((here s' i mk (rq ps m v' cl up (Suc k) st h idx) u)\<lparr>cur := c\<rparr>)"
    using assms(3)
    by (elim insertE emptyE) (simp_all add: step_simps exec_s_req_http_start_def exec_s_req_http_H_def
        exec_s_req_http_HT_def exec_s_req_http_HTT_def exec_s_req_http_HTTP_def
        exec_s_req_first_http_major_def exec_s_req_http_major_def exec_s_req_first_http_minor_def
        exec_s_req_http_minor_def exec_s_req_line_almost_done_def first_digit16_def schar_def IS_NUM_def
        digit_val_def)
  ultimately show ?thesis by (rule go_step [OF assms(1,2)])
qed

lemma drop_Suc_at: "drop i d = c # rest \<Longrightarrow> drop (Suc i) d = rest"
  using drop_eq_Cons_nth [of i d c rest] by simp

lemma drop_append_at: "drop i d = w @ rest \<Longrightarrow> drop (i + length w) d = rest"
  by (metis add.commute append_eq_conv_conj drop_drop)

lemma go_version:
  assumes d: "drop i d = ''HTTP/1.1'' @ CR # LF # rest" and k: "k + 10 \<le> HTTP_MAX_HEADER_SIZE"
  shows "go cfg d s_req_http_start i mk (rq ps m v cl up k st h idx) u
    = go cfg d s_header_field_start (i + 10) mk (rq ps m (1, 1) cl up (k + 10) st h idx) u"
proof -
  have d1: "drop i d = CHR ''H'' # ''TTP/1.1'' @ CR # LF # rest" using d by simp
  note d2 = drop_Suc_at [OF d1, simplified] note d3 = drop_Suc_at [OF d2] note d4 = drop_Suc_at [OF d3]
  note d5 = drop_Suc_at [OF d4] note d6 = drop_Suc_at [OF d5] note d7 = drop_Suc_at [OF d6]
  note d8 = drop_Suc_at [OF d7] note d9 = drop_Suc_at [OF d8] note d10 = drop_Suc_at [OF d9]
  note step = version_step [where mk = mk and u = u and ps = ps and m = m and cl = cl and up = up
      and st = st and h = h and idx = idx]
  show ?thesis
    using step [OF d1, of "k + 0" s_req_http_start "v" s_req_http_H "v" cfg]
      step [OF d2, of "k + 1" s_req_http_H "v" s_req_http_HT "v" cfg]
      step [OF d3, of "k + 2" s_req_http_HT "v" s_req_http_HTT "v" cfg]
      step [OF d4, of "k + 3" s_req_http_HTT "v" s_req_http_HTTP "v" cfg]
      step [OF d5, of "k + 4" s_req_http_HTTP "v" s_req_first_http_major "v" cfg]
      step [OF d6, of "k + 5" s_req_first_http_major "v" s_req_http_major "(1, snd v)" cfg]
      step [OF d7, of "k + 6" s_req_http_major "(1, snd v)" s_req_first_http_minor "(1, snd v)" cfg]
      step [OF d8, of "k + 7" s_req_first_http_minor "(1, snd v)" s_req_http_minor "(1, 1)" cfg]
      step [OF d9, of "k + 8" s_req_http_minor "(1, 1)" s_req_line_almost_done "(1, 1)" cfg]
      step [OF d10, of "k + 9" s_req_line_almost_done "(1, 1)" s_header_field_start "(1, 1)" cfg] k
    by (simp add: eval_nat_numeral)
qed

text \<open>
  The method: what the comparisons with method names make of the bytes after the first one.
\<close>

fun method_run :: "byte list \<Rightarrow> http_method \<times> uint8 \<Rightarrow> (http_method \<times> uint8) option" where
  "method_run [] (m, i) = Some (m, i)"
| "method_run (ch # cs) (m, i) =
     (if ch = NUL \<or> ch = CHR '' '' \<or> length (method_string m) < unat i then None
      else if ch = cstr_at (method_string m) (unat i) then method_run cs (m, i + 1)
      else case other_method m i ch of None \<Rightarrow> None | Some m' \<Rightarrow> method_run cs (m', i + 1))"

lemma method_run_string:
  "\<exists>c cs m0. method_string m = c # cs \<and> first_method c = Some m0 \<and> IS_ALPHA c \<and> c \<noteq> CR \<and> c \<noteq> LF
    \<and> method_run cs (m0, 1) = Some (m, of_nat (length (method_string m)))
    \<and> length (method_string m) < 256"
  by (cases m) (simp_all add: first_method_def other_method_def cstr_at_def byte_simps)

lemma go_method:
  assumes "method_run cs (m, idx) = Some (m', idx')" "drop i d = cs @ rest" "k + length cs \<le> HTTP_MAX_HEADER_SIZE"
  shows "go cfg d s_req_method i mk (rq ps m v cl up k st h idx) u
    = go cfg d s_req_method (i + length cs) mk (rq ps m' v cl up (k + length cs) st h idx') u"
  using assms
proof (induction cs arbitrary: m idx i k)
  case Nil
  then show ?case by simp
next
  case (Cons c cs)
  define m1 where "m1 = (if c = cstr_at (method_string m) (unat idx) then m else the (other_method m idx c))"
  have run: "method_run cs (m1, idx + 1) = Some (m', idx')"
    using Cons.prems(1) by (auto simp: m1_def split: if_splits option.splits)
  have d: "drop i d = c # cs @ rest" using Cons.prems(2) by simp
  have "exec_switch cfg d c ((here s_req_method i mk (rq ps m v cl up (Suc k) st h idx) u)\<lparr>cur := c\<rparr>)
      = Break ((here s_req_method i mk (rq ps m1 v cl up (Suc k) st h (idx + 1)) u)\<lparr>cur := c\<rparr>)"
    using Cons.prems(1)
    by (auto simp: step_simps exec_s_req_method_def Let_def m1_def split: if_splits option.splits)
  from go_step [OF d _ _ this] Cons.IH [OF run, of "Suc i" "Suc k"] Cons.prems(3) drop_eq_Cons_nth [OF d]
  show ?case by (simp add: PARSING_HEADER_iff)
qed

lemma go_method_end:
  assumes "drop i d = CHR '' '' # rest" "k < HTTP_MAX_HEADER_SIZE" "length (method_string m) < 256"
  shows "go cfg d s_req_method i mk (rq ps m v cl up k st h (of_nat (length (method_string m)))) u
    = go cfg d s_req_spaces_before_url (Suc i) mk
        (rq ps m v cl up (Suc k) st h (of_nat (length (method_string m)) + 1)) u"
  by (rule go_step [OF assms(1,2)])
    (use assms(3) in \<open>simp_all add: step_simps exec_s_req_method_def Let_def cstr_at_def
      unat_of_nat_small PARSING_HEADER_iff\<close>)

text \<open>The URL.\<close>

lemma parse_url_char_dead [simp]: "parse_url_char s_dead c = s_dead"
  by (rule parse_url_char_stuck) (simp_all add: url_state_def)

lemma foldl_parse_url_char_dead [simp]: "foldl parse_url_char s_dead cs = s_dead"
  by (induction cs) simp_all

lemma url_byte_plain: "parse_url_char s c \<noteq> s_dead \<Longrightarrow> c \<noteq> CHR '' '' \<and> c \<noteq> CR \<and> c \<noteq> LF"
  using parse_url_char_printable [of s c] by auto

lemma go_url:
  assumes "foldl parse_url_char s cs \<noteq> s_dead" "url_state s" "drop i d = cs @ rest"
    "k + length cs \<le> HTTP_MAX_HEADER_SIZE"
  shows "go cfg d s i mk (rq ps m v cl up k st h idx) u
    = go cfg d (foldl parse_url_char s cs) (i + length cs) mk (rq ps m v cl up (k + length cs) st h idx) u"
  using assms
proof (induction cs arbitrary: s i k)
  case Nil
  then show ?case by simp
next
  case (Cons c cs)
  let ?s = "parse_url_char s c"
  have alive: "?s \<noteq> s_dead" using Cons.prems(1) by (auto simp del: parse_url_char_dead)
  then have s': "url_state ?s" using parse_url_char_range [of s c] by simp
  have d: "drop i d = c # cs @ rest" using Cons.prems(3) by simp
  have h: "PARSING_HEADER s" using Cons.prems(2) by (auto simp: url_state_def PARSING_HEADER_iff)
  have "exec_switch cfg d c ((here s i mk (rq ps m v cl up (Suc k) st h idx) u)\<lparr>cur := c\<rparr>)
      = Break ((here ?s i mk (rq ps m v cl up (Suc k) st h idx) u)\<lparr>cur := c\<rparr>)"
    using Cons.prems(2) alive url_byte_plain [OF alive]
    by (auto simp: url_state_def step_simps exec_s_req_schema_def exec_s_req_url_def url_default_def Let_def)
  from go_step [OF d _ h this] Cons.IH [OF _ s', of "Suc i" "Suc k"] Cons.prems(1,4) drop_eq_Cons_nth [OF d]
  show ?case by simp
qed

lemma go_url_first:
  assumes "drop i d = c # rest" "k < HTTP_MAX_HEADER_SIZE" "m \<noteq> HTTP_CONNECT"
    "parse_url_char s_req_spaces_before_url c \<noteq> s_dead"
  shows "go cfg d s_req_spaces_before_url i (\<lambda>_. None) (rq ps m v cl up k st h idx) u
    = go cfg d (parse_url_char s_req_spaces_before_url c) (Suc i) ((\<lambda>_. None)(FOR_url := Some i))
        (rq ps m v cl up (Suc k) st h idx) u"
  by (rule go_step [OF assms(1,2)])
    (use assms(3,4) url_byte_plain [OF assms(4)] in
      \<open>simp_all add: step_simps exec_s_req_spaces_before_url_def Let_def MARK_def PARSING_HEADER_iff\<close>)

text \<open>The states in which a space ends the URL.\<close>

definition request_url_ok :: "byte list \<Rightarrow> bool" where
  "request_url_ok url \<longleftrightarrow>
     foldl parse_url_char s_req_spaces_before_url url \<in>
       set [s_req_server, s_req_server_with_at, s_req_path, s_req_query_string_start,
            s_req_query_string, s_req_fragment_start, s_req_fragment]"

lemma byte_range_drop: "drop i d = w @ rest \<Longrightarrow> byte_range d i (length w) = w"
  by (simp add: byte_range_def)

definition idle :: "http_parser \<Rightarrow> bool" where
  "idle ps \<longleftrightarrow> p_type ps = HTTP_REQUEST \<and> http_errno ps = HPE_OK \<and> nread ps = 0"

definition request_line :: "http_method \<Rightarrow> byte list \<Rightarrow> byte list" where
  "request_line m url = method_string m @ CHR '' '' # url @ CHR '' '' # ''HTTP/1.1'' @ [CR, LF]"

context passive_client
begin

lemma go_message_begin:
  assumes d: "drop i d = c # rest" and ps: "idle ps" and c: "first_method c = Some m" "IS_ALPHA c" "c \<noteq> CR" "c \<noteq> LF"
  shows "\<exists>st. go cfg d s_start_req i mk ps u = go cfg d s_req_method (Suc i) mk
    (rq ps m (http_major ps, http_minor ps) ULLONG_MAX (upgrade ps) 1 st (header_state ps) 1)
    (eff_notify FOR_message_begin u)"
proof -
  let ?l = "(here s_start_req i mk (ps\<lparr>nread := nread ps + 1\<rparr>) u)\<lparr>cur := c\<rparr>"
  let ?ps = "(parser ?l)\<lparr>flags := 0, content_length := ULLONG_MAX, index := 1, p_method := m\<rparr>"
  have "exec_switch cfg d c ?l =
      CALLBACK_NOTIFY_at cfg FOR_message_begin (Suc i) Break (?l\<lparr>parser := ?ps, p_state := s_req_method\<rparr>)"
    using c by (simp add: exec_switch_def exec_s_start_req_def here_def CALLBACK_NOTIFY_def Let_def)
  with CALLBACK_NOTIFY_at_passive [of "?l\<lparr>parser := ?ps, p_state := s_req_method\<rparr>" FOR_message_begin "Suc i" Break]
  obtain st where "exec_switch cfg d c ?l = Break (?l\<lparr>parser := ?ps\<lparr>state := st\<rparr>,
      p_state := s_req_method, user := eff_notify FOR_message_begin u\<rparr>)"
    using ps by (auto simp: here_def idle_def)
  moreover have "go cfg d s_start_req i mk ps u = exec_loop cfg d True ?l"
    using ps by (intro go_header [OF d]) (simp_all add: idle_def HTTP_MAX_HEADER_SIZE_def PARSING_HEADER_iff)
  moreover have "?ps\<lparr>state := st\<rparr> =
      rq ps m (http_major ps, http_minor ps) ULLONG_MAX (upgrade ps) 1 st (header_state ps) 1"
    using ps by (cases ps) (simp add: rqf_def here_def idle_def)
  ultimately show ?thesis
    by (intro exI [of _ st]) (simp add: go_Break here_def)
qed

lemma go_url_end:
  assumes d: "drop i d = CHR '' '' # rest" and k: "k < HTTP_MAX_HEADER_SIZE"
    and s: "s \<in> set [s_req_server, s_req_server_with_at, s_req_path, s_req_query_string_start,
      s_req_query_string, s_req_fragment_start, s_req_fragment]"
  shows "\<exists>st'. go cfg d s i ((\<lambda>_. None)(FOR_url := Some j)) (rq ps m v cl up k st h idx) u
    = go cfg d s_req_http_start (Suc i) (\<lambda>_. None) (rq ps m v cl up (Suc k) st' h idx)
        (eff_data FOR_url j (byte_range d j (i - j)) u)"
proof -
  let ?l = "(here s i ((\<lambda>_. None)(FOR_url := Some j)) (rq ps m v cl up (Suc k) st h idx) u)\<lparr>cur := CHR '' ''\<rparr>"
  have "exec_switch cfg d (CHR '' '') ?l =
      CALLBACK_DATA_at cfg d FOR_url (\<lambda>m. i - m) (Suc i) Break (?l\<lparr>p_state := s_req_http_start\<rparr>)"
    using s by (auto simp: exec_switch_def exec_s_req_url_def here_def CALLBACK_DATA_def)
  with CALLBACK_DATA_at_passive [of "?l\<lparr>p_state := s_req_http_start\<rparr>" FOR_url j d "\<lambda>m. i - m" "Suc i" Break]
  obtain st' where "exec_switch cfg d (CHR '' '') ?l = Break ((here s_req_http_start i (\<lambda>_. None)
      (rq ps m v cl up (Suc k) st' h idx) (eff_data FOR_url j (byte_range d j (i - j)) u))\<lparr>cur := CHR '' ''\<rparr>)"
    by (auto simp: here_def rqf_def)
  with s show ?thesis
    by (intro exI [of _ st'] go_step [OF d k]) (auto simp: PARSING_HEADER_iff)
qed

lemma go_method_part:
  assumes d: "drop i d = method_string m @ CHR '' '' # rest" and ps: "idle ps"
  shows "\<exists>st idx. go cfg d s_start_req i mk ps u
    = go cfg d s_req_spaces_before_url (i + length (method_string m) + 1) mk
        (rq ps m (http_major ps, http_minor ps) ULLONG_MAX (upgrade ps) (length (method_string m) + 1)
          st (header_state ps) idx)
        (eff_notify FOR_message_begin u)"
proof -
  obtain c cs m0 where ms: "method_string m = c # cs" "first_method c = Some m0" "IS_ALPHA c" "c \<noteq> CR" "c \<noteq> LF"
    "method_run cs (m0, 1) = Some (m, of_nat (length (method_string m)))" "length (method_string m) < 256"
    using method_run_string [of m] by blast
  have d1: "drop i d = c # cs @ CHR '' '' # rest" using d ms(1) by simp
  have small: "length (method_string m) < HTTP_MAX_HEADER_SIZE"
    using ms(7) by (simp add: HTTP_MAX_HEADER_SIZE_def)
  show ?thesis
    using go_message_begin [OF d1 ps ms(2-5), of mk u]
      go_method [OF ms(6) drop_Suc_at [OF d1], of 1 cfg mk ps] small ms(1)
      go_method_end [OF drop_append_at [OF d] small ms(7)]
    by fastforce
qed

lemma go_url_part:
  assumes d: "drop i d = url @ CHR '' '' # rest" and url: "request_url_ok url" and m: "m \<noteq> HTTP_CONNECT"
    and k: "k + length url < HTTP_MAX_HEADER_SIZE"
  shows "\<exists>st'. go cfg d s_req_spaces_before_url i (\<lambda>_. None) (rq ps m v cl up k st h idx) u
    = go cfg d s_req_http_start (i + length url + 1) (\<lambda>_. None)
        (rq ps m v cl up (k + length url + 1) st' h idx) (eff_data FOR_url i url u)"
proof -
  obtain c cs where u: "url = c # cs"
    using url by (cases url) (auto simp: request_url_ok_def)
  let ?s = "parse_url_char s_req_spaces_before_url c" let ?s' = "foldl parse_url_char ?s cs"
  have s': "?s' \<in> set [s_req_server, s_req_server_with_at, s_req_path, s_req_query_string_start,
      s_req_query_string, s_req_fragment_start, s_req_fragment]"
    using url u by (simp add: request_url_ok_def)
  then have alive: "?s' \<noteq> s_dead" by auto
  then have s: "?s \<noteq> s_dead" by (metis foldl_parse_url_char_dead)
  then have us: "url_state ?s" using parse_url_char_range [of s_req_spaces_before_url c] by simp
  have d1: "drop i d = c # cs @ CHR '' '' # rest" using d u by simp
  have "go cfg d s_req_spaces_before_url i (\<lambda>_. None) (rq ps m v cl up k st h idx) u
      = go cfg d ?s' (i + length url) ((\<lambda>_. None)(FOR_url := Some i)) (rq ps m v cl up (k + length url) st h idx) u"
    using go_url_first [OF d1 _ m s, of k cfg] go_url [OF alive us drop_Suc_at [OF d1], of "Suc k" cfg] k u by simp
  with go_url_end [OF drop_append_at [OF d] k s', of i ps m v cl up st h idx u] byte_range_drop [OF d]
  show ?thesis by simp
qed

lemma go_request_line:
  assumes d: "drop i d = request_line m url @ rest" and ps: "idle ps" and url: "request_url_ok url"
    and m: "m \<noteq> HTTP_CONNECT" and k: "length (request_line m url) \<le> HTTP_MAX_HEADER_SIZE"
  shows "\<exists>st h idx. go cfg d s_start_req i (\<lambda>_. None) ps u
    = go cfg d s_header_field_start (i + length (request_line m url)) (\<lambda>_. None)
        (rq ps m (1, 1) ULLONG_MAX (upgrade ps) (length (request_line m url)) st h idx)
        (eff_data FOR_url (i + length (method_string m) + 1) url (eff_notify FOR_message_begin u))"
proof -
  let ?n = "length (method_string m)"
  have d1: "drop i d = method_string m @ CHR '' '' # url @ CHR '' '' # ''HTTP/1.1'' @ CR # LF # rest"
    using d by (simp add: request_line_def)
  have d2: "drop (i + ?n + 1) d = url @ CHR '' '' # ''HTTP/1.1'' @ CR # LF # rest"
    using drop_Suc_at [OF drop_append_at [OF d1]] by simp
  have d3: "drop (i + ?n + 1 + length url + 1) d = ''HTTP/1.1'' @ CR # LF # rest"
    using drop_Suc_at [OF drop_append_at [OF d2]] by simp
  have len: "length (request_line m url) = ?n + 1 + length url + 1 + 10"
    by (simp add: request_line_def)
  obtain st idx where 1: "go cfg d s_start_req i (\<lambda>_. None) ps u
    = go cfg d s_req_spaces_before_url (i + ?n + 1) (\<lambda>_. None)
        (rq ps m (http_major ps, http_minor ps) ULLONG_MAX (upgrade ps) (?n + 1) st (header_state ps) idx)
        (eff_notify FOR_message_begin u)"
    using go_method_part [OF d1 ps] by blast
  have "?n + 1 + length url < HTTP_MAX_HEADER_SIZE" using k len by simp
  from go_url_part [OF d2 url m this] obtain st' where 2: "go cfg d s_req_spaces_before_url (i + ?n + 1) (\<lambda>_. None)
        (rq ps m (http_major ps, http_minor ps) ULLONG_MAX (upgrade ps) (?n + 1) st (header_state ps) idx)
        (eff_notify FOR_message_begin u)
    = go cfg d s_req_http_start (i + ?n + 1 + length url + 1) (\<lambda>_. None)
        (rq ps m (http_major ps, http_minor ps) ULLONG_MAX (upgrade ps) (?n + 1 + length url + 1) st' (header_state ps) idx)
        (eff_data FOR_url (i + ?n + 1) url (eff_notify FOR_message_begin u))"
    by blast
  show ?thesis
    using 1 2 go_version [OF d3, of "?n + 1 + length url + 1"] k len
    by (intro exI [of _ st'] exI [of _ "header_state ps"] exI [of _ idx]) (simp add: add_ac)
qed

end

end
