(* ===== verification/Parser_Message.thy ===== *)
theory Parser_Message
  imports Parser_Steps
begin

text \<open>
  What \<open>http_parser_execute\<close> makes of well-formed requests: header lines, the end of the headers,
  the body, whole messages one after another; the callbacks it calls, with which bytes and in
  which order, and the parser it leaves.
\<close>

section \<open>Header lines\<close>

lemma rq_sel [simp]:
  "header_state (rqf ps m v cl up k st h idx) = h" "index (rqf ps m v cl up k st h idx) = idx"
  "content_length (rqf ps m v cl up k st h idx) = cl" "http_errno (rqf ps m v cl up k st h idx) = HPE_OK"
  "flags (rqf ps m v cl up k st h idx) = flags ps" "p_method (rqf ps m v cl up k st h idx) = m"
  "upgrade (rqf ps m v cl up k st h idx) = up" "p_type (rqf ps m v cl up k st h idx) = p_type ps"
  "start_state (rqf ps m v cl up k st h idx) = start_state ps" "start_state (ps\<lparr>flags := fl\<rparr>) = start_state ps"
  by (simp_all add: rqf_def start_state_def)

lemma rq_upd [simp]:
  "rqf ps m v cl up k st h idx \<lparr>header_state := h'\<rparr> = rqf ps m v cl up k st h' idx"
  "rqf ps m v cl up k st h idx \<lparr>index := idx'\<rparr> = rqf ps m v cl up k st h idx'"
  "rqf ps m v cl up k st h idx \<lparr>content_length := cl'\<rparr> = rqf ps m v cl' up k st h idx"
  "rqf ps m v cl up k st h idx \<lparr>state := st'\<rparr> = rqf ps m v cl up k st' h idx"
  "rqf ps m v cl up k st h idx \<lparr>upgrade := up'\<rparr> = rqf ps m v cl up' k st h idx"
  "rqf ps m v cl up k st h idx \<lparr>nread := 0\<rparr> = rqf ps m v cl up 0 st h idx"
  by (simp_all add: rqf_def)

lemma COUNT_rq:
  assumes "parser l = rqf ps m v cl up k st h idx" "k + n \<le> HTTP_MAX_HEADER_SIZE"
  shows "COUNT_HEADER_SIZE n cont l = cont (l\<lparr>parser := rqf ps m v cl up (k + n) st h idx\<rparr>)"
proof -
  have "parser l\<lparr>nread := nread (parser l) + of_nat n\<rparr> = rqf ps m v cl up (k + n) st h idx"
    using assms(1) by (simp add: rqf_def)
  moreover have "unat (nread (rqf ps m v cl up (k + n) st h idx)) = k + n"
    using assms(2) unat_of_nat_small [of "k + n", where 'a = 32]
    by (simp add: rqf_def HTTP_MAX_HEADER_SIZE_def del: of_nat_add)
  ultimately show ?thesis using assms(2) by (simp add: COUNT_HEADER_SIZE_def Let_def)
qed

lemma go_field_first:
  assumes "drop i d = c # rest" "k < HTTP_MAX_HEADER_SIZE" "TOKEN c \<noteq> NUL"
  shows "go cfg d s_header_field_start i (\<lambda>_. None) (rqf ps m v cl up k st h idx) u
    = go cfg d s_header_field (Suc i) ((\<lambda>_. None)(FOR_header_field := Some i))
        (rqf ps m v cl up (Suc k) st (first_name_state (TOKEN c)) 0) u"
  by (rule go_step [OF assms(1,2)])
    (simp_all add: exec_switch_def here_def exec_s_header_field_start_token [OF assms(3)] MARK_def PARSING_HEADER_iff)

text \<open>
  The first byte of a value, after the name \<open>w\<close> in lower case: the headers considered are those
  that no special meaning is known for, and Content-Length.
\<close>

definition first_length :: "header_states \<Rightarrow> byte \<Rightarrow> uint64 \<Rightarrow> uint64" where
  "first_length h c cl = (if h = h_content_length then of_int (digit_val c) else cl)"

lemma value_start_class:
  assumes "name_inv w (header_state (parser l)) idx" "name_class w \<in> {h_general, h_content_length}"
    "name_class w = h_content_length \<longrightarrow> IS_NUM c"
  shows "exec_s_header_value_start c l = Break ((MARK FOR_header_value l)
    \<lparr>p_state := s_header_value,
     parser := (parser l)\<lparr>content_length := first_length (name_class w) c (content_length (parser l)),
       index := 0, header_state := name_class w\<rparr>\<rparr>)"
proof -
  have vclass: "value_class (header_state (parser l)) = name_class w"
    using name_inv_class [OF assms(1)] .
  show ?thesis
    using assms vclass
    by (cases "header_state (parser l)"; cases l; cases "parser l")
      (auto simp: exec_s_header_value_start_def Let_def value_class_def first_length_def MARK_def name_inv_def)
qed

lemma go_value_first:
  assumes "drop i d = c # rest" "k < HTTP_MAX_HEADER_SIZE" "c \<notin> {CHR '' '', TAB, CR, LF}"
    and "name_inv w h idx" "name_class w \<in> {h_general, h_content_length}"
    "name_class w = h_content_length \<longrightarrow> IS_NUM c"
  shows "go cfg d s_header_value_discard_ws i (\<lambda>_. None) (rqf ps m v cl up k st h idx) u
    = go cfg d s_header_value (Suc i) ((\<lambda>_. None)(FOR_header_value := Some i))
        (rqf ps m v (first_length (name_class w) c cl) up (Suc k) st (name_class w) 0) u"
proof (rule go_step [OF assms(1,2)])
  let ?l = "(here s_header_value_discard_ws i (\<lambda>_. None) (rqf ps m v cl up (Suc k) st h idx) u)\<lparr>cur := c\<rparr>"
  show "exec_switch cfg d c ?l = Break ((here s_header_value i ((\<lambda>_. None)(FOR_header_value := Some i))
        (rqf ps m v (first_length (name_class w) c cl) up (Suc k) st (name_class w) 0) u)\<lparr>cur := c\<rparr>)"
    using assms(3-) value_start_class [of w ?l idx c]
    by (simp add: exec_switch_def here_def exec_s_header_value_discard_ws_def MARK_def)
qed (simp add: PARSING_HEADER_iff)

text \<open>The other bytes of a value, up to the CR.\<close>

lemma memchr_found: "c \<notin> set xs \<Longrightarrow> length xs < limit \<Longrightarrow> memchr (xs @ c # ys) c limit = Some (length xs)"
  by (induction xs arbitrary: limit) (auto split: nat.split)

lemma general_skip_CR:
  assumes "CR \<notin> set vs" "LF \<notin> set vs" "length vs < HTTP_MAX_HEADER_SIZE"
  shows "general_skip (vs @ CR # rest) = length vs"
proof -
  let ?limit = "min (length (vs @ CR # rest)) HTTP_MAX_HEADER_SIZE"
  have cr: "memchr (vs @ CR # rest) CR ?limit = Some (length vs)"
    using assms by (intro memchr_found) simp_all
  have lf: "length vs \<le> lf" if "memchr (vs @ CR # rest) LF ?limit = Some lf" for lf
  proof (rule ccontr)
    assume "\<not> length vs \<le> lf"
    then have "lf < length vs" by simp
    with memchr_SomeD [OF that] have "vs ! lf = LF" by (simp add: nth_append)
    with \<open>lf < length vs\<close> assms(2) show False by (metis nth_mem)
  qed
  show ?thesis
    using cr lf by (auto simp: general_skip_def Let_def split: option.split)
qed

definition plain_value :: "header_states \<Rightarrow> byte list \<Rightarrow> bool" where
  "plain_value h v \<longleftrightarrow>
     h = h_general \<and> CR \<notin> set v \<and> LF \<notin> set v
     \<or> h = h_content_length \<and> list_all IS_NUM v \<and> decimal v < 2 ^ 60"

lemma IS_NUM_plain: "IS_NUM c \<Longrightarrow> c \<noteq> CR \<and> c \<noteq> LF \<and> c \<noteq> CHR '' '' \<and> c \<noteq> TAB"
  by (auto simp: byte_simps)

lemma decimal_from: "foldl (\<lambda>v c. v * 10 + nat (digit_val c)) a ds \<ge> a"
proof (induction ds arbitrary: a)
  case (Cons d ds)
  have "a \<le> a * 10 + nat (digit_val d)" by simp
  also have "\<dots> \<le> foldl (\<lambda>v c. v * 10 + nat (digit_val c)) a (d # ds)" using Cons by simp
  finally show ?case .
qed simp

lemma length_digit_loop:
  assumes "list_all IS_NUM vs" "unat (content_length ps) = a"
    "foldl (\<lambda>v c. v * 10 + nat (digit_val c)) a vs < 2 ^ 60"
  shows "header_value_loop (vs @ CR # rest) h_content_length ps n =
    Some (At_CR, h_content_length,
      ps\<lparr>content_length := of_nat (foldl (\<lambda>v c. v * 10 + nat (digit_val c)) a vs)\<rparr>, n + length vs)"
  using assms
proof (induction vs arbitrary: ps a n)
  case Nil
  then show ?case by auto
next
  case (Cons c vs)
  let ?a = "a * 10 + nat (digit_val c)"
  let ?ps = "ps\<lparr>content_length := content_length ps * 10 + of_int (digit_val c)\<rparr>"
  have c: "IS_NUM c" "0 \<le> digit_val c" "digit_val c < 10" using Cons.prems(1) digit_val_range [of c] by auto
  have "?a < 2 ^ 60" using Cons.prems(3) decimal_from [of ?a vs] by simp
  then have "a < 2 ^ 57" by simp
  then have guard: "\<not> (ULLONG_MAX - 10) div 10 < content_length ps"
    using Cons.prems(2) by (simp add: not_less word_le_nat_alt ULLONG_MAX_def)
  have "unat (content_length ps * 10 + of_int (digit_val c)) = ?a"
    using accumulate_no_wrap(1) [of 10 "content_length ps" "digit_val c"] guard c Cons.prems(2) by simp
  with Cons.IH [of ?ps ?a "n + 1"] Cons.prems(1,3) c guard IS_NUM_plain [OF c(1)]
  show ?case by (simp add: header_value_step_def Let_def)
qed

lemma value_loop_end:
  assumes "plain_value h (c # vs)" "length vs < HTTP_MAX_HEADER_SIZE"
    "content_length ps = first_length h c cl"
  shows "header_value_loop (vs @ CR # rest) h ps n = Some (At_CR, h,
    ps\<lparr>content_length := if h = h_content_length then of_nat (decimal (c # vs)) else cl\<rparr>, n + length vs)"
proof (cases "h = h_content_length")
  case True
  then have c: "IS_NUM c" "list_all IS_NUM vs" "decimal (c # vs) < 2 ^ 60"
    using assms(1) by (auto simp: plain_value_def)
  obtain j where "digit_val c = int j" "j < 10" using c(1) by (rule digit_val_nat)
  then have "unat (of_int (digit_val c) :: uint64) = nat (digit_val c)"
    by (simp add: unat_of_nat_small)
  then have "unat (content_length ps) = nat (digit_val c)"
    using assms(3) True by (simp add: first_length_def)
  from length_digit_loop [OF c(2) this] c(3)
  have "header_value_loop (vs @ CR # rest) h_content_length ps n = Some (At_CR, h_content_length,
      ps\<lparr>content_length := of_nat (decimal (c # vs))\<rparr>, n + length vs)"
    by (simp add: decimal_def)
  then show ?thesis by (simp add: True)
next
  case False
  then have "h = h_general" "CR \<notin> set vs" "LF \<notin> set vs" using assms(1) by (auto simp: plain_value_def)
  with assms(2,3) general_skip_CR [of vs rest] show ?thesis
    by (cases vs) (auto simp: header_value_step_def first_length_def)
qed

text \<open>The callbacks at the end of a name and of a value, and the rest of the line.\<close>

context passive_client
begin

lemma go_field_rest:
  assumes d: "drop i d = cs @ CHR '':'' # rest" and cs: "list_all (\<lambda>b. TOKEN b \<noteq> NUL) cs"
    and inv: "name_inv w h idx" and k: "k + length cs < HTTP_MAX_HEADER_SIZE"
  shows "\<exists>st' h' idx'. go cfg d s_header_field i ((\<lambda>_. None)(FOR_header_field := Some j)) (rqf ps m v cl up k st h idx) u
    = go cfg d s_header_value_discard_ws (i + length cs + 1) (\<lambda>_. None)
        (rqf ps m v cl up (k + length cs + 1) st' h' idx')
        (eff_data FOR_header_field j (byte_range d j (i + length cs - j)) u)
    \<and> name_inv (w @ map TOKEN cs) h' idx'"
proof -
  obtain c rest' where d1: "drop i d = c # rest'" using d by (cases cs) auto
  let ?mk = "(\<lambda>_. None)(FOR_header_field := Some j)"
  let ?l = "(here s_header_field i ?mk (rqf ps m v cl up (Suc k) st h idx) u)\<lparr>cur := c\<rparr>"
  have "TOKEN (CHR '':'') = NUL" by (simp add: byte_simps IS_ALPHANUM_def)
  with header_field_loop_class [of w "rqf ps m v cl up (Suc k) st h idx" cs "CHR '':''" rest 0] inv cs
  obtain h' idx' where loop: "header_field_loop (drop i d) (rqf ps m v cl up (Suc k) st h idx) 0 =
      Some (rqf ps m v cl up (Suc k) st h' idx', length cs, Some (CHR '':''))"
    "name_inv (w @ map TOKEN cs) h' idx'"
    by (auto simp: d)
  let ?l1 = "(here s_header_value_discard_ws (i + length cs) ?mk
      (rqf ps m v cl up (Suc k + length cs) st h' idx') u)\<lparr>cur := c\<rparr>"
  have "exec_switch cfg d c ?l =
      CALLBACK_DATA_at cfg d FOR_header_field (\<lambda>m. i + length cs - m) (i + length cs + 1) Break ?l1"
    using loop(1) k
    by (simp add: exec_switch_def here_def exec_s_header_field_def COUNT_rq CALLBACK_DATA_def)
  with CALLBACK_DATA_at_passive [of ?l1 FOR_header_field j d "\<lambda>m. i + length cs - m" "i + length cs + 1" Break]
  obtain st' where "exec_switch cfg d c ?l = Break ((here s_header_value_discard_ws (i + length cs) (\<lambda>_. None)
      (rqf ps m v cl up (Suc k + length cs) st' h' idx')
      (eff_data FOR_header_field j (byte_range d j (i + length cs - j)) u))\<lparr>cur := c\<rparr>)"
    by (auto simp: here_def)
  from go_step [OF d1 _ _ this] k loop(2) show ?thesis
    by (auto simp: PARSING_HEADER_iff)
qed

lemma go_value_loop:
  assumes d: "drop i d = vs @ CR # rest" and k: "k + length vs < HTTP_MAX_HEADER_SIZE"
    and loop: "header_value_loop (vs @ CR # rest) h (rqf ps m v cl up (Suc k) st h idx) 0 =
      Some (At_CR, h', rqf ps m v cl' up (Suc k) st h idx', length vs)"
  shows "\<exists>st'. go cfg d s_header_value i ((\<lambda>_. None)(FOR_header_value := Some j)) (rqf ps m v cl up k st h idx) u
    = go cfg d s_header_almost_done (i + length vs + 1) (\<lambda>_. None) (rqf ps m v cl' up (k + length vs + 1) st' h' idx')
        (eff_data FOR_header_value j (byte_range d j (i + length vs - j)) u)"
proof -
  obtain b rest' where d1: "drop i d = b # rest'" using d by (cases vs) auto
  let ?mk = "(\<lambda>_. None)(FOR_header_value := Some j)"
  let ?l = "(here s_header_value i ?mk (rqf ps m v cl up (Suc k) st h idx) u)\<lparr>cur := b\<rparr>"
  let ?l1 = "(here s_header_almost_done (i + length vs) ?mk (rqf ps m v cl' up (Suc k) st h' idx') u)\<lparr>cur := b\<rparr>"
  let ?k = "\<lambda>l. COUNT_HEADER_SIZE (length vs) Break (l\<lparr>parser := (parser l)\<lparr>header_state := h'\<rparr>\<rparr>)"
  have "exec_switch cfg d b ?l =
      CALLBACK_DATA_at cfg d FOR_header_value (\<lambda>m. i + length vs - m) (i + length vs + 1) ?k ?l1"
    using loop by (simp add: exec_switch_def here_def exec_s_header_value_def CALLBACK_DATA_def Let_def d)
  with CALLBACK_DATA_at_passive [of ?l1 FOR_header_value j d "\<lambda>m. i + length vs - m" "i + length vs + 1" ?k]
  obtain st' where "exec_switch cfg d b ?l = ?k ((here s_header_almost_done (i + length vs) (\<lambda>_. None)
      (rqf ps m v cl' up (Suc k) st' h' idx')
      (eff_data FOR_header_value j (byte_range d j (i + length vs - j)) u))\<lparr>cur := b\<rparr>)"
    by (auto simp: here_def)
  then have "exec_switch cfg d b ?l = Break ((here s_header_almost_done (i + length vs) (\<lambda>_. None)
      (rqf ps m v cl' up (Suc k + length vs) st' h' idx')
      (eff_data FOR_header_value j (byte_range d j (i + length vs - j)) u))\<lparr>cur := b\<rparr>)"
    using k by (simp add: here_def COUNT_rq)
  from go_step [OF d1 _ _ this] k show ?thesis
    by (auto simp: PARSING_HEADER_iff)
qed

lemma go_value_rest:
  assumes d: "drop i d = vs @ CR # rest" and val: "plain_value h (c # vs)"
    and k: "k + length vs < HTTP_MAX_HEADER_SIZE"
  shows "\<exists>st'. go cfg d s_header_value i ((\<lambda>_. None)(FOR_header_value := Some j))
      (rqf ps m v (first_length h c cl) up k st h idx) u
    = go cfg d s_header_almost_done (i + length vs + 1) (\<lambda>_. None)
        (rqf ps m v (if h = h_content_length then of_nat (decimal (c # vs)) else cl) up (k + length vs + 1) st' h idx)
        (eff_data FOR_header_value j (byte_range d j (i + length vs - j)) u)"
  using value_loop_end [OF val, of "rqf ps m v (first_length h c cl) up (Suc k) st h idx" cl rest 0] k
  by (intro go_value_loop [OF d k]) simp

end

section \<open>The headers\<close>

definition header_ok :: "byte list \<times> byte list \<Rightarrow> bool" where
  "header_ok = (\<lambda>(n, v). n \<noteq> [] \<and> list_all (\<lambda>b. TOKEN b \<noteq> NUL) n
     \<and> v \<noteq> [] \<and> hd v \<noteq> CHR '' '' \<and> hd v \<noteq> TAB \<and> plain_value (name_class (map TOKEN n)) v)"

text \<open>The length a header declares, \<open>cl\<close> if it is not Content-Length.\<close>

definition header_length :: "uint64 \<Rightarrow> byte list \<times> byte list \<Rightarrow> uint64" where
  "header_length cl = (\<lambda>(n, v).
     if name_class (map TOKEN n) = h_content_length then of_nat (decimal v) else cl)"

text \<open>What the callbacks make of header lines that begin at offset \<open>i\<close>.\<close>

fun lines_effect :: "(data_for \<Rightarrow> nat \<Rightarrow> byte list \<Rightarrow> 'u \<Rightarrow> 'u) \<Rightarrow> nat \<Rightarrow> headers \<Rightarrow> 'u \<Rightarrow> 'u" where
  "lines_effect E i [] u = u"
| "lines_effect E i ((n, v) # hs) u =
     lines_effect E (i + length (header_line (n, v))) hs
       (E FOR_header_value (i + length n + 2) v (E FOR_header_field i n u))"

text \<open>The flag that a finished header sets goes into the parser at the start of the next line.\<close>

lemma go_lws_flag:
  assumes d: "drop i d = c # rest" and c: "c \<noteq> CHR '' ''" "c \<noteq> TAB" and k: "k < HTTP_MAX_HEADER_SIZE"
    and fl: "header_flag (rqf ps m v cl up (Suc k) st h idx) = rqf ps' m v cl up (Suc k) st h idx"
  shows "go cfg d s_header_value_lws i mk (rqf ps m v cl up k st h idx) u
    = go cfg d s_header_field_start i mk (rqf ps' m v cl up k st h idx) u"
proof -
  let ?l = "\<lambda>s ps. (here s i mk (rqf ps m v cl up (Suc k) st h idx) u)\<lparr>cur := c\<rparr>"
  have "unat (nread (rqf ps m v cl up k st h idx)) < HTTP_MAX_HEADER_SIZE" for ps
    using k by (simp add: rqf_def unat_of_nat_small HTTP_MAX_HEADER_SIZE_def)
  then have loop: "go cfg d s i mk (rqf ps m v cl up k st h idx) u = exec_loop cfg d True (?l s ps)"
    if "PARSING_HEADER s" for s ps
    using go_header [OF d _ that, of "rqf ps m v cl up k st h idx" cfg mk u] by simp
  have "exec_switch cfg d c (?l s_header_value_lws ps) = Reexecute (?l s_header_field_start ps')"
    using c fl by (simp add: exec_switch_def here_def exec_s_header_value_lws_def)
  then show ?thesis
    using loop [of s_header_value_lws ps] loop [of s_header_field_start ps'] go_Reexecute [of cfg d "?l s_header_value_lws ps"]
    by (simp add: PARSING_HEADER_iff)
qed

lemma go_lws:
  assumes d: "drop i d = c # rest" and c: "c \<noteq> CHR '' ''" "c \<noteq> TAB" and k: "k < HTTP_MAX_HEADER_SIZE"
    and h: "h \<in> {h_general, h_content_length}"
  shows "go cfg d s_header_value_lws i mk (rqf ps m v cl up k st h idx) u
    = go cfg d s_header_field_start i mk (rqf ps m v cl up k st h idx) u"
  using h by (intro go_lws_flag [OF d c k]) (auto simp: header_flag_def)

lemma go_space:
  assumes "drop i d = CHR '' '' # rest" "k < HTTP_MAX_HEADER_SIZE"
  shows "go cfg d s_header_value_discard_ws i mk (rqf ps m v cl up k st h idx) u
    = go cfg d s_header_value_discard_ws (Suc i) mk (rqf ps m v cl up (Suc k) st h idx) u"
  by (rule go_step [OF assms])
    (simp_all add: exec_switch_def here_def exec_s_header_value_discard_ws_def PARSING_HEADER_iff)

lemma go_almost_done:
  assumes "drop i d = LF # rest" "k < HTTP_MAX_HEADER_SIZE"
  shows "go cfg d s_header_almost_done i mk (rqf ps m v cl up k st h idx) u
    = go cfg d s_header_value_lws (Suc i) mk (rqf ps m v cl up (Suc k) st h idx) u"
  by (rule go_step [OF assms])
    (simp_all add: exec_switch_def here_def exec_s_header_almost_done_def STRICT_CHECK_def PARSING_HEADER_iff)

context passive_client
begin

lemma go_field:
  assumes d: "drop i d = n @ CHR '':'' # rest" and n: "n \<noteq> []" "list_all (\<lambda>b. TOKEN b \<noteq> NUL) n"
    and k: "k + length n < HTTP_MAX_HEADER_SIZE"
  shows "\<exists>st' h' idx'. go cfg d s_header_field_start i (\<lambda>_. None) (rqf ps m v cl up k st h idx) u
    = go cfg d s_header_value_discard_ws (i + length n + 1) (\<lambda>_. None)
        (rqf ps m v cl up (k + length n + 1) st' h' idx') (eff_data FOR_header_field i n u)
    \<and> name_inv (map TOKEN n) h' idx'"
proof -
  obtain c cs where cs: "n = c # cs" using n(1) by (cases n) auto
  have d1: "drop i d = c # cs @ CHR '':'' # rest" using d cs by simp
  show ?thesis
    using go_field_first [OF d1, of k cfg ps m v cl up st h idx u] n(2) k cs byte_range_drop [OF d]
      go_field_rest [OF drop_Suc_at [OF d1] _ first_name_inv [of "TOKEN c"], of "Suc k" i ps m v cl up st u]
    by simp
qed

lemma go_value:
  assumes d: "drop i d = v @ CR # rest" and v: "v \<noteq> []" "hd v \<noteq> CHR '' ''" "hd v \<noteq> TAB"
    and inv: "name_inv w h idx" and val: "plain_value (name_class w) v"
    and k: "k + length v < HTTP_MAX_HEADER_SIZE"
  shows "\<exists>st'. go cfg d s_header_value_discard_ws i (\<lambda>_. None) (rqf ps m ver cl up k st h idx) u
    = go cfg d s_header_almost_done (i + length v + 1) (\<lambda>_. None)
        (rqf ps m ver (if name_class w = h_content_length then of_nat (decimal v) else cl) up (k + length v + 1)
          st' (name_class w) 0)
        (eff_data FOR_header_value i v u)"
proof -
  obtain c cs where cs: "v = c # cs" using v(1) by (cases v) auto
  have d1: "drop i d = c # cs @ CR # rest" using d cs by simp
  have class': "name_class w \<in> {h_general, h_content_length}" "name_class w = h_content_length \<longrightarrow> IS_NUM c"
    using val cs by (auto simp: plain_value_def)
  have c: "c \<notin> {CHR '' '', TAB, CR, LF}"
    using v val cs IS_NUM_plain [of c] by (auto simp: plain_value_def)
  have val': "plain_value (name_class w) (c # cs)" using val cs by simp
  show ?thesis
    using go_value_first [OF d1 _ c inv class', of k cfg ps m ver cl up st u] k cs byte_range_drop [OF d]
      go_value_rest [OF drop_Suc_at [OF d1] val', of "Suc k" i ps m ver cl up st 0 u]
    by auto
qed

lemma go_name_part:
  assumes d: "drop i d = n @ '': '' @ rest" and n: "n \<noteq> []" "list_all (\<lambda>b. TOKEN b \<noteq> NUL) n"
    and k: "k + length n + 2 \<le> HTTP_MAX_HEADER_SIZE"
  shows "\<exists>st' h' idx'. go cfg d s_header_field_start i (\<lambda>_. None) (rqf ps m v cl up k st h idx) u
    = go cfg d s_header_value_discard_ws (i + length n + 2) (\<lambda>_. None)
        (rqf ps m v cl up (k + length n + 2) st' h' idx') (eff_data FOR_header_field i n u)
    \<and> name_inv (map TOKEN n) h' idx'"
proof -
  have d1: "drop i d = n @ CHR '':'' # CHR '' '' # rest" using d by simp
  from k have "k + length n < HTTP_MAX_HEADER_SIZE" by simp
  from go_field [OF d1 n this, of ps m v cl up st h idx u]
    go_space [OF drop_Suc_at [OF drop_append_at [OF d1]], of "Suc (k + length n)" cfg] k
  show ?thesis by (auto simp: eval_nat_numeral)
qed

lemma go_value_part:
  assumes d: "drop i d = v @ CR # LF # c # rest" and v: "v \<noteq> []" "hd v \<noteq> CHR '' ''" "hd v \<noteq> TAB"
    and inv: "name_inv w h idx" and val: "plain_value (name_class w) v" and c: "c \<noteq> CHR '' ''" "c \<noteq> TAB"
    and k: "k + length v + 2 < HTTP_MAX_HEADER_SIZE"
  shows "\<exists>st'. go cfg d s_header_value_discard_ws i (\<lambda>_. None) (rqf ps m ver cl up k st h idx) u
    = go cfg d s_header_field_start (i + length v + 2) (\<lambda>_. None)
        (rqf ps m ver (if name_class w = h_content_length then of_nat (decimal v) else cl) up (k + length v + 2)
          st' (name_class w) 0)
        (eff_data FOR_header_value i v u)"
proof -
  note d1 = drop_Suc_at [OF drop_append_at [OF d]] note d2 = drop_Suc_at [OF d1]
  from k have k': "k + length v < HTTP_MAX_HEADER_SIZE" "Suc (k + length v) < HTTP_MAX_HEADER_SIZE"
    "Suc (Suc (k + length v)) < HTTP_MAX_HEADER_SIZE" by simp_all
  have "name_class w \<in> {h_general, h_content_length}" using val by (auto simp: plain_value_def)
  from go_value [OF d v inv val k'(1), of ps m ver cl up st u] go_almost_done [OF d1 k'(2), of cfg]
    go_lws [OF d2 c k'(3) this, of cfg]
  show ?thesis by (auto simp: eval_nat_numeral)
qed

lemma go_header_line:
  assumes d: "drop i d = header_line (n, v) @ c # rest" and c: "c \<noteq> CHR '' ''" "c \<noteq> TAB"
    and ok: "header_ok (n, v)" and k: "k + length (header_line (n, v)) < HTTP_MAX_HEADER_SIZE"
  shows "\<exists>st' h' idx'. go cfg d s_header_field_start i (\<lambda>_. None) (rqf ps m ver cl up k st h idx) u
    = go cfg d s_header_field_start (i + length (header_line (n, v))) (\<lambda>_. None)
        (rqf ps m ver (header_length cl (n, v)) up (k + length (header_line (n, v))) st' h' idx')
        (eff_data FOR_header_value (i + length n + 2) v (eff_data FOR_header_field i n u))"
proof -
  have len: "length (header_line (n, v)) = length n + 2 + length v + 2"
    by (simp add: header_line_def)
  have ok': "n \<noteq> []" "list_all (\<lambda>b. TOKEN b \<noteq> NUL) n" "v \<noteq> []" "hd v \<noteq> CHR '' ''" "hd v \<noteq> TAB"
    "plain_value (name_class (map TOKEN n)) v"
    using ok by (simp_all add: header_ok_def)
  have d1: "drop i d = n @ '': '' @ v @ CR # LF # c # rest"
    using d by (simp add: header_line_def)
  have d2: "drop (i + length n + 2) d = v @ CR # LF # c # rest"
    using drop_Suc_at [OF drop_Suc_at [OF drop_append_at [OF d1, simplified]]] by (simp add: eval_nat_numeral)
  have k': "k + length n + 2 \<le> HTTP_MAX_HEADER_SIZE" using k len by simp
  obtain st1 h1 idx1 where 1: "go cfg d s_header_field_start i (\<lambda>_. None) (rqf ps m ver cl up k st h idx) u
      = go cfg d s_header_value_discard_ws (i + length n + 2) (\<lambda>_. None)
          (rqf ps m ver cl up (k + length n + 2) st1 h1 idx1) (eff_data FOR_header_field i n u)"
    and inv: "name_inv (map TOKEN n) h1 idx1"
    using go_name_part [OF d1 ok'(1,2) k', of ps m ver cl up st h idx u] by blast
  have "k + length n + 2 + length v + 2 < HTTP_MAX_HEADER_SIZE" using k len by simp
  from go_value_part [OF d2 ok'(3-5) inv ok'(6) c this] 1 len show ?thesis
    by (metis (no_types, lifting) add.assoc header_length_def old.prod.case)
qed

end

lemma name_first_byte:
  assumes "n \<noteq> []" "list_all (\<lambda>b. TOKEN b \<noteq> NUL) n"
  shows "\<exists>c rest. header_line (n, v) @ zs = c # rest \<and> c \<noteq> CHR '' '' \<and> c \<noteq> TAB"
proof -
  obtain c cs where n: "n = c # cs" "TOKEN c \<noteq> NUL"
    using assms by (cases n) auto
  then have "c \<noteq> TAB" by (auto simp: byte_simps IS_ALPHANUM_def)
  with n show ?thesis by (simp add: header_line_def)
qed

lemma header_first_byte:
  "header_ok (n, v) \<Longrightarrow> \<exists>c rest. header_line (n, v) @ zs = c # rest \<and> c \<noteq> CHR '' '' \<and> c \<noteq> TAB"
  by (rule name_first_byte) (simp_all add: header_ok_def)

context passive_client
begin

lemma go_header_lines_before:
  assumes d: "drop i d = concat (map header_line hs) @ c # rest" and c: "c \<noteq> CHR '' ''" "c \<noteq> TAB"
    and ok: "list_all header_ok hs" and k: "k + length (concat (map header_line hs)) < HTTP_MAX_HEADER_SIZE"
  shows "\<exists>st' h' idx'. go cfg d s_header_field_start i (\<lambda>_. None) (rqf ps m ver cl up k st h idx) u
    = go cfg d s_header_field_start (i + length (concat (map header_line hs))) (\<lambda>_. None)
        (rqf ps m ver (foldl header_length cl hs) up (k + length (concat (map header_line hs))) st' h' idx')
        (lines_effect eff_data i hs u)"
  using d ok k
proof (induction hs arbitrary: i k cl st h idx u)
  case Nil
  show ?case by (intro exI) simp
next
  case (Cons nv hs)
  obtain n v where nv: "nv = (n, v)" by (cases nv)
  obtain b rest' where b: "concat (map header_line hs) @ c # rest = b # rest'" "b \<noteq> CHR '' ''" "b \<noteq> TAB"
    using Cons.prems(2) header_first_byte c by (cases hs) fastforce+
  let ?len = "length (header_line nv)"
  have d1: "drop i d = header_line (n, v) @ b # rest'" using Cons.prems(1) b(1) nv by simp
  obtain st1 h1 idx1 where 1: "go cfg d s_header_field_start i (\<lambda>_. None) (rqf ps m ver cl up k st h idx) u
    = go cfg d s_header_field_start (i + ?len) (\<lambda>_. None)
        (rqf ps m ver (header_length cl nv) up (k + ?len) st1 h1 idx1)
        (eff_data FOR_header_value (i + length n + 2) v (eff_data FOR_header_field i n u))"
    using go_header_line [OF d1 b(2,3), of k ps m ver cl up st h idx u] Cons.prems(2,3) nv by auto
  have "drop (i + ?len) d = concat (map header_line hs) @ c # rest"
    using drop_append_at [OF d1] b(1) nv by simp
  from Cons.IH [OF this, of "k + ?len" "header_length cl nv" st1 h1 idx1] Cons.prems(2,3) 1 show ?case
    by (simp add: nv add.assoc)
qed

lemma go_header_lines:
  assumes "drop i d = concat (map header_line hs) @ CR # rest" and "list_all header_ok hs"
    and "k + length (concat (map header_line hs)) < HTTP_MAX_HEADER_SIZE"
  shows "\<exists>st' h' idx'. go cfg d s_header_field_start i (\<lambda>_. None) (rqf ps m ver cl up k st h idx) u
    = go cfg d s_header_field_start (i + length (concat (map header_line hs))) (\<lambda>_. None)
        (rqf ps m ver (foldl header_length cl hs) up (k + length (concat (map header_line hs))) st' h' idx')
        (lines_effect eff_data i hs u)"
  by (rule go_header_lines_before [OF assms(1) _ _ assms(2,3)]) simp_all

end

section \<open>The end of the headers and the body\<close>

lemma rq_keep_alive:
  "\<not> http_message_needs_eof (rq ps m (1, 1) cl up k st h idx) \<Longrightarrow>
   NEW_MESSAGE (rq ps m (1, 1) cl up k st h idx) = start_state ps"
  by (simp add: NEW_MESSAGE_def http_should_keep_alive_def) (simp add: rqf_def)

lemma rq_no_eof:
  "p_type ps = HTTP_REQUEST \<Longrightarrow> \<not> http_message_needs_eof (rq ps m v cl up k st h idx)"
  "cl \<noteq> ULLONG_MAX \<Longrightarrow> \<not> http_message_needs_eof (rq ps m v cl up k st h idx)"
  by (simp_all add: http_message_needs_eof_def)

lemma zero_no_max [simp]: "(0 :: uint64) \<noteq> ULLONG_MAX" "ULLONG_MAX \<noteq> (0 :: uint64)"
  by (simp_all add: ULLONG_MAX_def)

lemma go_headers_CR:
  assumes "drop i d = CR # rest" "k < HTTP_MAX_HEADER_SIZE"
  shows "go cfg d s_header_field_start i mk (rqf ps m v cl up k st h idx) u
    = go cfg d s_headers_almost_done (Suc i) mk (rqf ps m v cl up (Suc k) st h idx) u"
  by (rule go_step [OF assms])
    (simp_all add: exec_switch_def here_def exec_s_header_field_start_def PARSING_HEADER_iff)

context passive_client
begin

lemma go_headers_done:
  assumes d: "drop i d = LF # rest" and k: "k < HTTP_MAX_HEADER_SIZE" and m: "m \<noteq> HTTP_CONNECT"
    and fl: "flags ps \<in> {0, F_CHUNKED}"
  shows "go cfg d s_headers_almost_done i mk (rqf ps m v cl up k st h idx) u
    = exec_loop cfg d True ((here s_headers_done i mk (rqf ps m v cl False (Suc k) st h idx) (eff_headers u))\<lparr>cur := LF\<rparr>)"
proof -
  let ?l = "(here s_headers_almost_done i mk (rqf ps m v cl up (Suc k) st h idx) u)\<lparr>cur := LF\<rparr>"
  have "unat (nread (rqf ps m v cl up k st h idx)) < HTTP_MAX_HEADER_SIZE"
    using k by (simp add: rqf_def unat_of_nat_small HTTP_MAX_HEADER_SIZE_def)
  then have "go cfg d s_headers_almost_done i mk (rqf ps m v cl up k st h idx) u = exec_loop cfg d True ?l"
    using go_header [OF d, of "rqf ps m v cl up k st h idx" s_headers_almost_done cfg mk u]
    by (simp add: PARSING_HEADER_iff)
  moreover have "exec_switch cfg d LF ?l = Reexecute
      ((here s_headers_done i mk (rqf ps m v cl False (Suc k) st h idx) (eff_headers u))\<lparr>cur := LF\<rparr>)"
  proof (cases "on_headers_complete cfg")
    case None
    then show ?thesis
      using m fl headers_None [OF None, of u]
      by (auto simp: exec_switch_def here_def exec_s_headers_almost_done_def STRICT_CHECK_def Let_def flag_defs has_flag_def)
  next
    case (Some f)
    then show ?thesis
      using m fl headers_Some [OF Some]
      by (auto simp: exec_switch_def here_def exec_s_headers_almost_done_def STRICT_CHECK_def Let_def flag_defs has_flag_def)
  qed
  ultimately show ?thesis by (simp add: go_Reexecute here_def)
qed

text \<open>Without a body the message ends here.\<close>

lemma go_no_body:
  assumes "cl = 0 \<or> cl = ULLONG_MAX \<and> p_type ps = HTTP_REQUEST"
  shows "\<exists>st'. exec_loop cfg d True ((here s_headers_done i mk (rq ps m (1, 1) cl False k st h idx) u)\<lparr>cur := LF\<rparr>)
    = go cfg d (start_state ps) (Suc i) mk (rq ps m (1, 1) cl False 0 st' h idx) (eff_notify FOR_message_complete u)"
proof -
  let ?l = "(here s_headers_done i mk (rq ps m (1, 1) cl False k st h idx) u)\<lparr>cur := LF\<rparr>"
  let ?l1 = "(here (start_state ps) i mk (rq ps m (1, 1) cl False 0 st h idx) u)\<lparr>cur := LF\<rparr>"
  have eof: "\<not> http_message_needs_eof (rq ps m (1, 1) cl False 0 st h idx)"
    using assms by (auto simp: rq_no_eof)
  have "exec_switch cfg d LF ?l = CALLBACK_NOTIFY_at cfg FOR_message_complete (Suc i) Break ?l1"
  proof (cases "cl = 0")
    case True
    then show ?thesis
      using eof by (simp add: exec_switch_def here_def exec_s_headers_done_def STRICT_CHECK_def Let_def
          CALLBACK_NOTIFY_def rq_keep_alive)
  next
    case False
    then have "cl = ULLONG_MAX" using assms by simp
    then show ?thesis
      using eof by (simp add: exec_switch_def here_def exec_s_headers_done_def STRICT_CHECK_def Let_def
          CALLBACK_NOTIFY_def rq_keep_alive)
  qed
  with CALLBACK_NOTIFY_at_passive [of ?l1 FOR_message_complete "Suc i" Break]
  obtain st' where "exec_switch cfg d LF ?l = Break ((here (start_state ps) i mk
      (rq ps m (1, 1) cl False 0 st' h idx) (eff_notify FOR_message_complete u))\<lparr>cur := LF\<rparr>)"
    by (auto simp: here_def)
  then show ?thesis by (intro exI [of _ st']) (simp add: go_Break here_def)
qed

lemma go_has_body:
  assumes "cl \<noteq> 0" "cl \<noteq> ULLONG_MAX"
  shows "exec_loop cfg d True ((here s_headers_done i mk (rq ps m v cl False k st h idx) u)\<lparr>cur := LF\<rparr>)
    = go cfg d s_body_identity (Suc i) mk (rq ps m v cl False 0 st h idx) u"
proof -
  let ?l = "(here s_headers_done i mk (rq ps m v cl False k st h idx) u)\<lparr>cur := LF\<rparr>"
  have "exec_switch cfg d LF ?l = Break ((here s_body_identity i mk (rq ps m v cl False 0 st h idx) u)\<lparr>cur := LF\<rparr>)"
    using assms by (simp add: exec_switch_def here_def exec_s_headers_done_def STRICT_CHECK_def Let_def rqf_def)
  then show ?thesis by (simp add: go_Break here_def)
qed

lemma go_body_identity:
  assumes d: "drop i d = body @ rest" and body: "body \<noteq> []" "length d < 2 ^ 64" "length body < 2 ^ 60"
  shows "\<exists>st'. go cfg d s_body_identity i (\<lambda>_. None) (rq ps m (1, 1) (of_nat (length body)) False 0 st h idx) u
    = go cfg d (start_state ps) (i + length body) (\<lambda>_. None) (rq ps m (1, 1) 0 False 0 st' h idx)
        (eff_notify FOR_message_complete (eff_data FOR_body i body u))"
proof -
  obtain c rest' where d1: "drop i d = c # rest'" using d body(1) by (cases body) auto
  let ?cl = "of_nat (length body) :: uint64"
  have len: "length body \<le> length d - i" using arg_cong [OF d, of length] by simp
  have cl: "unat ?cl = length body" using body(3) by (simp add: unat_of_nat_small)
  have "?cl \<noteq> 0" using cl body(1) by auto
  have "?cl \<noteq> ULLONG_MAX" using cl body(3) by (auto simp: ULLONG_MAX_def)
  have "?cl \<le> of_nat (length d - i)"
    using len body(2) cl by (simp add: word_le_nat_alt unat_of_nat_small)
  then have to_read: "min ?cl (of_nat (length d - i)) = ?cl" by (simp add: min_def)
  let ?l = "(here s_body_identity i (\<lambda>_. None) (rq ps m (1, 1) ?cl False 0 st h idx) u)\<lparr>cur := c\<rparr>"
  let ?l1 = "(here s_message_done (i + length body - 1) ((\<lambda>_. None)(FOR_body := Some i))
      (rq ps m (1, 1) 0 False 0 st h idx) u)\<lparr>cur := c\<rparr>"
  have "exec_switch cfg d c ?l = CALLBACK_DATA_at cfg d FOR_body
      (\<lambda>m. i + length body - 1 - m + 1) (i + length body - 1) Reexecute ?l1"
    using \<open>?cl \<noteq> 0\<close> \<open>?cl \<noteq> ULLONG_MAX\<close> to_read cl
    by (simp add: exec_switch_def here_def exec_s_body_identity_def assert_then_def consume_body_def
        body_to_read_def MARK_def Let_def)
  with CALLBACK_DATA_at_passive [of ?l1 FOR_body i d "\<lambda>m. i + length body - 1 - m + 1" "i + length body - 1" Reexecute]
  obtain st1 where 1: "exec_switch cfg d c ?l = Reexecute ((here s_message_done (i + length body - 1) (\<lambda>_. None)
      (rq ps m (1, 1) 0 False 0 st1 h idx) (eff_data FOR_body i body u))\<lparr>cur := c\<rparr>)" (is "_ = Reexecute ?l2")
    using body(1) byte_range_drop [OF d] by (auto simp: here_def)
  let ?l3 = "?l2\<lparr>p_state := start_state ps\<rparr>"
  let ?k = "\<lambda>l. if upgrade (parser l) then RETURN (pos l + 1) l else Break l"
  have "exec_switch cfg d c ?l2 = CALLBACK_NOTIFY_at cfg FOR_message_complete (i + length body - 1 + 1) ?k ?l3"
    by (simp add: exec_switch_def here_def exec_s_message_done_def CALLBACK_NOTIFY_def rq_keep_alive rq_no_eof)
  with CALLBACK_NOTIFY_at_passive [of ?l3 FOR_message_complete "i + length body - 1 + 1" ?k]
  obtain st2 where 2: "exec_switch cfg d c ?l2 = Break ((here (start_state ps) (i + length body - 1) (\<lambda>_. None)
      (rq ps m (1, 1) 0 False 0 st2 h idx) (eff_notify FOR_message_complete (eff_data FOR_body i body u)))\<lparr>cur := c\<rparr>)"
    by (auto simp: here_def rqf_def)
  have "go cfg d s_body_identity i (\<lambda>_. None) (rq ps m (1, 1) ?cl False 0 st h idx) u = exec_loop cfg d True ?l"
    by (rule go_body [OF d1]) (simp add: PARSING_HEADER_iff)
  also have "\<dots> = exec_loop cfg d True ?l2" using 1 by (intro go_Reexecute) (simp add: here_def)
  finally show ?thesis using 2 body(1) by (intro exI [of _ st2]) (simp add: go_Break here_def)
qed

end

section \<open>Whole requests\<close>

record request_message =
  msg_method :: http_method
  msg_url :: "byte list"
  msg_headers :: headers
  msg_body :: "byte list"

definition request_head :: "request_message \<Rightarrow> byte list" where
  "request_head r =
     request_line (msg_method r) (msg_url r) @ concat (map header_line (msg_headers r)) @ [CR, LF]"

definition request_text :: "request_message \<Rightarrow> byte list" where
  "request_text r = request_head r @ msg_body r"

text \<open>
  The length that the last Content-Length header declares; without one a request has no body.
\<close>

definition declared_length :: "headers \<Rightarrow> nat" where
  "declared_length hs =
     (let cl = foldl header_length ULLONG_MAX hs in if cl = ULLONG_MAX then 0 else unat cl)"

definition request_ok :: "request_message \<Rightarrow> bool" where
  "request_ok r \<longleftrightarrow>
     msg_method r \<noteq> HTTP_CONNECT \<and> request_url_ok (msg_url r) \<and> list_all header_ok (msg_headers r)
     \<and> length (request_head r) \<le> HTTP_MAX_HEADER_SIZE
     \<and> length (msg_body r) < 2 ^ 60 \<and> declared_length (msg_headers r) = length (msg_body r)"

text \<open>At the end of the buffer, between two requests, the function returns.\<close>

lemma go_end:
  "http_errno ps = HPE_OK \<Longrightarrow> go cfg d s (length d) (\<lambda>_. None) ps u =
     Some (Returned (length d) (ps\<lparr>state := s\<rparr>) u)"
  unfolding go_def
  by (subst exec_loop.simps) (simp add: here_def exec_finish_def assert_then_def CALLBACK_DATA_NOADVANCE_def
      CALLBACK_DATA_at_def RETURN_def outcome_result_def)

text \<open>Line ends between requests are skipped.\<close>

lemma go_blanks:
  assumes "drop i d = bs @ rest" "set bs \<subseteq> {CR, LF}" "k + length bs \<le> HTTP_MAX_HEADER_SIZE"
  shows "go cfg d s_start_req i mk (ps\<lparr>nread := of_nat k\<rparr>) u
    = go cfg d s_start_req (i + length bs) mk (ps\<lparr>nread := of_nat (k + length bs)\<rparr>) u"
  using assms
proof (induction bs arbitrary: i k)
  case Nil
  then show ?case by simp
next
  case (Cons c bs)
  have d: "drop i d = c # bs @ rest" using Cons.prems(1) by simp
  have k: "unat (nread (ps\<lparr>nread := of_nat k\<rparr>)) < HTTP_MAX_HEADER_SIZE"
    using Cons.prems(3) by (simp add: unat_of_nat_small HTTP_MAX_HEADER_SIZE_def)
  let ?l = "(here s_start_req i mk (ps\<lparr>nread := of_nat (Suc k)\<rparr>) u)\<lparr>cur := c\<rparr>"
  have "exec_switch cfg d c ?l = Break ?l"
    using Cons.prems(2) by (simp add: exec_switch_def here_def exec_s_start_req_def)
  moreover have "go cfg d s_start_req i mk (ps\<lparr>nread := of_nat k\<rparr>) u = exec_loop cfg d True ?l"
    using go_header [OF d k, of s_start_req cfg mk u] by (simp add: PARSING_HEADER_iff add.commute)
  ultimately show ?case
    using Cons.IH [OF drop_Suc_at [OF d], of "Suc k"] Cons.prems(2,3) by (simp add: go_Break here_def)
qed

text \<open>What the callbacks make of a request that begins at offset \<open>i\<close>, and of several in a row.\<close>

definition request_effect :: "(data_for \<Rightarrow> nat \<Rightarrow> byte list \<Rightarrow> 'u \<Rightarrow> 'u) \<Rightarrow> (notify_for \<Rightarrow> 'u \<Rightarrow> 'u)
    \<Rightarrow> ('u \<Rightarrow> 'u) \<Rightarrow> nat \<Rightarrow> request_message \<Rightarrow> 'u \<Rightarrow> 'u" where
  "request_effect E N H i r u =
     (let u = E FOR_url (i + length (method_string (msg_method r)) + 1) (msg_url r) (N FOR_message_begin u);
          u = lines_effect E (i + length (request_line (msg_method r) (msg_url r))) (msg_headers r) u;
          u = H u;
          u = (if msg_body r = [] then u else E FOR_body (i + length (request_head r)) (msg_body r) u)
      in N FOR_message_complete u)"

fun requests_effect :: "(data_for \<Rightarrow> nat \<Rightarrow> byte list \<Rightarrow> 'u \<Rightarrow> 'u) \<Rightarrow> (notify_for \<Rightarrow> 'u \<Rightarrow> 'u)
    \<Rightarrow> ('u \<Rightarrow> 'u) \<Rightarrow> nat \<Rightarrow> request_message list \<Rightarrow> 'u \<Rightarrow> 'u" where
  "requests_effect E N H i [] u = u"
| "requests_effect E N H i (r # rs) u =
     requests_effect E N H (i + length (request_text r)) rs (request_effect E N H i r u)"

text \<open>The parser after a request.\<close>

definition after_request :: "request_message \<Rightarrow> http_parser \<Rightarrow> bool" where
  "after_request r ps \<longleftrightarrow> idle ps \<and> p_method ps = msg_method r \<and> http_major ps = 1 \<and> http_minor ps = 1
     \<and> flags ps = 0 \<and> \<not> upgrade ps"

lemma after_request_rq: "p_type ps = HTTP_REQUEST \<Longrightarrow> after_request r (rq ps (msg_method r) (1, 1) cl False 0 st h idx)"
  by (simp add: after_request_def idle_def) (simp add: rqf_def)

lemma header_length_range:
  "list_all header_ok hs \<Longrightarrow> unat cl < 2 ^ 60 \<or> cl = ULLONG_MAX \<Longrightarrow>
   unat (foldl header_length cl hs) < 2 ^ 60 \<or> foldl header_length cl hs = ULLONG_MAX"
proof (induction hs arbitrary: cl)
  case (Cons nv hs)
  obtain n v where nv: "nv = (n, v)" by (cases nv)
  have "unat (header_length cl nv) < 2 ^ 60 \<or> header_length cl nv = ULLONG_MAX"
    using Cons.prems nv by (auto simp: header_length_def header_ok_def plain_value_def unat_of_nat_small)
  with Cons show ?case by simp
qed simp

lemma declared_length_cases:
  assumes "list_all header_ok hs"
  shows "declared_length hs = 0 \<and> foldl header_length ULLONG_MAX hs \<in> {0, ULLONG_MAX}
    \<or> 0 < declared_length hs \<and> foldl header_length ULLONG_MAX hs = of_nat (declared_length hs)
      \<and> foldl header_length ULLONG_MAX hs \<notin> {0, ULLONG_MAX}"
  by (auto simp: declared_length_def Let_def unat_gt_0)

context passive_client
begin

lemma go_stem:
  assumes d: "drop i d = request_line (msg_method r) (msg_url r) @ concat (map header_line (msg_headers r)) @ CR # rest"
    and ps: "idle ps" and r: "request_ok r"
  shows "\<exists>st h idx. go cfg d s_start_req i (\<lambda>_. None) ps u = go cfg d s_headers_almost_done (i + length (request_head r) - 1) (\<lambda>_. None)
      (rq ps (msg_method r) (1, 1) (foldl header_length ULLONG_MAX (msg_headers r)) (upgrade ps)
        (length (request_head r) - 1) st h idx)
      (lines_effect eff_data (i + length (request_line (msg_method r) (msg_url r))) (msg_headers r)
        (eff_data FOR_url (i + length (method_string (msg_method r)) + 1) (msg_url r)
          (eff_notify FOR_message_begin u)))"
proof -
  let ?line = "request_line (msg_method r) (msg_url r)"
  let ?lines = "concat (map header_line (msg_headers r))"
  have ok: "msg_method r \<noteq> HTTP_CONNECT" "request_url_ok (msg_url r)" "list_all header_ok (msg_headers r)"
    "length ?line + length ?lines + 2 \<le> HTTP_MAX_HEADER_SIZE"
    using r by (simp_all add: request_ok_def request_head_def)
  note d2 = drop_append_at [OF d] note d3 = drop_append_at [OF d2]
  have len: "length ?line \<le> HTTP_MAX_HEADER_SIZE" "length ?line + length ?lines < HTTP_MAX_HEADER_SIZE"
    using ok(4) by simp_all
  let ?cl = "foldl header_length ULLONG_MAX (msg_headers r)"
  let ?u1 = "eff_data FOR_url (i + length (method_string (msg_method r)) + 1) (msg_url r) (eff_notify FOR_message_begin u)"
  let ?u2 = "lines_effect eff_data (i + length ?line) (msg_headers r) ?u1"
  obtain st1 h1 idx1 where 1: "go cfg d s_start_req i (\<lambda>_. None) ps u
      = go cfg d s_header_field_start (i + length ?line) (\<lambda>_. None)
        (rq ps (msg_method r) (1, 1) ULLONG_MAX (upgrade ps) (length ?line) st1 h1 idx1) ?u1"
    using go_request_line [OF d ps ok(2,1) len(1), of u] by blast
  obtain st2 h2 idx2 where 2: "go cfg d s_header_field_start (i + length ?line) (\<lambda>_. None)
        (rq ps (msg_method r) (1, 1) ULLONG_MAX (upgrade ps) (length ?line) st1 h1 idx1) ?u1
      = go cfg d s_header_field_start (i + length ?line + length ?lines) (\<lambda>_. None)
        (rq ps (msg_method r) (1, 1) ?cl (upgrade ps) (length ?line + length ?lines) st2 h2 idx2) ?u2"
    using go_header_lines [OF d2 ok(3) len(2), of "ps\<lparr>flags := 0\<rparr>" "msg_method r" "(1, 1)" ULLONG_MAX "upgrade ps" st1 h1 idx1 ?u1]
    by blast
  show ?thesis
    using 1 2 go_headers_CR [OF d3 len(2), of cfg]
    by (intro exI [of _ st2] exI [of _ h2] exI [of _ idx2]) (simp add: request_head_def add.assoc)
qed

lemma go_head:
  assumes d: "drop i d = request_head r @ rest" and ps: "idle ps" and r: "request_ok r"
  shows "\<exists>st h idx. go cfg d s_start_req i (\<lambda>_. None) ps u = exec_loop cfg d True
    ((here s_headers_done (i + length (request_head r) - 1) (\<lambda>_. None)
      (rq ps (msg_method r) (1, 1) (foldl header_length ULLONG_MAX (msg_headers r)) False
        (length (request_head r)) st h idx)
      (eff_headers (lines_effect eff_data (i + length (request_line (msg_method r) (msg_url r))) (msg_headers r)
        (eff_data FOR_url (i + length (method_string (msg_method r)) + 1) (msg_url r)
          (eff_notify FOR_message_begin u)))))\<lparr>cur := LF\<rparr>)"
proof -
  let ?n = "length (request_head r) - 1"
  have d1: "drop i d = request_line (msg_method r) (msg_url r) @ concat (map header_line (msg_headers r)) @ CR # LF # rest"
    using d by (simp add: request_head_def)
  have "drop (i + ?n) d = LF # rest"
    using drop_append_at [OF d1 [folded append_assoc]] by (simp add: request_head_def drop_Suc_at)
  moreover have "?n < HTTP_MAX_HEADER_SIZE" "Suc ?n = length (request_head r)" "msg_method r \<noteq> HTTP_CONNECT" "flags (ps\<lparr>flags := 0\<rparr>) \<in> {0, F_CHUNKED}"
    using r by (simp_all add: request_ok_def request_head_def)
  ultimately show ?thesis
    using go_stem [OF d1 ps r, of u] go_headers_done [of "i + ?n" d rest ?n "msg_method r"] by (simp add: request_head_def)
qed

lemma go_request:
  assumes d: "drop i d = request_text r @ rest" and ps: "idle ps" and r: "request_ok r" and size: "length d < 2 ^ 64"
  shows "\<exists>ps'. go cfg d s_start_req i (\<lambda>_. None) ps u
    = go cfg d s_start_req (i + length (request_text r)) (\<lambda>_. None) ps'
        (request_effect eff_data eff_notify eff_headers i r u) \<and> after_request r ps'"
proof -
  have type: "p_type ps = HTTP_REQUEST" "start_state ps = s_start_req"
    using ps by (simp_all add: idle_def start_state_def)
  let ?cl = "foldl header_length ULLONG_MAX (msg_headers r)"
  have d1: "drop i d = request_head r @ msg_body r @ rest" using d by (simp add: request_text_def)
  have len: "i + length (request_head r) = Suc (i + length (request_head r) - 1)"
    by (simp add: request_head_def)
  let ?u = "eff_headers (lines_effect eff_data (i + length (request_line (msg_method r) (msg_url r))) (msg_headers r)
      (eff_data FOR_url (i + length (method_string (msg_method r)) + 1) (msg_url r) (eff_notify FOR_message_begin u)))"
  obtain st h idx where 1: "go cfg d s_start_req i (\<lambda>_. None) ps u = exec_loop cfg d True
      ((here s_headers_done (i + length (request_head r) - 1) (\<lambda>_. None)
        (rq ps (msg_method r) (1, 1) ?cl False (length (request_head r)) st h idx) ?u)\<lparr>cur := LF\<rparr>)"
    using go_head [OF d1 ps r] by blast
  have hs: "list_all header_ok (msg_headers r)" and body: "declared_length (msg_headers r) = length (msg_body r)"
    "length (msg_body r) < 2 ^ 60"
    using r by (simp_all add: request_ok_def)
  from declared_length_cases [OF hs] show ?thesis
  proof (elim disjE conjE)
    assume "declared_length (msg_headers r) = 0" "?cl \<in> {0, ULLONG_MAX}"
    then have none: "msg_body r = []" "?cl = 0 \<or> ?cl = ULLONG_MAX" using body by auto
    obtain st' where "exec_loop cfg d True
        ((here s_headers_done (i + length (request_head r) - 1) (\<lambda>_. None)
          (rq ps (msg_method r) (1, 1) ?cl False (length (request_head r)) st h idx) ?u)\<lparr>cur := LF\<rparr>)
      = go cfg d s_start_req (i + length (request_head r)) (\<lambda>_. None)
          (rq ps (msg_method r) (1, 1) ?cl False 0 st' h idx) (eff_notify FOR_message_complete ?u)"
      using go_no_body [of ?cl ps] none(2) type len by metis
    with 1 none(1) after_request_rq [OF type(1), of r ?cl st' h idx] show ?thesis
      by (intro exI conjI, simp add: request_effect_def request_text_def Let_def)
  next
    assume cl: "0 < declared_length (msg_headers r)" "?cl = of_nat (declared_length (msg_headers r))"
      "?cl \<notin> {0, ULLONG_MAX}"
    then have nonempty: "msg_body r \<noteq> []" and "?cl \<noteq> 0" "?cl \<noteq> ULLONG_MAX" using body by auto
    then have 2: "go cfg d s_start_req i (\<lambda>_. None) ps u = go cfg d s_body_identity (i + length (request_head r)) (\<lambda>_. None)
          (rq ps (msg_method r) (1, 1) (of_nat (length (msg_body r))) False 0 st h idx) ?u"
      using 1 go_has_body [of ?cl d "i + length (request_head r) - 1"] len body cl by simp
    obtain st' where 3: "go cfg d s_body_identity (i + length (request_head r)) (\<lambda>_. None)
          (rq ps (msg_method r) (1, 1) (of_nat (length (msg_body r))) False 0 st h idx) ?u
      = go cfg d s_start_req (i + length (request_head r) + length (msg_body r)) (\<lambda>_. None)
          (rq ps (msg_method r) (1, 1) 0 False 0 st' h idx)
          (eff_notify FOR_message_complete (eff_data FOR_body (i + length (request_head r)) (msg_body r) ?u))"
      using go_body_identity [OF drop_append_at [OF d1] nonempty size body(2), where ps = ps, unfolded type(2)] by blast
    show ?thesis
      unfolding 2 3 using nonempty after_request_rq [OF type(1), of r 0 st' h idx]
      by (intro exI conjI, simp add: request_effect_def request_text_def Let_def add.assoc)
  qed
qed

lemma go_requests:
  assumes "drop i d = concat (map request_text rs) @ rest" "idle ps" "list_all request_ok rs" "length d < 2 ^ 64"
  shows "\<exists>ps'. go cfg d s_start_req i (\<lambda>_. None) ps u
      = go cfg d s_start_req (i + length (concat (map request_text rs))) (\<lambda>_. None) ps'
      (requests_effect eff_data eff_notify eff_headers i rs u)
    \<and> idle ps' \<and> (rs \<noteq> [] \<longrightarrow> after_request (last rs) ps')"
  using assms
proof (induction rs arbitrary: i ps u)
  case Nil
  then show ?case by auto
next
  case (Cons r rs)
  have d: "drop i d = request_text r @ concat (map request_text rs) @ rest" using Cons.prems(1) by simp
  obtain ps1 where 1: "go cfg d s_start_req i (\<lambda>_. None) ps u
      = go cfg d s_start_req (i + length (request_text r)) (\<lambda>_. None) ps1
        (request_effect eff_data eff_notify eff_headers i r u)" "after_request r ps1"
    using go_request [OF d Cons.prems(2) _ Cons.prems(4), of u] Cons.prems(3) by auto
  from Cons.IH [OF drop_append_at [OF d] _ _ Cons.prems(4), of ps1
      "request_effect eff_data eff_notify eff_headers i r u"] Cons.prems(3) 1
  obtain ps2 where 2: "go cfg d s_start_req i (\<lambda>_. None) ps u
      = go cfg d s_start_req (i + length (concat (map request_text (r # rs)))) (\<lambda>_. None) ps2
      (requests_effect eff_data eff_notify eff_headers i (r # rs) u)" "idle ps2"
      "rs \<noteq> [] \<longrightarrow> after_request (last rs) ps2"
    by (auto simp: after_request_def add.assoc)
  show ?case
  proof (cases "rs = []")
    case True
    with 1 show ?thesis by (intro exI [of _ ps1]) (simp add: after_request_def)
  next
    case False
    with 2 show ?thesis by (intro exI [of _ ps2]) simp
  qed
qed

text \<open>The call as a whole; line ends after the last request are counted and dropped.\<close>

lemma execute_requests:
  assumes ps: "idle ps" "state ps = s_start_req" and rs: "list_all request_ok rs"
    and d: "d = concat (map request_text rs) @ blanks" "length d < 2 ^ 64"
    and blanks: "set blanks \<subseteq> {CR, LF}" "length blanks \<le> HTTP_MAX_HEADER_SIZE"
  shows "\<exists>ps'. http_parser_execute cfg d ps u =
      Some (Returned (length d) (ps'\<lparr>nread := of_nat (length blanks)\<rparr>)
        (requests_effect eff_data eff_notify eff_headers 0 rs u))
    \<and> idle ps' \<and> state ps' = s_start_req \<and> (rs \<noteq> [] \<longrightarrow> after_request (last rs) ps')"
proof (cases "d = []")
  case True
  then have "rs = []" using d(1) by (cases rs) (auto simp: request_text_def request_head_def)
  with True ps d(1) show ?thesis
    by (intro exI [of _ ps]) (simp add: http_parser_execute_def execute_eof_def idle_def)
next
  case False
  let ?u = "requests_effect eff_data eff_notify eff_headers 0 rs u"
  let ?n = "length (concat (map request_text rs))"
  obtain ps1 where 1: "go cfg d s_start_req 0 (\<lambda>_. None) ps u = go cfg d s_start_req ?n (\<lambda>_. None) ps1 ?u"
    "idle ps1" "rs \<noteq> [] \<longrightarrow> after_request (last rs) ps1"
    using go_requests [of 0 d rs blanks ps u] ps rs d by auto
  have 2: "go cfg d s_start_req ?n (\<lambda>_. None) ps1 ?u
      = go cfg d s_start_req (length d) (\<lambda>_. None) (ps1\<lparr>nread := of_nat (length blanks)\<rparr>) ?u"
    using go_blanks [of ?n d blanks "[]" 0 cfg "\<lambda>_. None" ps1 ?u] d(1) blanks 1(2)
    by (cases ps1) (simp add: idle_def)
  have "initial_locals ps u = here s_start_req 0 (\<lambda>_. None) ps u"
    using ps(2) by (simp add: initial_locals_def here_def initial_marks_def)
  with False ps have 3: "http_parser_execute cfg d ps u = go cfg d s_start_req 0 (\<lambda>_. None) ps u"
    by (simp add: http_parser_execute_def go_def idle_def)
  have "http_parser_execute cfg d ps u =
      Some (Returned (length d) (ps1\<lparr>nread := of_nat (length blanks), state := s_start_req\<rparr>) ?u)"
    using 1(2) unfolding 3 1(1) 2 by (intro go_end) (simp add: idle_def)
  then show ?thesis
    using 1(2,3) by (intro exI [of _ "ps1\<lparr>state := s_start_req\<rparr>"]) (cases ps1, simp add: idle_def after_request_def)
qed

end

section \<open>What an observer sees of requests\<close>

definition header_events :: "byte list \<times> byte list \<Rightarrow> event list" where
  "header_events = (\<lambda>(n, v). [Data FOR_header_field n, Data FOR_header_value v])"

definition request_events :: "request_message \<Rightarrow> event list" where
  "request_events r =
     [Notify FOR_message_begin, Data FOR_url (msg_url r)] @ concat (map header_events (msg_headers r))
     @ [Headers_complete] @ (if msg_body r = [] then [] else [Data FOR_body (msg_body r)])
     @ [Notify FOR_message_complete]"

interpretation observing: passive_client observer "\<lambda>FOR m bs es. es @ [Data FOR bs]"
  "\<lambda>FOR es. es @ [Notify FOR]" "\<lambda>es. es @ [Headers_complete]"
  by unfold_locales (auto simp: note_data_def note_event_def)

lemma observed_lines:
  "lines_effect (\<lambda>FOR m bs es. es @ [Data FOR bs]) i hs es = es @ concat (map header_events hs)"
  by (induction hs arbitrary: i es) (auto simp: header_events_def)

lemma observed_requests:
  "requests_effect (\<lambda>FOR m bs es. es @ [Data FOR bs]) (\<lambda>FOR es. es @ [Notify FOR]) (\<lambda>es. es @ [Headers_complete])
    i rs es = es @ concat (map request_events rs)"
  by (induction rs arbitrary: i es) (simp_all add: request_effect_def observed_lines request_events_def Let_def)

lemma requests_run:
  assumes "idle ps" and "state ps = s_start_req" and "list_all request_ok rs"
    and "length (concat (map request_text rs)) < 2 ^ 64"
  shows "\<exists>ps'. http_parser_execute observer (concat (map request_text rs)) ps es =
      Some (Returned (length (concat (map request_text rs))) ps' (es @ concat (map request_events rs)))
    \<and> idle ps' \<and> state ps' = s_start_req \<and> (rs \<noteq> [] \<longrightarrow> after_request (last rs) ps')"
proof -
  obtain ps' where "http_parser_execute observer (concat (map request_text rs)) ps es =
      Some (Returned (length (concat (map request_text rs))) (ps'\<lparr>nread := 0\<rparr>) (es @ concat (map request_events rs)))"
    "idle ps'" "state ps' = s_start_req" "rs \<noteq> [] \<longrightarrow> after_request (last rs) ps'"
    using observing.execute_requests [OF assms(1-3) _ assms(4), of "[]" es] by (auto simp: observed_requests)
  moreover from this(2) have "ps'\<lparr>nread := 0\<rparr> = ps'" by (cases ps') (simp add: idle_def)
  ultimately show ?thesis by metis
qed

text \<open>
  C2. Correctness on well-formed requests. For any number of requests one after another in one
  buffer, each of them a method other than CONNECT, a URL, HTTP/1.1, header lines whose names
  are none of Connection, Proxy-Connection, Transfer-Encoding and Upgrade, and the body that
  Content-Length declares (none without it), the parser reads the whole buffer without an
  error and calls, for every request in turn, exactly the callbacks it should: the beginning,
  the URL, every header's name and value, the end of the headers, the body if there is one, and
  the end, each with exactly these bytes. Afterwards it waits for the next request and holds
  the method and the version of the last one.
\<close>

theorem requests_observed:
  assumes "idle ps" and "state ps = s_start_req" and "list_all request_ok rs"
    and "length (concat (map request_text rs)) < 2 ^ 64"
  shows "\<exists>ps'. http_parser_execute observer (concat (map request_text rs)) ps es =
      Some (Returned (length (concat (map request_text rs))) ps' (es @ concat (map request_events rs)))
    \<and> idle ps' \<and> state ps' = s_start_req \<and> (rs \<noteq> [] \<longrightarrow> after_request (last rs) ps')"
  using assms by (rule requests_run)

definition sample_request :: request_message where
  "sample_request =
     \<lparr>msg_method = HTTP_PUT, msg_url = ''/a?b=1'', msg_headers = [(''Host'', ''x y''), (''content-LENGTH'', ''12'')],
      msg_body = ''hello, world''\<rparr>"

lemma sample_headers_ok: "header_ok (''Host'', ''x y'')" "header_ok (''content-LENGTH'', ''12'')"
  by (simp_all add: header_ok_def TOKEN_def tokens_def name_class_def known_names_def plain_value_def
      decimal_def digit_val_def schar_def byte_simps)

lemma sample_request_ok: "request_ok sample_request"
proof -
  have length_headers: "header_length cl (''Host'', ''x y'') = cl" "header_length cl (''content-LENGTH'', ''12'') = 12" for cl
    by (simp_all add: header_length_def TOKEN_def tokens_def name_class_def known_names_def decimal_def digit_val_def
        schar_def)
  have "declared_length (msg_headers sample_request) = 12"
    by (simp add: sample_request_def declared_length_def length_headers ULLONG_MAX_def Let_def)
  moreover have "request_url_ok (msg_url sample_request)"
    by (simp add: sample_request_def request_url_ok_def parse_url_char_def byte_simps)
  ultimately show ?thesis
    by (simp add: request_ok_def sample_request_def request_head_def request_line_def header_line_def
        HTTP_MAX_HEADER_SIZE_def sample_headers_ok)
qed

lemma requests_observed_witness:
  "\<exists>ps'. http_parser_execute observer (request_text sample_request @ request_text sample_request)
      (http_parser_init blank_parser HTTP_REQUEST) [] =
    Some (Returned 132 ps'
      (request_events sample_request @ request_events sample_request))
    \<and> request_text sample_request =
      ''PUT /a?b=1 HTTP/1.1'' @ CRLF @ ''Host: x y'' @ CRLF @ ''content-LENGTH: 12'' @ CRLF @ CRLF @ ''hello, world''
    \<and> request_events sample_request =
      [Notify FOR_message_begin, Data FOR_url ''/a?b=1'', Data FOR_header_field ''Host'', Data FOR_header_value ''x y'',
       Data FOR_header_field ''content-LENGTH'', Data FOR_header_value ''12'', Headers_complete,
       Data FOR_body ''hello, world'', Notify FOR_message_complete]"
proof -
  have "idle (http_parser_init blank_parser HTTP_REQUEST)"
    "state (http_parser_init blank_parser HTTP_REQUEST) = s_start_req"
    by (simp_all add: idle_def http_parser_init_def)
  moreover have "list_all request_ok [sample_request, sample_request]" by (simp add: sample_request_ok)
  moreover have "request_text sample_request =
      ''PUT /a?b=1 HTTP/1.1'' @ CRLF @ ''Host: x y'' @ CRLF @ ''content-LENGTH: 12'' @ CRLF @ CRLF @ ''hello, world''"
    by (simp add: sample_request_def request_text_def request_head_def request_line_def header_line_def)
  ultimately show ?thesis
    using requests_observed [of "http_parser_init blank_parser HTTP_REQUEST" "[sample_request, sample_request]" "[]"]
    by (auto simp: request_events_def sample_request_def header_events_def)
qed

end
