(* ===== verification/Parser_Chunked.thy ===== *)
theory Parser_Chunked
  imports Parser_Message
begin

text \<open>
  Requests whose body comes in chunks: the header that announces them, the lines with their sizes,
  the chunks, the trailer, and the callbacks for all of these.
\<close>

section \<open>The header\<close>

definition chunked_header :: "byte list \<times> byte list \<Rightarrow> bool" where
  "chunked_header = (\<lambda>(n, v). n \<noteq> [] \<and> list_all (\<lambda>b. TOKEN b \<noteq> NUL) n
     \<and> name_class (map TOKEN n) = h_transfer_encoding \<and> map LOWER v = ''chunked'')"

lemma LOWER_c: "LOWER c = CHR ''c'' \<Longrightarrow> c \<notin> {CHR '' '', TAB, CR, LF}"
  by (auto simp: byte_simps)

lemma LOWER_letter: "LOWER c \<in> set ''chunked'' \<Longrightarrow> c \<noteq> CR \<and> c \<noteq> LF"
  by (auto simp: byte_simps)

lemma go_coding_first:
  assumes "drop i d = c # rest" "k < HTTP_MAX_HEADER_SIZE" "LOWER c = CHR ''c''"
    and "name_inv w h idx" "name_class w = h_transfer_encoding"
  shows "go cfg d s_header_value_discard_ws i (\<lambda>_. None) (rqf ps m v cl up k st h idx) u
    = go cfg d s_header_value (Suc i) ((\<lambda>_. None)(FOR_header_value := Some i))
        (rqf ps m v cl up (Suc k) st h_matching_transfer_encoding_chunked 0) u"
proof (rule go_step [OF assms(1,2)])
  have "h = h_transfer_encoding"
    using name_inv_class [OF assms(4)] assms(5) by (auto simp: value_class_def split: if_splits)
  then show "exec_switch cfg d c ((here s_header_value_discard_ws i (\<lambda>_. None) (rqf ps m v cl up (Suc k) st h idx) u)\<lparr>cur := c\<rparr>)
    = Break ((here s_header_value i ((\<lambda>_. None)(FOR_header_value := Some i))
        (rqf ps m v cl up (Suc k) st h_matching_transfer_encoding_chunked 0) u)\<lparr>cur := c\<rparr>)"
    using assms(3) LOWER_c [OF assms(3)]
    by (simp add: exec_switch_def here_def exec_s_header_value_discard_ws_def exec_s_header_value_start_def MARK_def)
qed (simp add: PARSING_HEADER_iff)

lemma coding_loop:
  assumes "map LOWER vs = ''hunked''" "index ps = 0"
  shows "header_value_loop (vs @ CR # rest) h_matching_transfer_encoding_chunked ps n =
    Some (At_CR, h_transfer_encoding_chunked, ps\<lparr>index := 6\<rparr>, n + length vs)"
proof -
  obtain c1 c2 c3 c4 c5 c6 where vs: "vs = [c1, c2, c3, c4, c5, c6]"
    and c: "LOWER c1 = CHR ''h''" "LOWER c2 = CHR ''u''" "LOWER c3 = CHR ''n''" "LOWER c4 = CHR ''k''"
      "LOWER c5 = CHR ''e''" "LOWER c6 = CHR ''d''"
    using assms(1) by (auto simp: map_eq_Cons_conv)
  then have "c1 \<notin> {CR, LF}" "c2 \<notin> {CR, LF}" "c3 \<notin> {CR, LF}" "c4 \<notin> {CR, LF}" "c5 \<notin> {CR, LF}" "c6 \<notin> {CR, LF}"
    using LOWER_letter by auto
  then show ?thesis
    using c assms(2) by (simp add: vs header_value_step_def match_next_def cstr_at_def Let_def)
qed

lemma go_lws_chunked:
  assumes "drop i d = c # rest" "c \<noteq> CHR '' ''" "c \<noteq> TAB" "k < HTTP_MAX_HEADER_SIZE"
  shows "go cfg d s_header_value_lws i mk (rq ps m v cl up k st h_transfer_encoding_chunked idx) u
    = go cfg d s_header_field_start i mk
        (rqf (ps\<lparr>flags := F_CHUNKED\<rparr>) m v cl up k st h_transfer_encoding_chunked idx) u"
  by (rule go_lws_flag [OF assms]) (simp add: header_flag_def set_flag_def rqf_def)

context passive_client
begin

lemma go_chunked_value:
  assumes d: "drop i d = v @ CR # LF # c # rest" and v: "map LOWER v = ''chunked''"
    and inv: "name_inv w h idx" and w: "name_class w = h_transfer_encoding" and c: "c \<noteq> CHR '' ''" "c \<noteq> TAB"
    and k: "k + length v + 2 < HTTP_MAX_HEADER_SIZE"
  shows "\<exists>st' h' idx'. go cfg d s_header_value_discard_ws i (\<lambda>_. None) (rq ps m ver cl up k st h idx) u
    = go cfg d s_header_field_start (i + length v + 2) (\<lambda>_. None)
        (rqf (ps\<lparr>flags := F_CHUNKED\<rparr>) m ver cl up (k + length v + 2) st' h' idx') (eff_data FOR_header_value i v u)"
proof -
  obtain b vs where b: "v = b # vs" "LOWER b = CHR ''c''" "map LOWER vs = ''hunked''"
    using v by (auto simp: map_eq_Cons_conv)
  have d0: "drop i d = b # vs @ CR # LF # c # rest" using d b(1) by simp
  note d1 = drop_Suc_at [OF d0] note d2 = drop_Suc_at [OF drop_append_at [OF d1]] note d3 = drop_Suc_at [OF d2]
  have k': "k < HTTP_MAX_HEADER_SIZE" "Suc k + length vs < HTTP_MAX_HEADER_SIZE"
    "Suc k + length vs + 1 < HTTP_MAX_HEADER_SIZE" "Suc (Suc k + length vs + 1) < HTTP_MAX_HEADER_SIZE"
    using k b(1) by simp_all
  let ?ps = "ps\<lparr>flags := 0\<rparr>" and ?h = h_matching_transfer_encoding_chunked
  have loop: "header_value_loop (vs @ CR # LF # c # rest) ?h (rqf ?ps m ver cl up (Suc (Suc k)) st ?h 0) 0 =
      Some (At_CR, h_transfer_encoding_chunked, rqf ?ps m ver cl up (Suc (Suc k)) st ?h 6, length vs)"
    using coding_loop [OF b(3), of "rqf ?ps m ver cl up (Suc (Suc k)) st ?h 0" "LF # c # rest" 0] by simp
  obtain st' where "go cfg d s_header_value (Suc i) ((\<lambda>_. None)(FOR_header_value := Some i)) (rqf ?ps m ver cl up (Suc k) st ?h 0) u
      = go cfg d s_header_almost_done (Suc i + length vs + 1) (\<lambda>_. None)
          (rqf ?ps m ver cl up (Suc k + length vs + 1) st' h_transfer_encoding_chunked 6)
          (eff_data FOR_header_value i (byte_range d i (Suc i + length vs - i)) u)"
    using go_value_loop [OF d1 k'(2) loop] by blast
  then have "go cfg d s_header_value_discard_ws i (\<lambda>_. None) (rq ps m ver cl up k st h idx) u
    = go cfg d s_header_field_start (i + length v + 2) (\<lambda>_. None)
        (rqf (ps\<lparr>flags := F_CHUNKED\<rparr>) m ver cl up (k + length v + 2) st' h_transfer_encoding_chunked 6)
        (eff_data FOR_header_value i v u)"
    using go_coding_first [OF d0 k'(1) b(2) inv w, of cfg ?ps] go_almost_done [of _ d "c # rest", OF _ k'(3), of "Suc i + length vs + 1" cfg]
      d2 d3 go_lws_chunked [of _ d c rest, OF _ c k'(4), of "Suc (Suc i + length vs + 1)" cfg] byte_range_drop [OF d]
    by (simp add: b(1) eval_nat_numeral)
  then show ?thesis by blast
qed

lemma go_chunked_line:
  assumes d: "drop i d = header_line (n, v) @ c # rest" and c: "c \<noteq> CHR '' ''" "c \<noteq> TAB"
    and ok: "chunked_header (n, v)" and k: "k + length (header_line (n, v)) < HTTP_MAX_HEADER_SIZE"
  shows "\<exists>st' h' idx'. go cfg d s_header_field_start i (\<lambda>_. None) (rq ps m ver cl up k st h idx) u
    = go cfg d s_header_field_start (i + length (header_line (n, v))) (\<lambda>_. None)
        (rqf (ps\<lparr>flags := F_CHUNKED\<rparr>) m ver cl up (k + length (header_line (n, v))) st' h' idx')
        (lines_effect eff_data i [(n, v)] u)"
proof -
  have len: "length (header_line (n, v)) = length n + 2 + length v + 2"
    by (simp add: header_line_def)
  have d1: "drop i d = n @ '': '' @ v @ CR # LF # c # rest"
    using d by (simp add: header_line_def)
  have d2: "drop (i + length n + 2) d = v @ CR # LF # c # rest"
    using drop_Suc_at [OF drop_Suc_at [OF drop_append_at [OF d1, simplified]]] by (simp add: eval_nat_numeral)
  have ok': "n \<noteq> []" "list_all (\<lambda>b. TOKEN b \<noteq> NUL) n" "name_class (map TOKEN n) = h_transfer_encoding"
    "map LOWER v = ''chunked''" using ok by (simp_all add: chunked_header_def)
  have k': "k + length n + 2 \<le> HTTP_MAX_HEADER_SIZE" "k + length n + 2 + length v + 2 < HTTP_MAX_HEADER_SIZE"
    using k len by simp_all
  obtain st1 h1 idx1 where 1: "go cfg d s_header_field_start i (\<lambda>_. None) (rq ps m ver cl up k st h idx) u
      = go cfg d s_header_value_discard_ws (i + length n + 2) (\<lambda>_. None)
          (rq ps m ver cl up (k + length n + 2) st1 h1 idx1) (eff_data FOR_header_field i n u)"
    and inv: "name_inv (map TOKEN n) h1 idx1"
    using go_name_part [OF d1 ok'(1,2) k'(1)] by blast
  from go_chunked_value [OF d2 ok'(4) inv ok'(3) c k'(2), of ps m ver cl up st1 "eff_data FOR_header_field i n u"] 1 len
  show ?thesis by (simp add: add.assoc)
qed

end

section \<open>The lines with the sizes\<close>

definition hex_digit :: "byte \<Rightarrow> nat" where
  "hex_digit c = (if IS_NUM c then of_char c - 48 else of_char (LOWER c) - 87)"

definition hexadecimal :: "byte list \<Rightarrow> nat" where
  "hexadecimal ds = foldl (\<lambda>v c. v * 16 + hex_digit c) 0 ds"

text \<open>A size and, after a semicolon or a space, what the parser skips as the chunk's extension.\<close>

definition size_line :: "byte list \<Rightarrow> byte list \<Rightarrow> byte list" where
  "size_line ds ext = ds @ ext @ [CR, LF]"

definition size_line_ok :: "byte list \<Rightarrow> byte list \<Rightarrow> bool" where
  "size_line_ok ds ext \<longleftrightarrow>
     ds \<noteq> [] \<and> list_all IS_HEX ds \<and> hexadecimal ds < 2 ^ 60
     \<and> (ext = [] \<or> hd ext \<in> {CHR '';'', CHR '' ''} \<and> CR \<notin> set ext)
     \<and> length (size_line ds ext) \<le> HTTP_MAX_HEADER_SIZE"

lemma unhex_val_hex [rule_format]: "IS_HEX c \<longrightarrow> unhex_val c = int (hex_digit c)"
  unfolding unhex_val_def unhex_def
  by (rule all_table_entries [where P = "\<lambda>c t. IS_HEX c \<longrightarrow> t = int (hex_digit c)"])
    (simp_all add: by_bytes hex_digit_def)

lemma hexadecimal_from: "a \<le> foldl (\<lambda>v c. v * 16 + hex_digit c) a ds"
proof (induction ds arbitrary: a)
  case (Cons d ds)
  have "a \<le> a * 16 + hex_digit d" by simp
  also have "\<dots> \<le> foldl (\<lambda>v c. v * 16 + hex_digit c) a (d # ds)" using Cons by simp
  finally show ?case .
qed simp

lemma IS_HEX_plain: "IS_HEX c \<Longrightarrow> c \<noteq> CR \<and> c \<noteq> LF \<and> c \<noteq> CHR '' '' \<and> c \<noteq> CHR '';''"
  by (auto simp: byte_simps)

lemma go_size_first:
  assumes "drop i d = c # rest" "IS_HEX c" "has_flag (flags ps) F_CHUNKED"
  shows "go cfg d s_chunk_size_start i mk (rqf ps m v cl up 0 st h idx) u
    = go cfg d s_chunk_size (Suc i) mk (rqf ps m v (of_nat (hex_digit c)) up 1 st h idx) u"
  using assms(2,3) unhex_val_hex [OF assms(2)]
  by (subst go_step [OF assms(1)])
    (auto simp: step_simps exec_s_chunk_size_start_def assert_then_def PARSING_HEADER_iff HTTP_MAX_HEADER_SIZE_def)

lemma go_size_digits:
  assumes "drop i d = cs @ rest" "list_all IS_HEX cs" "has_flag (flags ps) F_CHUNKED"
    "k + length cs \<le> HTTP_MAX_HEADER_SIZE" "foldl (\<lambda>v c. v * 16 + hex_digit c) a cs < 2 ^ 60"
  shows "go cfg d s_chunk_size i mk (rqf ps m v (of_nat a) up k st h idx) u
    = go cfg d s_chunk_size (i + length cs) mk
        (rqf ps m v (of_nat (foldl (\<lambda>v c. v * 16 + hex_digit c) a cs)) up (k + length cs) st h idx) u"
  using assms
proof (induction cs arbitrary: i k a)
  case Nil
  then show ?case by simp
next
  case (Cons c cs)
  let ?a = "a * 16 + hex_digit c"
  have d: "drop i d = c # cs @ rest" using Cons.prems(1) by simp
  have c: "unhex_val c = int (hex_digit c)" "unhex_val c \<noteq> - 1" "c \<noteq> CR"
    using Cons.prems(2) unhex_val_hex [of c] IS_HEX_plain [of c] by simp_all
  have "?a < 2 ^ 60" using hexadecimal_from [of ?a cs] Cons.prems(5) by simp
  then have "a < 2 ^ 56" by simp
  then have guard: "\<not> (ULLONG_MAX - 16) div 16 < (of_nat a :: uint64)"
    by (simp add: not_less word_le_nat_alt ULLONG_MAX_def unat_of_nat_small)
  have "exec_switch cfg d c ((here s_chunk_size i mk (rqf ps m v (of_nat a) up (Suc k) st h idx) u)\<lparr>cur := c\<rparr>)
      = Break ((here s_chunk_size i mk (rqf ps m v (of_nat ?a) up (Suc k) st h idx) u)\<lparr>cur := c\<rparr>)"
    using c guard Cons.prems(3) by (simp add: step_simps exec_s_chunk_size_def assert_then_def Let_def)
  from go_step [OF d _ _ this] Cons.IH [OF drop_Suc_at [OF d], of "Suc k" ?a] Cons.prems(2-5)
  show ?case by (simp add: PARSING_HEADER_iff)
qed

lemma go_extension:
  assumes "drop i d = cs @ CR # rest" "CR \<notin> set cs" "has_flag (flags ps) F_CHUNKED" "k + length cs < HTTP_MAX_HEADER_SIZE"
  shows "go cfg d s_chunk_parameters i mk (rqf ps m v cl up k st h idx) u
    = go cfg d s_chunk_size_almost_done (i + length cs + 1) mk (rqf ps m v cl up (k + length cs + 1) st h idx) u"
  using assms
proof (induction cs arbitrary: i k)
  case Nil
  then have d: "drop i d = CR # rest" by simp
  show ?case
    using Nil.prems(3,4) by (subst go_step [OF d]) (auto simp: step_simps exec_s_chunk_parameters_def assert_then_def PARSING_HEADER_iff)
next
  case (Cons c cs)
  have d: "drop i d = c # cs @ CR # rest" using Cons.prems(1) by simp
  have "exec_switch cfg d c ((here s_chunk_parameters i mk (rqf ps m v cl up (Suc k) st h idx) u)\<lparr>cur := c\<rparr>)
      = Break ((here s_chunk_parameters i mk (rqf ps m v cl up (Suc k) st h idx) u)\<lparr>cur := c\<rparr>)"
    using Cons.prems(2,3) by (auto simp: step_simps exec_s_chunk_parameters_def assert_then_def)
  from go_step [OF d _ _ this] Cons.IH [OF drop_Suc_at [OF d], of "Suc k"] Cons.prems(2-4)
  show ?case by (simp add: PARSING_HEADER_iff)
qed

lemma go_size_end:
  assumes "drop i d = ext @ CR # rest" "ext = [] \<or> hd ext \<in> {CHR '';'', CHR '' ''} \<and> CR \<notin> set ext"
    "has_flag (flags ps) F_CHUNKED" "k + length ext < HTTP_MAX_HEADER_SIZE"
  shows "go cfg d s_chunk_size i mk (rqf ps m v cl up k st h idx) u
    = go cfg d s_chunk_size_almost_done (i + length ext + 1) mk (rqf ps m v cl up (k + length ext + 1) st h idx) u"
proof (cases ext)
  case Nil
  then have d: "drop i d = CR # rest" using assms(1) by simp
  show ?thesis
    using Nil assms(3,4) by (subst go_step [OF d]) (auto simp: step_simps exec_s_chunk_size_def assert_then_def PARSING_HEADER_iff)
next
  case (Cons c cs)
  then have d: "drop i d = c # cs @ CR # rest" and c: "c = CHR '';'' \<or> c = CHR '' ''" "CR \<notin> set cs"
    using assms(1,2) by auto
  have "unhex_val (CHR '';'') = - 1" "unhex_val (CHR '' '') = - 1" by (simp_all add: unhex_val_def unhex_def)
  then have "exec_switch cfg d c ((here s_chunk_size i mk (rqf ps m v cl up (Suc k) st h idx) u)\<lparr>cur := c\<rparr>)
      = Break ((here s_chunk_parameters i mk (rqf ps m v cl up (Suc k) st h idx) u)\<lparr>cur := c\<rparr>)"
    using assms(3) c(1) by (auto simp: step_simps exec_s_chunk_size_def assert_then_def)
  from go_step [OF d _ _ this] go_extension [OF drop_Suc_at [OF d] c(2) assms(3), of "Suc k"] assms(4) Cons
  show ?thesis by (simp add: PARSING_HEADER_iff)
qed

lemma go_size_line:
  assumes d: "drop i d = size_line ds ext @ rest" and ok: "size_line_ok ds ext" and fl: "has_flag (flags ps) F_CHUNKED"
  shows "go cfg d s_chunk_size_start i mk (rqf ps m v cl up 0 st h idx) u
    = go cfg d s_chunk_size_almost_done (i + length ds + length ext + 1) mk
        (rqf ps m v (of_nat (hexadecimal ds)) up (length ds + length ext + 1) st h idx) u"
proof -
  obtain c cs where ds: "ds = c # cs" using ok by (cases ds) (auto simp: size_line_ok_def)
  have d1: "drop i d = c # cs @ ext @ CR # LF # rest" using d ds by (simp add: size_line_def)
  have len: "length cs + length ext + 3 \<le> HTTP_MAX_HEADER_SIZE" using ok ds by (simp add: size_line_ok_def size_line_def)
  have hex: "IS_HEX c" "list_all IS_HEX cs" "foldl (\<lambda>v c. v * 16 + hex_digit c) (hex_digit c) cs < 2 ^ 60"
    using ok ds by (simp_all add: size_line_ok_def hexadecimal_def)
  have ext: "ext = [] \<or> hd ext \<in> {CHR '';'', CHR '' ''} \<and> CR \<notin> set ext" using ok by (auto simp: size_line_ok_def)
  from len have k: "1 + length cs \<le> HTTP_MAX_HEADER_SIZE" "1 + length cs + length ext < HTTP_MAX_HEADER_SIZE" by simp_all
  show ?thesis
    using go_size_first [OF d1 hex(1) fl, of cfg mk] go_size_digits [OF drop_Suc_at [OF d1] hex(2) fl k(1) hex(3), of cfg mk]
      go_size_end [OF drop_append_at [OF drop_Suc_at [OF d1]] ext fl k(2), of cfg mk]
    by (simp add: ds hexadecimal_def)
qed

section \<open>Chunks\<close>

context passive_client
begin

text \<open>The size 0 is that of the last chunk: what follows is the trailer.\<close>

lemma go_chunk_header:
  assumes d: "drop i d = LF # rest" and k: "k < HTTP_MAX_HEADER_SIZE" and fl: "has_flag (flags ps) F_CHUNKED"
  shows "\<exists>st'. go cfg d s_chunk_size_almost_done i mk (rqf ps m v cl up k st h idx) u
    = go cfg d (if cl = 0 then s_header_field_start else s_chunk_data) (Suc i) mk
        (rqf (if cl = 0 then ps\<lparr>flags := flags ps OR F_TRAILING\<rparr> else ps) m v cl up 0 st' h idx)
        (eff_notify FOR_chunk_header u)"
proof -
  let ?s = "if cl = 0 then s_header_field_start else s_chunk_data"
  let ?ps = "if cl = 0 then ps\<lparr>flags := flags ps OR F_TRAILING\<rparr> else ps"
  let ?l = "(here ?s i mk (rqf ?ps m v cl up 0 st h idx) u)\<lparr>cur := LF\<rparr>"
  have "exec_switch cfg d LF ((here s_chunk_size_almost_done i mk (rqf ps m v cl up (Suc k) st h idx) u)\<lparr>cur := LF\<rparr>)
      = CALLBACK_NOTIFY_at cfg FOR_chunk_header (Suc i) Break ?l"
    using fl by (simp add: exec_switch_def here_def exec_s_chunk_size_almost_done_def assert_then_def STRICT_CHECK_def
        Let_def CALLBACK_NOTIFY_def) (simp add: rqf_def set_flag_def)
  with CALLBACK_NOTIFY_at_passive [of ?l FOR_chunk_header "Suc i" Break]
  obtain st' where "exec_switch cfg d LF ((here s_chunk_size_almost_done i mk (rqf ps m v cl up (Suc k) st h idx) u)\<lparr>cur := LF\<rparr>)
      = Break ((here ?s i mk (rqf ?ps m v cl up 0 st' h idx) (eff_notify FOR_chunk_header u))\<lparr>cur := LF\<rparr>)"
    by (auto simp: here_def)
  from go_step [OF d k _ this] show ?thesis by (intro exI) (simp add: PARSING_HEADER_iff)
qed

lemma go_chunk_data:
  assumes d: "drop i d = data @ c # rest" and data: "data \<noteq> []" "length d < 2 ^ 64" "length data < 2 ^ 60"
    and fl: "has_flag (flags ps) F_CHUNKED"
  shows "go cfg d s_chunk_data i (\<lambda>_. None) (rqf ps m v (of_nat (length data)) up k st h idx) u
    = go cfg d s_chunk_data_almost_done (i + length data) ((\<lambda>_. None)(FOR_body := Some i)) (rqf ps m v 0 up k st h idx) u"
proof -
  obtain b rest' where d1: "drop i d = b # rest'" using d data(1) by (cases data) auto
  let ?cl = "of_nat (length data) :: uint64"
  have cl: "unat ?cl = length data" using data(3) by (simp add: unat_of_nat_small)
  have "?cl \<noteq> 0" using cl data(1) by auto
  have "?cl \<noteq> ULLONG_MAX" using cl data(3) by (auto simp: ULLONG_MAX_def)
  have "length data \<le> length d - i" using arg_cong [OF d, of length] by simp
  then have "?cl \<le> of_nat (length d - i)" using data(2) cl by (simp add: word_le_nat_alt unat_of_nat_small)
  then have to_read: "min ?cl (of_nat (length d - i)) = ?cl" by (simp add: min_def)
  have "exec_switch cfg d b ((here s_chunk_data i (\<lambda>_. None) (rqf ps m v ?cl up k st h idx) u)\<lparr>cur := b\<rparr>)
      = Break ((here s_chunk_data_almost_done (i + length data - 1) ((\<lambda>_. None)(FOR_body := Some i)) (rqf ps m v 0 up k st h idx) u)\<lparr>cur := b\<rparr>)"
    using fl \<open>?cl \<noteq> 0\<close> \<open>?cl \<noteq> ULLONG_MAX\<close> to_read cl
    by (simp add: exec_switch_def here_def exec_s_chunk_data_def assert_then_def consume_body_def
        body_to_read_def MARK_def Let_def)
  moreover have "go cfg d s_chunk_data i (\<lambda>_. None) (rqf ps m v ?cl up k st h idx) u
      = exec_loop cfg d True ((here s_chunk_data i (\<lambda>_. None) (rqf ps m v ?cl up k st h idx) u)\<lparr>cur := b\<rparr>)"
    by (rule go_body [OF d1]) (simp add: PARSING_HEADER_iff)
  ultimately show ?thesis using data(1) by (simp add: go_Break here_def)
qed

lemma go_chunk_CR:
  assumes d: "drop i d = CR # rest" and fl: "has_flag (flags ps) F_CHUNKED"
  shows "\<exists>st'. go cfg d s_chunk_data_almost_done i ((\<lambda>_. None)(FOR_body := Some j)) (rqf ps m v 0 up k st h idx) u
    = go cfg d s_chunk_data_done (Suc i) (\<lambda>_. None) (rqf ps m v 0 up k st' h idx)
        (eff_data FOR_body j (byte_range d j (i - j)) u)"
proof -
  let ?mk = "(\<lambda>_. None)(FOR_body := Some j)"
  let ?l = "(here s_chunk_data_done i ?mk (rqf ps m v 0 up k st h idx) u)\<lparr>cur := CR\<rparr>"
  have "exec_switch cfg d CR ((here s_chunk_data_almost_done i ?mk (rqf ps m v 0 up k st h idx) u)\<lparr>cur := CR\<rparr>)
      = CALLBACK_DATA_at cfg d FOR_body (\<lambda>m. i - m) (Suc i) Break ?l"
    using fl by (simp add: exec_switch_def here_def exec_s_chunk_data_almost_done_def assert_then_def STRICT_CHECK_def
        CALLBACK_DATA_def)
  with CALLBACK_DATA_at_passive [of ?l FOR_body j d "\<lambda>m. i - m" "Suc i" Break]
  obtain st' where "exec_switch cfg d CR ((here s_chunk_data_almost_done i ?mk (rqf ps m v 0 up k st h idx) u)\<lparr>cur := CR\<rparr>)
      = Break ((here s_chunk_data_done i (\<lambda>_. None) (rqf ps m v 0 up k st' h idx)
          (eff_data FOR_body j (byte_range d j (i - j)) u))\<lparr>cur := CR\<rparr>)"
    by (auto simp: here_def)
  then show ?thesis
    using go_body [OF d, of s_chunk_data_almost_done cfg ?mk "rqf ps m v 0 up k st h idx" u]
    by (intro exI [of _ st']) (simp add: PARSING_HEADER_iff go_Break here_def)
qed

lemma go_chunk_LF:
  assumes d: "drop i d = LF # rest" and fl: "has_flag (flags ps) F_CHUNKED"
  shows "\<exists>st'. go cfg d s_chunk_data_done i mk (rqf ps m v cl up k st h idx) u
    = go cfg d s_chunk_size_start (Suc i) mk (rqf ps m v cl up 0 st' h idx) (eff_notify FOR_chunk_complete u)"
proof -
  let ?l = "(here s_chunk_size_start i mk (rqf ps m v cl up 0 st h idx) u)\<lparr>cur := LF\<rparr>"
  have "exec_switch cfg d LF ((here s_chunk_data_done i mk (rqf ps m v cl up k st h idx) u)\<lparr>cur := LF\<rparr>)
      = CALLBACK_NOTIFY_at cfg FOR_chunk_complete (Suc i) Break ?l"
    using fl by (simp add: exec_switch_def here_def exec_s_chunk_data_done_def assert_then_def STRICT_CHECK_def
        CALLBACK_NOTIFY_def)
  with CALLBACK_NOTIFY_at_passive [of ?l FOR_chunk_complete "Suc i" Break]
  obtain st' where "exec_switch cfg d LF ((here s_chunk_data_done i mk (rqf ps m v cl up k st h idx) u)\<lparr>cur := LF\<rparr>)
      = Break ((here s_chunk_size_start i mk (rqf ps m v cl up 0 st' h idx) (eff_notify FOR_chunk_complete u))\<lparr>cur := LF\<rparr>)"
    by (auto simp: here_def)
  then show ?thesis
    using go_body [OF d, of s_chunk_data_done cfg mk "rqf ps m v cl up k st h idx" u]
    by (intro exI [of _ st']) (simp add: PARSING_HEADER_iff go_Break here_def)
qed

end

text \<open>A chunk: its size in hexadecimal digits, the extension, the data.\<close>

type_synonym chunk = "byte list \<times> byte list \<times> byte list"

definition chunk_text :: "chunk \<Rightarrow> byte list" where
  "chunk_text = (\<lambda>(ds, ext, data). size_line ds ext @ data @ [CR, LF])"

definition chunk_ok :: "chunk \<Rightarrow> bool" where
  "chunk_ok = (\<lambda>(ds, ext, data). size_line_ok ds ext \<and> hexadecimal ds = length data \<and> data \<noteq> [])"

text \<open>What the callbacks make of chunks that begin at offset \<open>i\<close>.\<close>

fun chunks_effect :: "(data_for \<Rightarrow> nat \<Rightarrow> byte list \<Rightarrow> 'u \<Rightarrow> 'u) \<Rightarrow> (notify_for \<Rightarrow> 'u \<Rightarrow> 'u)
    \<Rightarrow> nat \<Rightarrow> chunk list \<Rightarrow> 'u \<Rightarrow> 'u" where
  "chunks_effect E N i [] u = u"
| "chunks_effect E N i ((ds, ext, data) # cs) u =
     chunks_effect E N (i + length (chunk_text (ds, ext, data))) cs
       (N FOR_chunk_complete (E FOR_body (i + length (size_line ds ext)) data (N FOR_chunk_header u)))"

context passive_client
begin

lemma go_size:
  assumes d: "drop i d = size_line ds ext @ rest" and ok: "size_line_ok ds ext" and fl: "has_flag (flags ps) F_CHUNKED"
  shows "\<exists>st'. go cfg d s_chunk_size_start i mk (rqf ps m v cl up 0 st h idx) u
    = go cfg d (if hexadecimal ds = 0 then s_header_field_start else s_chunk_data) (i + length (size_line ds ext)) mk
        (rqf (if hexadecimal ds = 0 then ps\<lparr>flags := flags ps OR F_TRAILING\<rparr> else ps) m v (of_nat (hexadecimal ds)) up 0 st' h idx)
        (eff_notify FOR_chunk_header u)"
proof -
  have d1: "drop i d = (ds @ ext @ [CR]) @ LF # rest" using d by (simp add: size_line_def)
  have k: "length ds + length ext + 1 < HTTP_MAX_HEADER_SIZE" and small: "hexadecimal ds < 2 ^ 60"
    using ok by (simp_all add: size_line_ok_def size_line_def)
  have cl: "(of_nat (hexadecimal ds) :: uint64) = 0 \<longleftrightarrow> hexadecimal ds = 0"
    using unat_of_nat_small [of "hexadecimal ds", where 'a = 64] small by (simp flip: unat_eq_zero)
  have "drop (i + length ds + length ext + 1) d = LF # rest" using drop_append_at [OF d1] by (simp add: add.assoc)
  from go_chunk_header [OF this k fl, of mk m v "of_nat (hexadecimal ds)" up st h idx u]
  obtain st' where "go cfg d s_chunk_size_almost_done (i + length ds + length ext + 1) mk
        (rqf ps m v (of_nat (hexadecimal ds)) up (length ds + length ext + 1) st h idx) u
      = go cfg d (if hexadecimal ds = 0 then s_header_field_start else s_chunk_data) (Suc (i + length ds + length ext + 1)) mk
        (rqf (if hexadecimal ds = 0 then ps\<lparr>flags := flags ps OR F_TRAILING\<rparr> else ps) m v (of_nat (hexadecimal ds)) up 0 st' h idx)
        (eff_notify FOR_chunk_header u)"
    unfolding cl by blast
  then show ?thesis
    using go_size_line [OF d ok fl, of cfg mk m v cl up st h idx u]
    by (intro exI [of _ st']) (simp add: size_line_def add.assoc)
qed

lemma go_chunk:
  assumes d: "drop i d = chunk_text (ds, ext, data) @ rest" and ok: "chunk_ok (ds, ext, data)"
    and fl: "has_flag (flags ps) F_CHUNKED" and size: "length d < 2 ^ 64"
  shows "\<exists>cl' st'. go cfg d s_chunk_size_start i (\<lambda>_. None) (rqf ps m v cl up 0 st h idx) u
    = go cfg d s_chunk_size_start (i + length (chunk_text (ds, ext, data))) (\<lambda>_. None) (rqf ps m v cl' up 0 st' h idx)
        (chunks_effect eff_data eff_notify i [(ds, ext, data)] u)"
proof -
  have line: "size_line_ok ds ext" "hexadecimal ds = length data" "data \<noteq> []" "length data < 2 ^ 60"
    using ok by (auto simp: chunk_ok_def size_line_ok_def)
  have d1: "drop i d = size_line ds ext @ data @ CR # LF # rest" using d by (simp add: chunk_text_def)
  note d2 = drop_append_at [OF d1] note d3 = drop_append_at [OF d2] note d4 = drop_Suc_at [OF d3]
  let ?i = "i + length (size_line ds ext)"
  obtain st1 where 1: "go cfg d s_chunk_size_start i (\<lambda>_. None) (rqf ps m v cl up 0 st h idx) u
      = go cfg d s_chunk_data ?i (\<lambda>_. None) (rqf ps m v (of_nat (length data)) up 0 st1 h idx) (eff_notify FOR_chunk_header u)"
    using go_size [OF d1 line(1) fl, of "\<lambda>_. None" m v cl up st h idx u] line(2,3) by auto
  obtain st2 where 2: "go cfg d s_chunk_data_almost_done (?i + length data) ((\<lambda>_. None)(FOR_body := Some ?i))
        (rqf ps m v 0 up 0 st1 h idx) (eff_notify FOR_chunk_header u)
      = go cfg d s_chunk_data_done (Suc (?i + length data)) (\<lambda>_. None) (rqf ps m v 0 up 0 st2 h idx)
        (eff_data FOR_body ?i data (eff_notify FOR_chunk_header u))"
    using go_chunk_CR [OF d3 fl, of ?i m v up 0 st1 h idx "eff_notify FOR_chunk_header u"] byte_range_drop [OF d2] by auto
  show ?thesis
    using 1 2 go_chunk_data [OF d2 line(3) size line(4) fl, of m v up 0 st1 h idx "eff_notify FOR_chunk_header u"]
      go_chunk_LF [OF d4 fl, of "\<lambda>_. None" m v 0 up 0 st2 h idx "eff_data FOR_body ?i data (eff_notify FOR_chunk_header u)"]
    by (intro exI [of _ 0]) (simp add: chunk_text_def add.assoc)
qed

lemma go_chunks:
  assumes "drop i d = concat (map chunk_text cs) @ rest" "list_all chunk_ok cs" "has_flag (flags ps) F_CHUNKED" "length d < 2 ^ 64"
  shows "\<exists>cl' st'. go cfg d s_chunk_size_start i (\<lambda>_. None) (rqf ps m v cl up 0 st h idx) u
    = go cfg d s_chunk_size_start (i + length (concat (map chunk_text cs))) (\<lambda>_. None) (rqf ps m v cl' up 0 st' h idx)
        (chunks_effect eff_data eff_notify i cs u)"
  using assms
proof (induction cs arbitrary: i cl st u)
  case Nil
  show ?case by (intro exI) simp
next
  case (Cons c cs)
  obtain ds ext data where c: "c = (ds, ext, data)" by (cases c)
  have d: "drop i d = chunk_text (ds, ext, data) @ concat (map chunk_text cs) @ rest" using Cons.prems(1) c by simp
  obtain cl1 st1 where 1: "go cfg d s_chunk_size_start i (\<lambda>_. None) (rqf ps m v cl up 0 st h idx) u
    = go cfg d s_chunk_size_start (i + length (chunk_text (ds, ext, data))) (\<lambda>_. None) (rqf ps m v cl1 up 0 st1 h idx)
        (chunks_effect eff_data eff_notify i [(ds, ext, data)] u)"
    using go_chunk [OF d _ Cons.prems(3,4), of m v cl up st h idx u] Cons.prems(2) c by auto
  from Cons.IH [OF drop_append_at [OF d] _ Cons.prems(3,4), of cl1 st1 "chunks_effect eff_data eff_notify i [(ds, ext, data)] u"]
    Cons.prems(2) 1
  show ?case by (simp add: c add.assoc)
qed

text \<open>The empty line after the trailer ends the message.\<close>

lemma go_trailer_done:
  assumes d: "drop i d = LF # rest" and k: "k < HTTP_MAX_HEADER_SIZE" and fl: "flags ps = F_CHUNKED OR F_TRAILING"
    and ps: "p_type ps = HTTP_REQUEST"
  shows "\<exists>st'. go cfg d s_headers_almost_done i mk (rqf ps m (1, 1) cl False k st h idx) u
    = go cfg d s_start_req (Suc i) mk (rqf ps m (1, 1) cl False (Suc k) st' h idx)
        (eff_notify FOR_message_complete (eff_notify FOR_chunk_complete u))"
proof -
  let ?l = "(here s_headers_almost_done i mk (rqf ps m (1, 1) cl False (Suc k) st h idx) u)\<lparr>cur := LF\<rparr>"
  have "unat (nread (rqf ps m (1, 1) cl False k st h idx)) < HTTP_MAX_HEADER_SIZE"
    using k by (simp add: rqf_def unat_of_nat_small HTTP_MAX_HEADER_SIZE_def)
  then have 1: "go cfg d s_headers_almost_done i mk (rqf ps m (1, 1) cl False k st h idx) u = exec_loop cfg d True ?l"
    using go_header [OF d, of "rqf ps m (1, 1) cl False k st h idx" s_headers_almost_done cfg mk u]
    by (simp add: PARSING_HEADER_iff)
  have "exec_switch cfg d LF ?l = CALLBACK_NOTIFY_at cfg FOR_chunk_complete i Reexecute (?l\<lparr>p_state := s_message_done\<rparr>)"
    using fl by (simp add: exec_switch_def here_def exec_s_headers_almost_done_def STRICT_CHECK_def CALLBACK_NOTIFY_NOADVANCE_def)
  with CALLBACK_NOTIFY_at_passive [of "?l\<lparr>p_state := s_message_done\<rparr>" FOR_chunk_complete i Reexecute]
  obtain st1 where 2: "exec_switch cfg d LF ?l = Reexecute ((here s_message_done i mk
      (rqf ps m (1, 1) cl False (Suc k) st1 h idx) (eff_notify FOR_chunk_complete u))\<lparr>cur := LF\<rparr>)" (is "_ = Reexecute ?l2")
    by (auto simp: here_def)
  let ?l3 = "?l2\<lparr>p_state := s_start_req\<rparr>"
  let ?k = "\<lambda>l. if upgrade (parser l) then RETURN (pos l + 1) l else Break l"
  have "NEW_MESSAGE (rqf ps m (1, 1) cl False (Suc k) st1 h idx) = s_start_req"
    using ps fl by (simp add: NEW_MESSAGE_def http_should_keep_alive_def http_message_needs_eof_def start_state_def)
        (simp add: rqf_def)
  then have "exec_switch cfg d LF ?l2 = CALLBACK_NOTIFY_at cfg FOR_message_complete (i + 1) ?k ?l3"
    by (simp add: exec_switch_def here_def exec_s_message_done_def CALLBACK_NOTIFY_def)
  with CALLBACK_NOTIFY_at_passive [of ?l3 FOR_message_complete "i + 1" ?k]
  obtain st2 where 3: "exec_switch cfg d LF ?l2 = Break ((here s_start_req i mk
      (rqf ps m (1, 1) cl False (Suc k) st2 h idx) (eff_notify FOR_message_complete (eff_notify FOR_chunk_complete u)))\<lparr>cur := LF\<rparr>)"
    by (auto simp: here_def)
  have "exec_loop cfg d True ?l = exec_loop cfg d True ?l2" using 2 by (intro go_Reexecute) (simp add: here_def)
  with 1 3 show ?thesis by (intro exI [of _ st2]) (simp add: go_Break here_def)
qed

end

section \<open>Whole requests\<close>

text \<open>
  The header lines before and after the one that announces the chunks, the chunks, the size line of
  the last one, which is empty, and the header lines of the trailer.
\<close>

record chunked_request =
  ck_method :: http_method
  ck_url :: "byte list"
  ck_before :: headers
  ck_coding :: "byte list \<times> byte list"
  ck_after :: headers
  ck_chunks :: "chunk list"
  ck_last :: "byte list \<times> byte list"
  ck_trailer :: headers

definition ck_headers :: "chunked_request \<Rightarrow> headers" where
  "ck_headers r = ck_before r @ ck_coding r # ck_after r"

definition chunked_head :: "chunked_request \<Rightarrow> byte list" where
  "chunked_head r = request_line (ck_method r) (ck_url r) @ concat (map header_line (ck_headers r)) @ [CR, LF]"

definition trailer_text :: "chunked_request \<Rightarrow> byte list" where
  "trailer_text r = concat (map header_line (ck_trailer r)) @ [CR, LF]"

definition chunked_text :: "chunked_request \<Rightarrow> byte list" where
  "chunked_text r = chunked_head r @ concat (map chunk_text (ck_chunks r))
     @ size_line (fst (ck_last r)) (snd (ck_last r)) @ trailer_text r"

definition chunked_ok :: "chunked_request \<Rightarrow> bool" where
  "chunked_ok r \<longleftrightarrow>
     ck_method r \<noteq> HTTP_CONNECT \<and> request_url_ok (ck_url r)
     \<and> list_all header_ok (ck_before r @ ck_after r) \<and> chunked_header (ck_coding r)
     \<and> length (chunked_head r) \<le> HTTP_MAX_HEADER_SIZE \<and> list_all chunk_ok (ck_chunks r)
     \<and> size_line_ok (fst (ck_last r)) (snd (ck_last r)) \<and> hexadecimal (fst (ck_last r)) = 0
     \<and> list_all header_ok (ck_trailer r) \<and> length (trailer_text r) \<le> HTTP_MAX_HEADER_SIZE"

text \<open>What the callbacks make of a request that begins at offset 0: of its head, and of the rest.\<close>

definition head_effect :: "(data_for \<Rightarrow> nat \<Rightarrow> byte list \<Rightarrow> 'u \<Rightarrow> 'u) \<Rightarrow> (notify_for \<Rightarrow> 'u \<Rightarrow> 'u)
    \<Rightarrow> ('u \<Rightarrow> 'u) \<Rightarrow> chunked_request \<Rightarrow> 'u \<Rightarrow> 'u" where
  "head_effect E N H r u =
     H (lines_effect E (length (request_line (ck_method r) (ck_url r))) (ck_headers r)
       (E FOR_url (length (method_string (ck_method r)) + 1) (ck_url r) (N FOR_message_begin u)))"

definition end_effect :: "(data_for \<Rightarrow> nat \<Rightarrow> byte list \<Rightarrow> 'u \<Rightarrow> 'u) \<Rightarrow> (notify_for \<Rightarrow> 'u \<Rightarrow> 'u)
    \<Rightarrow> nat \<Rightarrow> chunked_request \<Rightarrow> 'u \<Rightarrow> 'u" where
  "end_effect E N i r u =
     N FOR_message_complete (N FOR_chunk_complete
       (lines_effect E (i + length (size_line (fst (ck_last r)) (snd (ck_last r)))) (ck_trailer r) (N FOR_chunk_header u)))"

definition chunked_effect :: "(data_for \<Rightarrow> nat \<Rightarrow> byte list \<Rightarrow> 'u \<Rightarrow> 'u) \<Rightarrow> (notify_for \<Rightarrow> 'u \<Rightarrow> 'u)
    \<Rightarrow> ('u \<Rightarrow> 'u) \<Rightarrow> chunked_request \<Rightarrow> 'u \<Rightarrow> 'u" where
  "chunked_effect E N H r u =
     end_effect E N (length (chunked_head r @ concat (map chunk_text (ck_chunks r)))) r
       (chunks_effect E N (length (chunked_head r)) (ck_chunks r) (head_effect E N H r u))"

lemma lines_effect_append:
  "lines_effect E i (xs @ ys) u = lines_effect E (i + length (concat (map header_line xs))) ys (lines_effect E i xs u)"
  by (induction xs arbitrary: i u) (auto simp: add.assoc)

lemma lines_first_byte:
  assumes "list_all header_ok hs"
  shows "\<exists>c rest. concat (map header_line hs) @ CR # zs = c # rest \<and> c \<noteq> CHR '' '' \<and> c \<noteq> TAB"
proof (cases hs)
  case (Cons nv hs')
  then show ?thesis
    using assms header_first_byte [of "fst nv" "snd nv" "concat (map header_line hs') @ CR # zs"] by simp
qed simp

context passive_client
begin

lemma go_chunked_headers:
  assumes d: "drop i d = concat (map header_line (ck_headers r)) @ CR # rest" and r: "chunked_ok r"
    and k: "k + length (concat (map header_line (ck_headers r))) < HTTP_MAX_HEADER_SIZE"
  shows "\<exists>cl' st' h' idx'. go cfg d s_header_field_start i (\<lambda>_. None) (rq ps m ver cl up k st h idx) u
    = go cfg d s_header_field_start (i + length (concat (map header_line (ck_headers r)))) (\<lambda>_. None)
        (rqf (ps\<lparr>flags := F_CHUNKED\<rparr>) m ver cl' up (k + length (concat (map header_line (ck_headers r)))) st' h' idx')
        (lines_effect eff_data i (ck_headers r) u)"
proof -
  let ?before = "concat (map header_line (ck_before r))" and ?after = "concat (map header_line (ck_after r))"
  obtain n v where nv: "ck_coding r = (n, v)" by (cases "ck_coding r")
  have ok: "list_all header_ok (ck_before r)" "chunked_header (n, v)" "list_all header_ok (ck_after r)"
    using r nv by (simp_all add: chunked_ok_def)
  let ?coding = "header_line (n, v)"
  have d1: "drop i d = ?before @ ?coding @ ?after @ CR # rest" using d by (simp add: ck_headers_def nv)
  obtain b1 r1 where b1: "?coding @ ?after @ CR # rest = b1 # r1" "b1 \<noteq> CHR '' ''" "b1 \<noteq> TAB"
    using name_first_byte [of n v "?after @ CR # rest"] ok(2) by (auto simp: chunked_header_def)
  obtain b2 r2 where b2: "?after @ CR # rest = b2 # r2" "b2 \<noteq> CHR '' ''" "b2 \<noteq> TAB"
    using lines_first_byte [OF ok(3)] by blast
  have len: "length (concat (map header_line (ck_headers r))) = length ?before + length ?coding + length ?after"
    by (simp add: ck_headers_def nv)
  then have k': "k + length ?before < HTTP_MAX_HEADER_SIZE" "k + length ?before + length ?coding < HTTP_MAX_HEADER_SIZE"
    "k + length ?before + length ?coding + length ?after < HTTP_MAX_HEADER_SIZE" using k by simp_all
  note d2 = drop_append_at [OF d1] note d3 = drop_append_at [OF d2]
  let ?u1 = "lines_effect eff_data i (ck_before r) u"
  let ?u2 = "lines_effect eff_data (i + length ?before) [(n, v)] ?u1"
  obtain st1 h1 idx1 where 1: "go cfg d s_header_field_start i (\<lambda>_. None) (rq ps m ver cl up k st h idx) u
    = go cfg d s_header_field_start (i + length ?before) (\<lambda>_. None)
        (rq ps m ver (foldl header_length cl (ck_before r)) up (k + length ?before) st1 h1 idx1) ?u1"
    using go_header_lines_before [OF d1 [unfolded b1(1)] b1(2,3) ok(1) k'(1)] by blast
  obtain st2 h2 idx2 where 2: "go cfg d s_header_field_start (i + length ?before) (\<lambda>_. None)
        (rq ps m ver (foldl header_length cl (ck_before r)) up (k + length ?before) st1 h1 idx1) ?u1
    = go cfg d s_header_field_start (i + length ?before + length ?coding) (\<lambda>_. None)
        (rqf (ps\<lparr>flags := F_CHUNKED\<rparr>) m ver (foldl header_length cl (ck_before r)) up (k + length ?before + length ?coding) st2 h2 idx2) ?u2"
    using go_chunked_line [OF d2 [unfolded b2(1)] b2(2,3) ok(2) k'(2)] by blast
  from go_header_lines [OF d3 ok(3) k'(3), of "ps\<lparr>flags := F_CHUNKED\<rparr>" m ver "foldl header_length cl (ck_before r)" up st2 h2 idx2 ?u2]
    1 2 len
  show ?thesis by (auto simp: ck_headers_def nv lines_effect_append add.assoc)
qed

lemma go_chunked_done:
  assumes "has_flag (flags ps) F_CHUNKED" "\<not> has_flag (flags ps) F_SKIPBODY"
  shows "exec_loop cfg d True ((here s_headers_done i mk (rqf ps m v cl False k st h idx) u)\<lparr>cur := LF\<rparr>)
    = go cfg d s_chunk_size_start (Suc i) mk (rqf ps m v cl False 0 st h idx) u"
proof -
  let ?l = "(here s_headers_done i mk (rqf ps m v cl False k st h idx) u)\<lparr>cur := LF\<rparr>"
  have "exec_switch cfg d LF ?l = Break ((here s_chunk_size_start i mk (rqf ps m v cl False 0 st h idx) u)\<lparr>cur := LF\<rparr>)"
    using assms by (simp add: exec_switch_def here_def exec_s_headers_done_def STRICT_CHECK_def Let_def)
  then show ?thesis by (simp add: go_Break here_def)
qed

lemma go_chunked_head:
  assumes d: "d = chunked_head r @ rest" and ps: "idle ps" and r: "chunked_ok r"
  shows "\<exists>cl st h idx. go cfg d s_start_req 0 (\<lambda>_. None) ps u
    = go cfg d s_chunk_size_start (length (chunked_head r)) (\<lambda>_. None)
        (rqf (ps\<lparr>flags := F_CHUNKED\<rparr>) (ck_method r) (1, 1) cl False 0 st h idx) (head_effect eff_data eff_notify eff_headers r u)"
proof -
  let ?line = "request_line (ck_method r) (ck_url r)" and ?lines = "concat (map header_line (ck_headers r))"
  have ok: "ck_method r \<noteq> HTTP_CONNECT" "request_url_ok (ck_url r)" and len: "length ?line + length ?lines + 2 \<le> HTTP_MAX_HEADER_SIZE"
    using r by (simp_all add: chunked_ok_def chunked_head_def)
  from len have len': "length ?line \<le> HTTP_MAX_HEADER_SIZE" "length ?line + length ?lines < HTTP_MAX_HEADER_SIZE"
    "Suc (length ?line + length ?lines) < HTTP_MAX_HEADER_SIZE" by simp_all
  have d1: "drop 0 d = ?line @ ?lines @ CR # LF # rest" using d by (simp add: chunked_head_def)
  note d2 = drop_append_at [OF d1] note d3 = drop_append_at [OF d2] note d4 = drop_Suc_at [OF d3]
  let ?ps = "ps\<lparr>flags := F_CHUNKED\<rparr>"
  let ?u1 = "eff_data FOR_url (0 + length (method_string (ck_method r)) + 1) (ck_url r) (eff_notify FOR_message_begin u)"
  let ?u2 = "lines_effect eff_data (0 + length ?line) (ck_headers r) ?u1"
  obtain st1 h1 idx1 where 1: "go cfg d s_start_req 0 (\<lambda>_. None) ps u = go cfg d s_header_field_start (0 + length ?line) (\<lambda>_. None)
      (rq ps (ck_method r) (1, 1) ULLONG_MAX (upgrade ps) (length ?line) st1 h1 idx1) ?u1"
    using go_request_line [OF d1 ps ok(2,1) len'(1), of u] by blast
  obtain cl2 st2 h2 idx2 where 2: "go cfg d s_header_field_start (0 + length ?line) (\<lambda>_. None)
        (rq ps (ck_method r) (1, 1) ULLONG_MAX (upgrade ps) (length ?line) st1 h1 idx1) ?u1
      = go cfg d s_header_field_start (0 + length ?line + length ?lines) (\<lambda>_. None)
        (rqf ?ps (ck_method r) (1, 1) cl2 (upgrade ps) (length ?line + length ?lines) st2 h2 idx2) ?u2"
    using go_chunked_headers [OF d2 r len'(2)] by blast
  show ?thesis
    using 1 2 go_headers_CR [OF d3 len'(2), of cfg "\<lambda>_. None" ?ps]
      go_headers_done [OF d4 len'(3) ok(1), of ?ps "\<lambda>_. None" "(1, 1)" cl2 "upgrade ps" st2 h2 idx2 ?u2]
      go_chunked_done [of ?ps d _ "\<lambda>_. None" "ck_method r" "(1, 1)" cl2]
    by (intro exI [of _ cl2] exI [of _ st2] exI [of _ h2] exI [of _ idx2])
      (simp add: head_effect_def chunked_head_def)
qed

lemma go_chunked_end:
  assumes d: "drop i d = size_line (fst (ck_last r)) (snd (ck_last r)) @ trailer_text r" and ps: "p_type ps = HTTP_REQUEST"
    and fl: "flags ps = F_CHUNKED" and r: "chunked_ok r"
  shows "\<exists>cl' st' h' idx'. go cfg d s_chunk_size_start i (\<lambda>_. None) (rqf ps m (1, 1) cl False 0 st h idx) u
    = go cfg d s_start_req (length d) (\<lambda>_. None)
        (rqf (ps\<lparr>flags := F_CHUNKED OR F_TRAILING\<rparr>) m (1, 1) cl' False (length (trailer_text r)) st' h' idx')
        (end_effect eff_data eff_notify i r u)"
proof -
  obtain ds ext where last: "ck_last r = (ds, ext)" by (cases "ck_last r")
  let ?lines = "concat (map header_line (ck_trailer r))" and ?ps = "ps\<lparr>flags := F_CHUNKED OR F_TRAILING\<rparr>"
  let ?i = "i + length (size_line ds ext)"
  have ok: "size_line_ok ds ext" "hexadecimal ds = 0" "list_all header_ok (ck_trailer r)" and len: "length ?lines + 2 \<le> HTTP_MAX_HEADER_SIZE"
    using r last by (simp_all add: chunked_ok_def trailer_text_def)
  from len have len': "0 + length ?lines < HTTP_MAX_HEADER_SIZE" "Suc (0 + length ?lines) < HTTP_MAX_HEADER_SIZE" by simp_all
  have d1: "drop i d = size_line ds ext @ ?lines @ CR # LF # []" using d by (simp add: last trailer_text_def)
  note d2 = drop_append_at [OF d1] note d3 = drop_append_at [OF d2] note d4 = drop_Suc_at [OF d3]
  have all: "length d = Suc (Suc (?i + length ?lines))" using drop_eq_Cons_nth [OF d4] by simp
  obtain st1 where 1: "go cfg d s_chunk_size_start i (\<lambda>_. None) (rqf ps m (1, 1) cl False 0 st h idx) u
      = go cfg d s_header_field_start ?i (\<lambda>_. None) (rqf ?ps m (1, 1) 0 False 0 st1 h idx) (eff_notify FOR_chunk_header u)"
    using go_size [OF d1 ok(1), of ps "\<lambda>_. None" m "(1, 1)" cl False st h idx u] ok(2) fl by auto
  obtain cl2 st2 h2 idx2 where 2: "go cfg d s_header_field_start ?i (\<lambda>_. None) (rqf ?ps m (1, 1) 0 False 0 st1 h idx) (eff_notify FOR_chunk_header u)
      = go cfg d s_header_field_start (?i + length ?lines) (\<lambda>_. None) (rqf ?ps m (1, 1) cl2 False (0 + length ?lines) st2 h2 idx2)
        (lines_effect eff_data ?i (ck_trailer r) (eff_notify FOR_chunk_header u))"
    using go_header_lines [OF d2 ok(3) len'(1)] by blast
  from go_trailer_done [OF d4 len'(2), of ?ps "\<lambda>_. None" m cl2 st2 h2 idx2 "lines_effect eff_data ?i (ck_trailer r) (eff_notify FOR_chunk_header u)"] ps
  show ?thesis
    unfolding 1 2 go_headers_CR [OF d3 len'(1), of cfg "\<lambda>_. None" ?ps]
    by (auto simp: end_effect_def last trailer_text_def all)
qed

lemma execute_chunked:
  assumes ps: "idle ps" "state ps = s_start_req" and r: "chunked_ok r" and size: "length (chunked_text r) < 2 ^ 64"
  shows "\<exists>ps'. http_parser_execute cfg (chunked_text r) ps u =
      Some (Returned (length (chunked_text r)) ps' (chunked_effect eff_data eff_notify eff_headers r u))
    \<and> p_type ps' = HTTP_REQUEST \<and> http_errno ps' = HPE_OK \<and> state ps' = s_start_req
    \<and> nread ps' = of_nat (length (trailer_text r)) \<and> p_method ps' = ck_method r"
proof -
  let ?d = "chunked_text r" and ?ps = "ps\<lparr>flags := F_CHUNKED\<rparr>" and ?i = "length (chunked_head r)"
  let ?chunks = "concat (map chunk_text (ck_chunks r))"
  have d: "?d = chunked_head r @ ?chunks @ size_line (fst (ck_last r)) (snd (ck_last r)) @ trailer_text r"
    by (simp add: chunked_text_def)
  then have d1: "drop ?i ?d = ?chunks @ size_line (fst (ck_last r)) (snd (ck_last r)) @ trailer_text r" by simp
  note d2 = drop_append_at [OF d1]
  have type: "p_type ?ps = HTTP_REQUEST" "flags ?ps = F_CHUNKED" "has_flag (flags ?ps) F_CHUNKED" using ps(1) by (simp_all add: idle_def)
  have chunks: "list_all chunk_ok (ck_chunks r)" using r by (simp add: chunked_ok_def)
  let ?u1 = "head_effect eff_data eff_notify eff_headers r u"
  let ?u2 = "chunks_effect eff_data eff_notify ?i (ck_chunks r) ?u1"
  obtain cl1 st1 h1 idx1 where 1: "go cfg ?d s_start_req 0 (\<lambda>_. None) ps u = go cfg ?d s_chunk_size_start ?i (\<lambda>_. None)
      (rqf ?ps (ck_method r) (1, 1) cl1 False 0 st1 h1 idx1) ?u1"
    using go_chunked_head [OF d ps(1) r] by blast
  obtain cl2 st2 where 2: "go cfg ?d s_chunk_size_start ?i (\<lambda>_. None) (rqf ?ps (ck_method r) (1, 1) cl1 False 0 st1 h1 idx1) ?u1
      = go cfg ?d s_chunk_size_start (?i + length ?chunks) (\<lambda>_. None) (rqf ?ps (ck_method r) (1, 1) cl2 False 0 st2 h1 idx1) ?u2"
    using go_chunks [OF d1 chunks type(3) size] by blast
  obtain cl3 st3 h3 idx3 where 3: "go cfg ?d s_chunk_size_start (?i + length ?chunks) (\<lambda>_. None) (rqf ?ps (ck_method r) (1, 1) cl2 False 0 st2 h1 idx1) ?u2
      = go cfg ?d s_start_req (length ?d) (\<lambda>_. None) (rqf (?ps\<lparr>flags := F_CHUNKED OR F_TRAILING\<rparr>) (ck_method r) (1, 1) cl3 False
          (length (trailer_text r)) st3 h3 idx3) (end_effect eff_data eff_notify (?i + length ?chunks) r ?u2)"
    using go_chunked_end [OF d2 type(1,2) r] by blast
  have "initial_locals ps u = here s_start_req 0 (\<lambda>_. None) ps u"
    using ps(2) by (simp add: initial_locals_def here_def initial_marks_def)
  moreover have "?d \<noteq> []" by (simp add: chunked_text_def trailer_text_def)
  ultimately have "http_parser_execute cfg ?d ps u = go cfg ?d s_start_req 0 (\<lambda>_. None) ps u"
    using ps by (simp add: http_parser_execute_def go_def idle_def)
  then show ?thesis
    unfolding 1 2 3 using ps(1) by (simp add: go_end chunked_effect_def idle_def) (simp add: rqf_def)
qed

end

section \<open>What an observer sees\<close>

definition chunk_events :: "chunk \<Rightarrow> event list" where
  "chunk_events = (\<lambda>(ds, ext, data). [Notify FOR_chunk_header, Data FOR_body data, Notify FOR_chunk_complete])"

definition chunked_events :: "chunked_request \<Rightarrow> event list" where
  "chunked_events r =
     [Notify FOR_message_begin, Data FOR_url (ck_url r)] @ concat (map header_events (ck_headers r)) @ [Headers_complete]
     @ concat (map chunk_events (ck_chunks r))
     @ [Notify FOR_chunk_header] @ concat (map header_events (ck_trailer r)) @ [Notify FOR_chunk_complete]
     @ [Notify FOR_message_complete]"

lemma observed_chunks:
  "chunks_effect (\<lambda>FOR m bs es. es @ [Data FOR bs]) (\<lambda>FOR es. es @ [Notify FOR]) i cs es = es @ concat (map chunk_events cs)"
  by (induction cs arbitrary: i es) (auto simp: chunk_events_def)

lemma observed_chunked:
  "chunked_effect (\<lambda>FOR m bs es. es @ [Data FOR bs]) (\<lambda>FOR es. es @ [Notify FOR]) (\<lambda>es. es @ [Headers_complete]) r es =
     es @ chunked_events r"
  by (simp add: chunked_effect_def head_effect_def end_effect_def observed_lines observed_chunks chunked_events_def)

lemma chunked_run:
  assumes "idle ps" and "state ps = s_start_req" and "chunked_ok r" and "length (chunked_text r) < 2 ^ 64"
  shows "\<exists>ps'. http_parser_execute observer (chunked_text r) ps es =
      Some (Returned (length (chunked_text r)) ps' (es @ chunked_events r))
    \<and> p_type ps' = HTTP_REQUEST \<and> http_errno ps' = HPE_OK \<and> state ps' = s_start_req
    \<and> nread ps' = of_nat (length (trailer_text r)) \<and> p_method ps' = ck_method r"
  using observing.execute_chunked [OF assms, of es] by (simp add: observed_chunked)

text \<open>
  C5. Correctness on requests with a chunked body. A request of a method other than CONNECT, a
  URL, HTTP/1.1 and header lines as in the property on requests, among them one
  Transfer-Encoding line with the value chunked in any case, then any number of chunks with their
  sizes in hexadecimal digits of any case, with extensions or not, the empty last chunk and the
  header lines of a trailer: the parser reads it to its end without an error and calls
  exactly the callbacks it should: the beginning, the URL, the headers, the end of the headers,
  for every chunk its header, its data and its end, then the header of the last chunk, the
  headers of the trailer, the end of the last chunk and of the message. A Content-Length beside
  the Transfer-Encoding is not minded. What the parser does not do is to set its count of header
  bytes back: the bytes of the trailer and its empty line are charged to the next request.
\<close>

theorem chunked_request_observed:
  assumes "idle ps" and "state ps = s_start_req" and "chunked_ok r" and "length (chunked_text r) < 2 ^ 64"
  shows "\<exists>ps'. http_parser_execute observer (chunked_text r) ps es =
      Some (Returned (length (chunked_text r)) ps' (es @ chunked_events r))
    \<and> p_type ps' = HTTP_REQUEST \<and> http_errno ps' = HPE_OK \<and> state ps' = s_start_req
    \<and> nread ps' = of_nat (length (trailer_text r)) \<and> p_method ps' = ck_method r"
  using assms by (rule chunked_run)

definition sample_chunked :: chunked_request where
  "sample_chunked =
     \<lparr>ck_method = HTTP_POST, ck_url = ''/a'', ck_before = [(''Host'', ''x y'')], ck_coding = (''Transfer-Encoding'', ''Chunked''),
      ck_after = [], ck_chunks = [(''6'', '';q=1'', ''hello,''), (''0A'', [], ''warehouses'')], ck_last = (''0'', []),
      ck_trailer = [(''Check'', ''ok'')]\<rparr>"

lemma sample_chunked_headers:
  "header_ok (''Check'', ''ok'')" "chunked_header (''Transfer-Encoding'', ''Chunked'')"
  by (simp_all add: header_ok_def chunked_header_def TOKEN_def tokens_def name_class_def known_names_def plain_value_def
      byte_simps)

lemma sample_chunks_ok:
  "chunk_ok (''6'', '';q=1'', ''hello,'')" "chunk_ok (''0A'', [], ''warehouses'')" "size_line_ok ''0'' []" "hexadecimal ''0'' = 0"
  by (simp_all add: chunk_ok_def size_line_ok_def size_line_def hexadecimal_def hex_digit_def byte_simps HTTP_MAX_HEADER_SIZE_def)

lemma sample_chunked_ok: "chunked_ok sample_chunked"
proof -
  have "request_url_ok ''/a''" by (simp add: request_url_ok_def parse_url_char_def byte_simps)
  then show ?thesis
    by (simp add: sample_chunked_def chunked_ok_def sample_headers_ok sample_chunked_headers sample_chunks_ok chunked_head_def
        ck_headers_def trailer_text_def request_line_def header_line_def HTTP_MAX_HEADER_SIZE_def)
qed

lemma chunked_request_observed_witness:
  "\<exists>ps'. http_parser_execute observer
      (''POST /a HTTP/1.1'' @ CRLF @ ''Host: x y'' @ CRLF @ ''Transfer-Encoding: Chunked'' @ CRLF @ CRLF
        @ ''6;q=1'' @ CRLF @ ''hello,'' @ CRLF @ ''0A'' @ CRLF @ ''warehouses'' @ CRLF @ ''0'' @ CRLF @ ''Check: ok'' @ CRLF @ CRLF)
      (http_parser_init blank_parser HTTP_REQUEST) [] =
    Some (Returned 106 ps'
      [Notify FOR_message_begin, Data FOR_url ''/a'', Data FOR_header_field ''Host'', Data FOR_header_value ''x y'',
       Data FOR_header_field ''Transfer-Encoding'', Data FOR_header_value ''Chunked'', Headers_complete,
       Notify FOR_chunk_header, Data FOR_body ''hello,'', Notify FOR_chunk_complete,
       Notify FOR_chunk_header, Data FOR_body ''warehouses'', Notify FOR_chunk_complete,
       Notify FOR_chunk_header, Data FOR_header_field ''Check'', Data FOR_header_value ''ok'', Notify FOR_chunk_complete,
       Notify FOR_message_complete])
    \<and> nread ps' = 13"
proof -
  have "idle (http_parser_init blank_parser HTTP_REQUEST)" "state (http_parser_init blank_parser HTTP_REQUEST) = s_start_req"
    by (simp_all add: idle_def http_parser_init_def)
  moreover have "chunked_text sample_chunked = ''POST /a HTTP/1.1'' @ CRLF @ ''Host: x y'' @ CRLF @ ''Transfer-Encoding: Chunked'' @ CRLF @ CRLF
        @ ''6;q=1'' @ CRLF @ ''hello,'' @ CRLF @ ''0A'' @ CRLF @ ''warehouses'' @ CRLF @ ''0'' @ CRLF @ ''Check: ok'' @ CRLF @ CRLF"
    "length (trailer_text sample_chunked) = 13"
    by (simp_all add: sample_chunked_def chunked_text_def chunked_head_def ck_headers_def trailer_text_def request_line_def
        header_line_def chunk_text_def size_line_def)
  moreover from this(1) have "length (chunked_text sample_chunked) = 106" by simp
  moreover have "chunked_events sample_chunked =
      [Notify FOR_message_begin, Data FOR_url ''/a'', Data FOR_header_field ''Host'', Data FOR_header_value ''x y'',
       Data FOR_header_field ''Transfer-Encoding'', Data FOR_header_value ''Chunked'', Headers_complete,
       Notify FOR_chunk_header, Data FOR_body ''hello,'', Notify FOR_chunk_complete,
       Notify FOR_chunk_header, Data FOR_body ''warehouses'', Notify FOR_chunk_complete,
       Notify FOR_chunk_header, Data FOR_header_field ''Check'', Data FOR_header_value ''ok'', Notify FOR_chunk_complete,
       Notify FOR_message_complete]"
    by (simp add: chunked_events_def ck_headers_def sample_chunked_def header_events_def chunk_events_def)
  ultimately show ?thesis
    using chunked_request_observed [of "http_parser_init blank_parser HTTP_REQUEST" sample_chunked "[]"] sample_chunked_ok
    by fastforce
qed

end
