(* ===== verification/Session_Requests.thy ===== *)
theory Session_Requests
  imports Http_Session Parser_Chunked
begin

text \<open>
  From the bytes of a request to the bytes of the answer: what a connection does when a whole
  request arrives in one read, with any message handler and with that of the server.
\<close>

section \<open>The callbacks of a connection on requests\<close>

definition session_data :: "data_for \<Rightarrow> nat \<Rightarrow> byte list \<Rightarrow> ('j, 's) session \<Rightarrow> ('j, 's) session" where
  "session_data FOR m bs s = (if FOR = FOR_body then snd (snd (session_on_body blank_parser m bs s)) else s)"

definition session_notify ::
  "'j jsoncpp \<Rightarrow> ('j, 's) message_handler \<Rightarrow> notify_for \<Rightarrow> ('j, 's) session \<Rightarrow> ('j, 's) session" where
  "session_notify J h FOR s =
     (if FOR = FOR_message_complete then snd (snd (session_on_message_complete J h blank_parser s)) else s)"

lemma message_complete_result:
  "session_on_message_complete J h ps s = (0, ps, snd (snd (session_on_message_complete J h blank_parser s)))"
  by (simp add: session_on_message_complete_def Let_def split: option.split prod.split)

interpretation serving_requests: passive_client "session_settings J h" session_data "session_notify J h" "\<lambda>s. s"
  for J :: "'j jsoncpp" and h :: "('j, 's) message_handler"
proof unfold_locales
  show "f ps m bs u = (0, ps, session_data FOR m bs u)" if "on_data (session_settings J h) FOR = Some f" for FOR f ps m bs u
    using that by (auto simp: on_data_session session_data_def session_on_body_def split: if_splits)
  show "g ps u = (0, ps, session_notify J h FOR u)" if "on_notify (session_settings J h) FOR = Some g" for FOR g ps u
    using that message_complete_result [of J h ps u] by (auto simp: on_notify_session session_notify_def split: if_splits)
qed (auto simp: on_data_session on_notify_session on_headers_complete_session session_data_def session_notify_def
    split: if_splits)

lemma session_lines: "lines_effect session_data i hs s = s"
  by (induction hs arbitrary: i) (auto simp: session_data_def)

text \<open>Of a request, the connection remembers where the body is.\<close>

definition with_body :: "nat \<Rightarrow> request_message \<Rightarrow> ('j, 's) session \<Rightarrow> ('j, 's) session" where
  "with_body i r s =
     (if msg_body r = [] then s
      else s\<lparr>s_request := (s_request s)
        \<lparr>req_body := Some (s_pos s + i + length (request_head r)), req_len := length (msg_body r)\<rparr>\<rparr>)"

lemma session_request:
  "request_effect session_data (session_notify J h) (\<lambda>s. s) i r s =
     session_notify J h FOR_message_complete (with_body i r s)"
  by (simp add: request_effect_def session_lines with_body_def Let_def session_notify_def session_data_def
      session_on_body_def add.assoc)

lemma session_complete:
  assumes "h (request_body s) (res_root (s_response s)) (s_server s) = Some (root, srv)"
    and "response_end (js_write J) ((s_response s)\<lparr>res_root := root\<rparr>) = Some (txt, res)"
  shows "session_notify J h FOR_message_complete s =
    s\<lparr>s_response := res, s_server := srv, s_process := True, s_outbox := s_outbox s @ [txt]\<rparr>"
proof -
  have "session_notify J h FOR_message_complete s = do_write txt
      (s\<lparr>s_response := (s_response s)\<lparr>res_root := root\<rparr>, s_server := srv, s_process := True\<rparr>\<lparr>s_response := res\<rparr>)"
    using assms by (simp add: session_notify_def session_on_message_complete_def Let_def)
  then show ?thesis by (cases s) (simp add: do_write_def)
qed

section \<open>One request, one answer\<close>

text \<open>An answer with the body \<open>body\<close>, first with any length declared, then with the length of the body.\<close>

definition reply_with :: "nat \<Rightarrow> byte list \<Rightarrow> byte list" where
  "reply_with n body =
     ''HTTP/1.1 200 OK'' @ CRLF @ ''Content-Length: '' @ decimal_string n @ CRLF
     @ ''Content-Type: text/json'' @ CRLF @ CRLF @ body"

definition reply_text :: "byte list \<Rightarrow> byte list" where
  "reply_text body = reply_with (length body) body"

lemma decimal_strings: "decimal_string 2 = ''2''" "decimal_string 200 = ''200''"
  by (simp_all add: decimal_string.simps [of 200] decimal_string.simps [of 20] decimal_string.simps [of 2] digit_def)

lemma fresh_headers:
  "map_find (res_headers (response_new null)) ''Content-Length'' = None"
  "map_assign (res_headers (response_new null)) ''Content-Length'' n =
     [(''Content-Length'', n), (''Content-Type'', ''text/json'')]"
  by (simp_all add: response_new_def ci_equal_lower ci_less_lower tolower_def)

text \<open>The response after an answer: it keeps the headers.\<close>

definition sent :: "nat \<Rightarrow> 'j response \<Rightarrow> bool" where
  "sent n res \<longleftrightarrow> res_status res = 200
     \<and> res_headers res = [(''Content-Length'', decimal_string n), (''Content-Type'', ''text/json'')]"

lemma response_end_first:
  obtains res where "response_end writer ((response_new null)\<lparr>res_root := root\<rparr>) = Some (reply_with (length (writer root)) (writer root), res)"
    "res_root res = root" "sent (length (writer root)) res"
proof -
  have "res_headers ((response_new null)\<lparr>res_root := root\<rparr>) = res_headers (response_new null)"
    "res_status ((response_new null)\<lparr>res_root := root\<rparr>) = 200"
    by (simp_all add: response_new_def)
  moreover have "get_status_text 200 = Some ''OK''" by (simp add: get_status_text_def)
  ultimately show thesis
    by (intro that) (simp add: response_end_def fresh_headers response_text_def int_string_def decimal_strings
        header_line_def reply_with_def Let_def, simp_all add: sent_def)
qed

lemma response_end_fresh:
  "\<exists>r'. response_end writer ((response_new null)\<lparr>res_root := root\<rparr>) = Some (reply_text (writer root), r')
    \<and> res_root r' = root"
  unfolding reply_text_def by (rule response_end_first [where writer = writer and null = null and root = root]) blast

text \<open>The first read brings a whole message; \<open>b\<close> is the body that the connection remembers of it.\<close>

lemma onRead_answered:
  assumes s: "s = do_read (session_new J data srv)"
    and exec: "http_parser_execute (session_settings J h) bs ps (fill bs s) =
      Some (Returned n ps' (session_notify J h FOR_message_complete ((fill bs s)\<lparr>s_request := q\<rparr>)))"
    and body: "request_body ((fill bs s)\<lparr>s_request := q\<rparr>) = b" and h: "h b (js_null J) srv = Some (root, srv')"
  shows "\<exists>s'. onRead J h bs (ps, s) = Some (ps', s')
    \<and> s_outbox s' = [reply_text (js_write J root)] \<and> s_server s' = srv' \<and> res_root (s_response s') = root
    \<and> s_process s' \<and> \<not> s_reading s' \<and> \<not> s_closed s'"
proof -
  let ?s1 = "(fill bs s)\<lparr>s_request := q\<rparr>"
  have other: "s_response ?s1 = response_new (js_null J)" "s_server ?s1 = srv" "s_outbox ?s1 = []" "\<not> s_fault ?s1"
    "\<not> s_reading ?s1" "\<not> s_closed ?s1" "s_pos ?s1 = 0"
    using s by (simp_all add: fill_def do_read_def session_new_def)
  have root: "res_root (response_new (js_null J)) = js_null J" by (simp add: response_new_def)
  obtain res where res: "response_end (js_write J) ((response_new (js_null J))\<lparr>res_root := root\<rparr>) =
      Some (reply_text (js_write J root), res)" "res_root res = root"
    using response_end_fresh [where writer = "js_write J" and null = "js_null J" and root = root] by auto
  have "session_notify J h FOR_message_complete ?s1 =
      ?s1\<lparr>s_response := res, s_server := srv', s_process := True, s_outbox := [reply_text (js_write J root)]\<rparr>"
    using session_complete [of h ?s1 root srv' J "reply_text (js_write J root)" res] h res(1)
    by (simp only: body other root append_Nil)
  with exec other res(2) show ?thesis
    by (simp add: onRead_def Let_def)
qed

lemma onRead_request:
  assumes s: "s = do_read (session_new J data srv)" and ps: "idle ps" "state ps = s_start_req"
    and data: "length data = max_length" and r: "request_ok r"
    and bs: "bs = request_text r @ blanks" "set blanks \<subseteq> {CR, LF}" "length bs \<le> max_length"
    and h: "h (msg_body r) (js_null J) srv = Some (root, srv')"
  shows "\<exists>ps' s'. onRead J h bs (ps, s) = Some (ps', s')
    \<and> s_outbox s' = [reply_text (js_write J root)] \<and> s_server s' = srv' \<and> res_root (s_response s') = root
    \<and> s_process s' \<and> \<not> s_reading s' \<and> \<not> s_closed s'"
proof -
  let ?s1 = "with_body 0 r (fill bs s)"
  have small: "length bs < 2 ^ 64" "length blanks \<le> HTTP_MAX_HEADER_SIZE"
    using bs(1,3) by (simp_all add: max_length_def HTTP_MAX_HEADER_SIZE_def)
  obtain q where s1: "?s1 = (fill bs s)\<lparr>s_request := q\<rparr>"
    by (cases "msg_body r = []") (auto simp: with_body_def intro: that [of "s_request (fill bs s)"])
  obtain ps' where exec: "http_parser_execute (session_settings J h) bs ps (fill bs s) =
      Some (Returned (length bs) ps' (session_notify J h FOR_message_complete ?s1))"
    using serving_requests.execute_requests [OF ps, of "[r]" bs blanks J h "fill bs s"] r bs small
    by (auto simp: session_request)
  have "byte_range (s_data (fill bs s)) (length (request_head r)) (length (msg_body r)) = msg_body r"
    using s bs(1) by (simp add: fill_def do_read_def session_new_def byte_range_def request_text_def)
  then have body: "request_body ?s1 = msg_body r"
    using s by (auto simp: request_body_def with_body_def do_read_def session_new_def request_new_def fill_def)
  from onRead_answered [OF s exec [unfolded s1] body [unfolded s1] h] show ?thesis by blast
qed

lemma start_request:
  assumes "length data = max_length" and "request_ok r" and "set blanks \<subseteq> {CR, LF}"
    and "length (request_text r @ blanks) \<le> max_length"
    and "h (msg_body r) (js_null J) srv = Some (root, srv')"
  shows "\<exists>ps' s'. onRead J h (request_text r @ blanks) (session_start this_ptr (ps, session_new J data srv)) = Some (ps', s')
    \<and> s_outbox s' = [reply_text (js_write J root)] \<and> s_server s' = srv'
    \<and> s_process s' \<and> \<not> s_reading s' \<and> \<not> s_closed s'"
proof -
  have "idle ((http_parser_init ps HTTP_REQUEST)\<lparr>p_data := this_ptr\<rparr>)"
    "state ((http_parser_init ps HTTP_REQUEST)\<lparr>p_data := this_ptr\<rparr>) = s_start_req"
    by (simp_all add: idle_def http_parser_init_def)
  from onRead_request [where h = h, OF refl this assms(1,2) refl assms(3,4,5)] show ?thesis
    by (auto simp: session_start_def)
qed

text \<open>
  C9. A connection that gets a well-formed request in its first read (with or without line ends
  after it) calls the message handler once, on exactly the bytes of the request's body, writes
  one response, with the length and the text of the JSON value that the handler left, and reads
  no further. So the callbacks, the buffer positions and the parser fit together.
\<close>

theorem session_answers_request:
  assumes "length data = max_length" and "request_ok r" and "set blanks \<subseteq> {CR, LF}"
    and "length (request_text r @ blanks) \<le> max_length"
    and "h (msg_body r) (js_null J) srv = Some (root, srv')"
  shows "\<exists>ps' s'. onRead J h (request_text r @ blanks) (session_start this_ptr (ps, session_new J data srv)) = Some (ps', s')
    \<and> s_outbox s' = [reply_text (js_write J root)] \<and> s_server s' = srv'
    \<and> s_process s' \<and> \<not> s_reading s' \<and> \<not> s_closed s'"
  using assms by (rule start_request)

lemma session_answers_request_witness:
  "\<exists>ps' s'. onRead (json_instance (\<lambda>_. None)) (\<lambda>body root srv. Some (JString body, srv))
      (request_text sample_request) (session_start 0 (blank_parser, first_session)) = Some (ps', s')
    \<and> s_outbox s' = [''HTTP/1.1 200 OK'' @ CRLF @ ''Content-Length: 2'' @ CRLF
        @ ''Content-Type: text/json'' @ CRLF @ CRLF @ ''{}'']"
proof -
  have "length (request_text sample_request) = 66"
    by (simp add: sample_request_def request_text_def request_head_def request_line_def header_line_def)
  moreover have "reply_text ''{}'' = ''HTTP/1.1 200 OK'' @ CRLF @ ''Content-Length: 2'' @ CRLF
      @ ''Content-Type: text/json'' @ CRLF @ CRLF @ ''{}''"
    using decimal_strings(1) by (simp add: reply_text_def reply_with_def numeral_2_eq_2)
  moreover have "js_write (json_instance (\<lambda>_. None)) v = ''{}''" for v by (simp add: json_instance_def)
  ultimately show ?thesis
    using session_answers_request [where data = "replicate 2048 NUL" and r = sample_request and blanks = "[]"
        and h = "\<lambda>body root srv. Some (JString body, srv)" and J = "json_instance (\<lambda>_. None)" and srv = True
        and this_ptr = 0 and ps = blank_parser and root = "JString (msg_body sample_request)" and srv' = True]
      sample_request_ok
    unfolding first_session_def max_length_def by (simp add: sample_request_def) blast
qed

end
