(* ===== verification/Checked_Int.thy ===== *)
theory Checked_Int
  imports Byte_Prelude "HOL-Library.Signed_Division" "HOL-Library.Monad_Syntax"
begin

text \<open>
  Arithmetic on C's \<open>int\<close>, which has 32 bits here. A result that does not fit is undefined
  behaviour in C, and None in these operations; the division truncates, as C's does. (Unsigned
  numbers, whose wrapping is defined, are words everywhere in the development.)
\<close>

definition INT_MAX :: int where "INT_MAX = 2147483647"
definition INT_MIN :: int where "INT_MIN = - 2147483648"

definition int32 :: "int \<Rightarrow> int option" where
  "int32 x = (if INT_MIN \<le> x \<and> x \<le> INT_MAX then Some x else None)"

definition c_add :: "int \<Rightarrow> int \<Rightarrow> int option" where "c_add x y = int32 (x + y)"
definition c_sub :: "int \<Rightarrow> int \<Rightarrow> int option" where "c_sub x y = int32 (x - y)"
definition c_mul :: "int \<Rightarrow> int \<Rightarrow> int option" where "c_mul x y = int32 (x * y)"

definition c_div :: "int \<Rightarrow> int \<Rightarrow> int option" where
  "c_div x y = (if y = 0 then None else int32 (x sdiv y))"

definition c_mod :: "int \<Rightarrow> int \<Rightarrow> int option" where
  "c_mod x y = (if y = 0 then None else int32 (x smod y))"

named_theorems int_simps
lemmas [int_simps] = c_add_def c_sub_def c_mul_def c_div_def c_mod_def

lemma int32_fits: "INT_MIN \<le> x \<Longrightarrow> x \<le> INT_MAX \<Longrightarrow> int32 x = Some x"
  by (simp add: int32_def)

lemma int32_overflow: "INT_MAX < x \<Longrightarrow> int32 x = None"
  by (simp add: int32_def)

lemma int32_nat: "0 \<le> x \<Longrightarrow> int32 x = (if x \<le> INT_MAX then Some x else None)"
  by (simp add: int32_def INT_MIN_def)

lemma int_le_max: "int n \<le> INT_MAX \<longleftrightarrow> n \<le> 2147483647"
  by (simp add: INT_MAX_def)

text \<open>For numbers that are not negative C's division is the usual one.\<close>

lemma sdiv_nonneg: "0 \<le> x \<Longrightarrow> 0 < y \<Longrightarrow> (x :: int) sdiv y = x div y"
  by (simp add: signed_divide_int_def sgn_if)

lemma smod_nonneg: "0 \<le> x \<Longrightarrow> 0 < y \<Longrightarrow> (x :: int) smod y = x mod y"
  by (cases "x = 0") (simp_all add: signed_modulo_int_def sdiv_nonneg minus_div_mult_eq_mod sgn_if)

text \<open>A counter that is incremented once for every element of a list.\<close>

fun count_up :: "'a list \<Rightarrow> int \<Rightarrow> int option" where
  "count_up [] n = Some n"
| "count_up (x # xs) n = c_add n 1 \<bind> count_up xs"

lemma count_up_fits:
  "0 \<le> n \<Longrightarrow> n \<le> INT_MAX \<Longrightarrow>
   count_up xs n = (if n + int (length xs) \<le> INT_MAX then Some (n + int (length xs)) else None)"
  by (induction xs arbitrary: n) (auto simp: int_simps int32_nat)

end
