(* ===== verification/Test_Client.thy ===== *)
theory Test_Client
  imports Session_Requests Checked_Int
begin

text \<open>
  The load test of \<open>src/client/TestClient.cpp\<close>: the request that each of its threads writes, in two
  pieces that split the name of a header, and the threads (\<open>func\<close>) beside each other.
\<close>

definition client_write_1 :: "byte list" where
  "client_write_1 =
     ''POST / HTTP/1.1'' @ CRLF @ ''Host: 120.132.85.254:8080'' @ CRLF @ ''Accept: * /*'' @ CRLF
     @ ''Content-Type: text/json; charset=utf-8'' @ CRLF @ ''Con''"

definition client_json :: "byte list" where
  "client_json =
     ''{'' @ [LF] @ ''   \"ClientVersion\" : \"0.0.1\",'' @ [LF]
     @ ''   \"SceneId\" : \"SceneAndroidEnGold_1\",'' @ [LF] @ ''   \"UsrID\" : 8962'' @ [LF] @ ''}''"

definition client_write_2 :: "byte list" where
  "client_write_2 = ''tent-Length: 91'' @ CRLF @ CRLF @ client_json @ CRLF"

text \<open>The request that these bytes are, up to the last byte.\<close>

definition client_request :: request_message where
  "client_request =
     \<lparr>msg_method = HTTP_POST, msg_url = ''/'',
      msg_headers = [(''Host'', ''120.132.85.254:8080''), (''Accept'', ''* /*''),
        (''Content-Type'', ''text/json; charset=utf-8''), (''Content-Length'', ''91'')],
      msg_body = client_json @ [CR]\<rparr>"

lemma client_headers_ok:
  "header_ok (''Host'', ''120.132.85.254:8080'')" "header_ok (''Accept'', ''* /*'')"
  "header_ok (''Content-Type'', ''text/json; charset=utf-8'')" "header_ok (''Content-Length'', ''91'')"
  by (simp_all add: header_ok_def TOKEN_def tokens_def name_class_def known_names_def plain_value_def
      decimal_def digit_val_def schar_def byte_simps)

lemma client_length:
  "header_length cl (''Host'', ''120.132.85.254:8080'') = cl" "header_length cl (''Accept'', ''* /*'') = cl"
  "header_length cl (''Content-Type'', ''text/json; charset=utf-8'') = cl"
  "header_length cl (''Content-Length'', ''91'') = 91"
  by (simp_all add: header_length_def TOKEN_def tokens_def name_class_def known_names_def decimal_def digit_val_def
      schar_def)

lemma client_request_text: "client_write_1 @ client_write_2 = request_text client_request @ [LF]"
  by (simp add: client_write_1_def client_write_2_def client_request_def request_text_def request_head_def
      request_line_def header_line_def)

lemma client_json_length: "length client_json = 90"
  by (simp add: client_json_def)

lemma client_request_ok: "request_ok client_request"
proof -
  have "declared_length (msg_headers client_request) = 91"
    by (simp add: client_request_def declared_length_def client_length ULLONG_MAX_def Let_def)
  moreover have "request_url_ok (msg_url client_request)"
    by (simp add: client_request_def request_url_ok_def parse_url_char_def byte_simps)
  ultimately show ?thesis
    by (simp add: request_ok_def client_request_def request_head_def request_line_def header_line_def
        HTTP_MAX_HEADER_SIZE_def client_headers_ok client_json_length)
qed

text \<open>
  The test client sends one well-formed request, and one byte more than it declares: the
  Content-Length of 91 counts the JSON text and the CR after it, and leaves out the LF.
\<close>

lemma client_declares_one_less:
  "client_write_1 @ client_write_2 = request_text client_request @ [LF] \<and> request_ok client_request
   \<and> msg_body client_request @ [LF] = client_json @ CRLF
   \<and> declared_length (msg_headers client_request) + 1 = length (client_json @ CRLF)"
  using client_request_text client_request_ok
  by (simp add: request_ok_def) (simp add: client_request_def client_json_length)

section \<open>The load test\<close>

text \<open>
  What a thread does on its socket; \<open>Count\<close> is its \<open>++ai_count\<close>. Errors of the writes, the read, the
  shutdown and the close are put into \<open>ec\<close> and not looked at. \<open>Connect\<close> carries whether the
  connection was made.
\<close>

datatype client_event =
    Connect bool | Print_error | Sleep nat | Write "byte list" | Read_reply nat | Count | Shutdown | Close | Usleep

text \<open>
  Where a thread is in \<open>func\<close>: the resolver, then the statements of the loop. It ends after the loop
  (\<open>Loop_done\<close>), in the overflow of \<open>i\<close>, which is undefined behaviour, or in the exception of the
  resolver, which leaves the thread.
\<close>

datatype func_at =
    At_resolve | At_test | At_connect | At_sleep | At_write_1 | At_write_2 | At_read | At_count
  | At_shutdown | At_close | At_usleep | At_next | Loop_done | Overflowed | Uncaught

record client_thread =
  func_pc :: func_at
  round_i :: int
  did :: "client_event list"

definition TIMES :: int where "TIMES = INT_MAX"

text \<open>
  One statement of \<open>func\<close>. \<open>ok\<close> is what the resolver or the connection attempt comes to; the number
  is \<open>ai_count\<close>, an atomic counter of 32 bits that wraps around.
\<close>

definition doing :: "client_event list \<Rightarrow> func_at \<Rightarrow> client_thread \<Rightarrow> client_thread" where
  "doing es pc t = t\<lparr>func_pc := pc, did := did t @ es\<rparr>"

definition func_step :: "bool \<Rightarrow> uint32 \<Rightarrow> client_thread \<Rightarrow> uint32 \<times> client_thread" where
  "func_step ok ai_count t =
     (case func_pc t of
        At_resolve \<Rightarrow> (ai_count, if ok then t\<lparr>func_pc := At_test, round_i := 1\<rparr> else t\<lparr>func_pc := Uncaught\<rparr>)
      | At_test \<Rightarrow> (ai_count, if round_i t \<le> TIMES then doing [] At_connect t else doing [] Loop_done t)
      | At_connect \<Rightarrow>
          (ai_count, if \<not> ok then doing [Connect False, Print_error] At_sleep t
                     else doing [Connect True] At_write_1 t)
      | At_sleep \<Rightarrow> (ai_count, doing [Sleep 1] At_next t)
      | At_write_1 \<Rightarrow> (ai_count, doing [Write client_write_1] At_write_2 t)
      | At_write_2 \<Rightarrow> (ai_count, doing [Write client_write_2] At_read t)
      | At_read \<Rightarrow> (ai_count, doing [Read_reply 1024] At_count t)
      | At_count \<Rightarrow> (ai_count + 1, doing [Count] At_shutdown t)
      | At_shutdown \<Rightarrow> (ai_count, doing [Shutdown] At_close t)
      | At_close \<Rightarrow> (ai_count, doing [Close] At_usleep t)
      | At_usleep \<Rightarrow> (ai_count, doing [Usleep] At_next t)
      | At_next \<Rightarrow>
          (ai_count, case c_add (round_i t) 1 of
                       None \<Rightarrow> doing [] Overflowed t
                     | Some i \<Rightarrow> doing [] At_test (t\<lparr>round_i := i\<rparr>))
      | _ \<Rightarrow> (ai_count, t))"

definition ended :: "client_thread \<Rightarrow> bool" where
  "ended t \<longleftrightarrow> func_pc t \<in> {Loop_done, Overflowed, Uncaught}"

text \<open>All threads, and the counter that they share; the steps of the threads in any order.\<close>

record load =
  ai_count :: uint32
  load_threads :: "client_thread list"

definition load_new :: "nat \<Rightarrow> load" where
  "load_new n = \<lparr>ai_count = 0, load_threads = replicate n \<lparr>func_pc = At_resolve, round_i = 0, did = []\<rparr>\<rparr>"

definition thread_step :: "nat \<Rightarrow> bool \<Rightarrow> load \<Rightarrow> load" where
  "thread_step k ok s =
     (let (c, t) = func_step ok (ai_count s) (load_threads s ! k)
      in s\<lparr>ai_count := c, load_threads := (load_threads s)[k := t]\<rparr>)"

inductive load_reach :: "nat \<Rightarrow> load \<Rightarrow> bool" for n :: nat where
  load_start: "load_reach n (load_new n)"
| load_step: "load_reach n s \<Longrightarrow> k < length (load_threads s) \<Longrightarrow> \<not> ended (load_threads s ! k) \<Longrightarrow>
    load_reach n (thread_step k ok s)"

section \<open>What the threads do\<close>

definition connects :: "client_event list \<Rightarrow> nat" where
  "connects es = length (filter (\<lambda>e. e = Connect True) es)"

definition rounds :: "client_event list \<Rightarrow> nat" where
  "rounds es = length (filter (\<lambda>e. e = Connect True \<or> e = Connect False) es)"

definition counts :: "client_event list \<Rightarrow> nat" where
  "counts es = length (filter (\<lambda>e. e = Count) es)"

fun written :: "client_event list \<Rightarrow> byte list list" where
  "written [] = []"
| "written (Write b # es) = b # written es"
| "written (_ # es) = written es"

lemma written_append [simp]: "written (es @ fs) = written es @ written fs"
  by (induction es rule: written.induct) simp_all

lemma event_counts [simp]:
  "connects (es @ fs) = connects es + connects fs" "rounds (es @ fs) = rounds es + rounds fs"
  "counts (es @ fs) = counts es + counts fs"
  by (simp_all add: connects_def rounds_def counts_def)

text \<open>The requests of \<open>n\<close> connections, each in its two parts.\<close>

definition parts_sent :: "nat \<Rightarrow> byte list list" where
  "parts_sent n = concat (replicate n [client_write_1, client_write_2])"

lemma parts_sent_0 [simp]: "parts_sent 0 = []"
  by (simp add: parts_sent_def)

lemma parts_sent_Suc: "parts_sent (Suc n) = parts_sent n @ [client_write_1, client_write_2]"
  by (simp add: parts_sent_def flip: replicate_append_same)

text \<open>The invariant of a thread, by the place where it is.\<close>

definition thread_ok :: "client_thread \<Rightarrow> bool" where
  "thread_ok t \<longleftrightarrow>
     (let es = did t; i = round_i t in
      case func_pc t of
        At_resolve \<Rightarrow> es = []
      | Uncaught \<Rightarrow> es = []
      | At_test \<Rightarrow> 1 \<le> i \<and> i \<le> INT_MAX \<and> int (rounds es) = i - 1 \<and> counts es = connects es \<and> written es = parts_sent (connects es)
      | At_connect \<Rightarrow> 1 \<le> i \<and> i \<le> INT_MAX \<and> int (rounds es) = i - 1 \<and> counts es = connects es \<and> written es = parts_sent (connects es)
      | At_write_1 \<Rightarrow> 1 \<le> i \<and> i \<le> INT_MAX \<and> int (rounds es) = i \<and> connects es = Suc (counts es) \<and> written es = parts_sent (counts es)
      | At_write_2 \<Rightarrow> 1 \<le> i \<and> i \<le> INT_MAX \<and> int (rounds es) = i \<and> connects es = Suc (counts es)
          \<and> written es = parts_sent (counts es) @ [client_write_1]
      | At_read \<Rightarrow> 1 \<le> i \<and> i \<le> INT_MAX \<and> int (rounds es) = i \<and> connects es = Suc (counts es) \<and> written es = parts_sent (connects es)
      | At_count \<Rightarrow> 1 \<le> i \<and> i \<le> INT_MAX \<and> int (rounds es) = i \<and> connects es = Suc (counts es) \<and> written es = parts_sent (connects es)
      | Loop_done \<Rightarrow> False
      | Overflowed \<Rightarrow> int (rounds es) = INT_MAX \<and> counts es = connects es \<and> written es = parts_sent (connects es)
      | _ \<Rightarrow> 1 \<le> i \<and> i \<le> INT_MAX \<and> int (rounds es) = i \<and> counts es = connects es \<and> written es = parts_sent (connects es))"

lemma no_events [simp]: "connects [] = 0" "rounds [] = 0" "counts [] = 0"
  by (simp_all add: connects_def rounds_def counts_def)

lemma one_event [simp]:
  "connects (e # es) = (if e = Connect True then Suc (connects es) else connects es)"
  "rounds (e # es) = (if e = Connect True \<or> e = Connect False then Suc (rounds es) else rounds es)"
  "counts (e # es) = (if e = Count then Suc (counts es) else counts es)"
  by (simp_all add: connects_def rounds_def counts_def)

lemma one_le_max [simp]: "1 \<le> INT_MAX"
  by (simp add: INT_MAX_def)

lemma next_round: "1 \<le> i \<Longrightarrow> i \<le> INT_MAX \<Longrightarrow> c_add i 1 = (if i = INT_MAX then None else Some (i + 1))"
  by (auto simp: c_add_def int32_nat)

lemma func_step_counts:
  "func_step ok c t = (c', t') \<Longrightarrow> c' + of_nat (counts (did t)) = c + of_nat (counts (did t'))"
  by (cases "func_pc t") (auto simp: func_step_def doing_def split: if_splits option.splits)

lemma func_step_ok:
  assumes "thread_ok t" "func_step ok c t = (c', t')"
  shows "thread_ok t'"
  using assms
  by (cases "func_pc t")
    (auto simp: thread_ok_def func_step_def doing_def Let_def TIMES_def next_round parts_sent_Suc split: if_splits)

text \<open>How many statements a thread has left, at most.\<close>

fun pc_left :: "func_at \<Rightarrow> nat" where
  "pc_left At_resolve = 13" | "pc_left At_test = 12" | "pc_left At_connect = 11" | "pc_left At_sleep = 2"
| "pc_left At_write_1 = 10" | "pc_left At_write_2 = 9" | "pc_left At_read = 8" | "pc_left At_count = 7"
| "pc_left At_shutdown = 6" | "pc_left At_close = 5" | "pc_left At_usleep = 4" | "pc_left At_next = 1"
| "pc_left _ = 0"

definition thread_left :: "client_thread \<Rightarrow> nat" where
  "thread_left t = (if ended t then 0
     else if func_pc t = At_resolve then 12 * nat (INT_MAX + 1) + 13
     else 12 * nat (INT_MAX - round_i t) + pc_left (func_pc t))"

lemma func_step_left:
  assumes "thread_ok t" "\<not> ended t" "func_step ok c t = (c', t')"
  shows "thread_left t' < thread_left t"
  using assms
  by (cases "func_pc t")
    (auto simp: thread_ok_def thread_left_def ended_def func_step_def doing_def Let_def TIMES_def int_simps int32_nat
      nat_diff_distrib split: if_splits option.splits)

section \<open>All threads\<close>

definition load_ok :: "nat \<Rightarrow> load \<Rightarrow> bool" where
  "load_ok n s \<longleftrightarrow>
     length (load_threads s) = n \<and> list_all thread_ok (load_threads s)
     \<and> ai_count s = of_nat (sum_list (map (\<lambda>t. counts (did t)) (load_threads s)))"

lemma sum_list_update_nat:
  "k < length xs \<Longrightarrow> sum_list (xs[k := y]) + xs ! k = sum_list xs + (y :: nat)"
  by (induction xs arbitrary: k) (auto split: nat.split simp: nth_Cons')

lemma thread_step_ok:
  assumes "load_ok n s" "k < n"
  shows "load_ok n (thread_step k ok s)"
proof -
  let ?ts = "load_threads s" and ?f = "\<lambda>t. counts (did t)"
  obtain c t where step: "func_step ok (ai_count s) (?ts ! k) = (c, t)" by (cases "func_step ok (ai_count s) (?ts ! k)")
  have k: "k < length ?ts" "thread_ok (?ts ! k)" using assms by (auto simp: load_ok_def list_all_length)
  have "list_all thread_ok (?ts[k := t])"
    using assms(1) k func_step_ok [OF k(2) step] by (auto simp: load_ok_def list_all_length nth_list_update)
  moreover have "c = of_nat (sum_list (map ?f (?ts[k := t])))"
  proof -
    have "sum_list (map ?f (?ts[k := t])) + ?f (?ts ! k) = sum_list (map ?f ?ts) + ?f t"
      using sum_list_update_nat [of k "map ?f ?ts" "?f t"] k(1) by (simp add: map_update)
    then have "of_nat (sum_list (map ?f (?ts[k := t]))) + of_nat (?f (?ts ! k)) = (of_nat (sum_list (map ?f ?ts)) + of_nat (?f t) :: uint32)"
      by (metis of_nat_add)
    moreover have "c + of_nat (?f (?ts ! k)) = of_nat (sum_list (map ?f ?ts)) + of_nat (?f t)"
      using func_step_counts [OF step] assms(1) by (simp add: load_ok_def)
    ultimately show ?thesis by (metis add_right_cancel)
  qed
  ultimately show ?thesis using assms(1) step by (simp add: load_ok_def thread_step_def)
qed

lemma load_reach_ok: "load_reach n s \<Longrightarrow> load_ok n s"
proof (induction rule: load_reach.induct)
  case load_start
  then show ?case
    by (simp add: load_ok_def load_new_def list_all_length thread_ok_def map_replicate sum_list_replicate)
next
  case (load_step s k ok)
  then show ?case by (intro thread_step_ok) (simp_all add: load_ok_def)
qed

text \<open>What the invariant says of one thread, wherever it is.\<close>

lemma thread_ok_facts:
  assumes "thread_ok t"
  shows "func_pc t \<noteq> Loop_done" "func_pc t = Overflowed \<Longrightarrow> rounds (did t) = 2147483647"
    "counts (did t) \<le> connects (did t)" "connects (did t) \<le> counts (did t) + 1"
    "\<exists>rest. written (did t) = parts_sent (counts (did t)) @ rest"
    "\<exists>rest. parts_sent (connects (did t)) = written (did t) @ rest"
  using assms by (cases "func_pc t"; auto simp: thread_ok_def Let_def parts_sent_Suc INT_MAX_def)+

text \<open>
  C36. The load test, in every state that any number of threads can come to in any order of their
  statements and with any outcome of their connections. The counter that they share is the number
  of their increments, modulo 2 to the power of 32. The loop of no thread ends by its condition:
  \<open>i <= TIMES\<close> holds of every \<open>int\<close>, as \<open>TIMES\<close> is the largest; a thread that has ended without an
  exception has made 2147483647 rounds and overflowed \<open>i\<close>. Every thread has counted each connection
  that it has made, but for the one that it is on, and has written the two parts of the request in
  their order on each of them, and nothing else. And every statement of a thread that has not ended
  decreases what it has left, so each thread comes to such an end.
\<close>

theorem func_overflows:
  assumes "load_reach n s"
  shows "ai_count s = of_nat (sum_list (map (\<lambda>t. counts (did t)) (load_threads s)))
    \<and> (\<forall>t\<in>set (load_threads s). func_pc t \<noteq> Loop_done
         \<and> (func_pc t = Overflowed \<longrightarrow> rounds (did t) = 2147483647)
         \<and> counts (did t) \<le> connects (did t) \<and> connects (did t) \<le> counts (did t) + 1
         \<and> (\<exists>rest. written (did t) = parts_sent (counts (did t)) @ rest)
         \<and> (\<exists>rest. parts_sent (connects (did t)) = written (did t) @ rest))
    \<and> (\<forall>k<n. \<forall>ok. \<not> ended (load_threads s ! k) \<longrightarrow>
         thread_left (load_threads (thread_step k ok s) ! k) < thread_left (load_threads s ! k))"
proof (intro conjI ballI allI impI)
  from load_reach_ok [OF assms] have ok: "load_ok n s" .
  then show "ai_count s = of_nat (sum_list (map (\<lambda>t. counts (did t)) (load_threads s)))"
    by (simp add: load_ok_def)
  show "thread_left (load_threads (thread_step k ok s) ! k) < thread_left (load_threads s ! k)"
    if "k < n" "\<not> ended (load_threads s ! k)" for k ok
  proof -
    obtain c t where step: "func_step ok (ai_count s) (load_threads s ! k) = (c, t)"
      by (cases "func_step ok (ai_count s) (load_threads s ! k)")
    have "thread_ok (load_threads s ! k)" "k < length (load_threads s)"
      using \<open>load_ok n s\<close> that(1) by (auto simp: load_ok_def list_all_length)
    with func_step_left [OF _ that(2) step] step show ?thesis by (simp add: thread_step_def)
  qed
  fix t assume "t \<in> set (load_threads s)"
  with ok have t: "thread_ok t" by (simp add: load_ok_def list_all_iff)
  note facts = thread_ok_facts [OF t]
  show "func_pc t \<noteq> Loop_done" "func_pc t = Overflowed \<Longrightarrow> rounds (did t) = 2147483647"
    "counts (did t) \<le> connects (did t)" "connects (did t) \<le> counts (did t) + 1"
    "\<exists>rest. written (did t) = parts_sent (counts (did t)) @ rest"
    "\<exists>rest. parts_sent (connects (did t)) = written (did t) @ rest"
    by (rule facts; assumption?)+
qed

text \<open>Two threads, of which the second has made its first connection.\<close>

lemma load_reach_any:
  assumes "load_reach n s" "k < n"
  shows "load_reach n (thread_step k ok s)"
proof (cases "ended (load_threads s ! k)")
  case True
  then have "func_step ok (ai_count s) (load_threads s ! k) = (ai_count s, load_threads s ! k)"
    by (auto simp: ended_def func_step_def)
  with assms(1) show ?thesis by (simp add: thread_step_def)
next
  case False
  with assms load_reach_ok [OF assms(1)] show ?thesis by (intro load_step) (simp_all add: load_ok_def)
qed

lemma load_reach_fold: "load_reach n s \<Longrightarrow> k < n \<Longrightarrow> load_reach n (fold (thread_step k) oks s)"
  by (induction oks arbitrary: s) (simp_all add: load_reach_any)

lemma func_overflows_witness:
  "let s = fold (thread_step 1) [True, True, True, True, True, True, True] (load_new 2)
   in load_reach 2 s \<and> ai_count s = 1
     \<and> thread_left (load_threads (thread_step 0 True s) ! 0) < thread_left (load_threads s ! 0)"
proof -
  define s where "s = fold (thread_step 1) [True, True, True, True, True, True, True] (load_new 2)"
  have s: "s = \<lparr>ai_count = 1, load_threads = [\<lparr>func_pc = At_resolve, round_i = 0, did = []\<rparr>,
      \<lparr>func_pc = At_shutdown, round_i = 1,
       did = [Connect True, Write client_write_1, Write client_write_2, Read_reply 1024, Count]\<rparr>]\<rparr>"
    by (simp add: s_def load_new_def thread_step_def func_step_def doing_def TIMES_def numeral_2_eq_2)
  have reach: "load_reach 2 s"
    unfolding s_def by (rule load_reach_fold) (simp_all add: load_start)
  have "\<not> ended (load_threads s ! 0)" by (simp add: s ended_def)
  with func_overflows [OF reach]
  have "thread_left (load_threads (thread_step 0 True s) ! 0) < thread_left (load_threads s ! 0)" by simp
  moreover have "ai_count s = 1" by (simp add: s)
  ultimately show ?thesis using reach unfolding Let_def s_def [symmetric] by blast
qed

end
