(* ===== verification/Test_Client_Db.thy ===== *)
theory Test_Client_Db
  imports Byte_Prelude "HOL-Library.State_Monad" "HOL-Library.Multiset"
begin

text \<open>
  The MongoDB functions of \<open>src/client/TestClient.cpp\<close>. The C driver (libbson, libmongoc) is not part
  of the source: it is a parameter, the record \<open>mongoc\<close> of one function per call, of which nothing is
  known but what a statement assumes. The functions are programs in the state monad of the library;
  beside the driver's state they keep the list of the calls they make, with the arguments and the
  results. What is proved is about that list: every object that the program gets from the driver it
  destroys exactly once, and it uses nothing that it has not got or has destroyed.
\<close>

section \<open>The driver\<close>

text \<open>Values of a BSON document, as far as the functions make any.\<close>

datatype bson_value = BCON_OID "byte list" | BCON_UTF8 "byte list" | BCON_BOOL bool | BCON_INT int
  | BCON_DOCUMENT "(byte list \<times> bson_value) list"

type_synonym bson = "(byte list \<times> bson_value) list"

text \<open>Pointers: the null pointer, what the driver returns, and the address of the local \<open>bson_t reply\<close>.\<close>

datatype ptr = NULL | At nat | Addr_reply

text \<open>
  The calls, from the state \<open>'w\<close> of the driver and all behind it. A call that can fail returns whether
  it succeeded, and the message that is in \<open>error\<close> then; \<open>mc_command\<close> also whether it has
  initialised the reply. \<open>mc_as_json\<close> returns the string's address and its bytes.
\<close>

record 'w mongoc =
  mc_init :: "'w \<Rightarrow> 'w"
  mc_client_new :: "byte list \<Rightarrow> 'w \<Rightarrow> ptr \<times> 'w"
  mc_get_collection :: "ptr \<Rightarrow> byte list \<Rightarrow> byte list \<Rightarrow> 'w \<Rightarrow> ptr \<times> 'w"
  mc_bson_new :: "'w \<Rightarrow> ptr \<times> 'w"
  mc_bcon_new :: "bson \<Rightarrow> 'w \<Rightarrow> ptr \<times> 'w"
  mc_oid_init :: "'w \<Rightarrow> byte list \<times> 'w"
  mc_append :: "ptr \<Rightarrow> byte list \<Rightarrow> bson_value \<Rightarrow> 'w \<Rightarrow> 'w"
  mc_insert :: "ptr \<Rightarrow> ptr \<Rightarrow> 'w \<Rightarrow> (bool \<times> byte list) \<times> 'w"
  mc_update :: "ptr \<Rightarrow> ptr \<Rightarrow> ptr \<Rightarrow> 'w \<Rightarrow> (bool \<times> byte list) \<times> 'w"
  mc_remove :: "ptr \<Rightarrow> ptr \<Rightarrow> 'w \<Rightarrow> (bool \<times> byte list) \<times> 'w"
  mc_command :: "ptr \<Rightarrow> ptr \<Rightarrow> 'w \<Rightarrow> (bool \<times> byte list \<times> bool) \<times> 'w"
  mc_find :: "ptr \<Rightarrow> ptr \<Rightarrow> 'w \<Rightarrow> ptr \<times> 'w"
  mc_cursor_next :: "ptr \<Rightarrow> 'w \<Rightarrow> ptr option \<times> 'w"
  mc_as_json :: "ptr \<Rightarrow> 'w \<Rightarrow> (ptr \<times> byte list) \<times> 'w"
  mc_bson_free :: "ptr \<Rightarrow> 'w \<Rightarrow> 'w"
  mc_bson_destroy :: "ptr \<Rightarrow> 'w \<Rightarrow> 'w"
  mc_cursor_destroy :: "ptr \<Rightarrow> 'w \<Rightarrow> 'w"
  mc_collection_destroy :: "ptr \<Rightarrow> 'w \<Rightarrow> 'w"
  mc_client_destroy :: "ptr \<Rightarrow> 'w \<Rightarrow> 'w"

text \<open>A call as it is recorded: its arguments, then its results. The last two are \<open>printf\<close>s.\<close>

datatype call =
    Init
  | Client_new "byte list" ptr
  | Get_collection ptr "byte list" "byte list" ptr
  | Bson_new ptr
  | Bcon_new bson ptr
  | Oid_init "byte list"
  | Append ptr "byte list" bson_value
  | Insert ptr ptr bool
  | Update ptr ptr ptr bool
  | Remove ptr ptr bool
  | Command ptr ptr bool bool
  | Find ptr ptr ptr
  | Cursor_next ptr "ptr option"
  | As_json ptr ptr
  | Bson_free ptr
  | Bson_destroy ptr
  | Cursor_destroy ptr
  | Collection_destroy ptr
  | Client_destroy ptr
  | Print_string ptr "byte list"
  | Print_line bool "byte list"

record 'w calling_state =
  world :: 'w
  calls :: "call list"

type_synonym ('w, 'a) calling = "('w calling_state, 'a) State_Monad.state"

abbreviation return where "return \<equiv> State_Monad.return"

definition call_driver :: "('w \<Rightarrow> 'a \<times> 'w) \<Rightarrow> ('a \<Rightarrow> call) \<Rightarrow> ('w, 'a) calling" where
  "call_driver f c = State (\<lambda>s.
     let (x, w) = f (world s) in (x, s\<lparr>world := w, calls := calls s @ [c x]\<rparr>))"

definition call_void :: "('w \<Rightarrow> 'w) \<Rightarrow> call \<Rightarrow> ('w, unit) calling" where
  "call_void f c = call_driver (\<lambda>w. ((), f w)) (\<lambda>_. c)"

section \<open>The functions\<close>

definition mongo_uri :: "byte list" where "mongo_uri = ''mongodb://localhost:27017/''"

text \<open>The two lines that open a client and its collection in every function.\<close>

definition connect_test :: "'w mongoc \<Rightarrow> ('w, ptr \<times> ptr) calling" where
  "connect_test D = do {
     client \<leftarrow> call_driver (mc_client_new D mongo_uri) (Client_new mongo_uri);
     collection \<leftarrow> call_driver (mc_get_collection D client ''test'' ''test'')
       (Get_collection client ''test'' ''test'');
     return (client, collection)
   }"

text \<open>The two lines that close them.\<close>

definition disconnect :: "'w mongoc \<Rightarrow> ptr \<Rightarrow> ptr \<Rightarrow> ('w, unit) calling" where
  "disconnect D client collection = do {
     call_void (mc_collection_destroy D collection) (Collection_destroy collection);
     call_void (mc_client_destroy D client) (Client_destroy client)
   }"

definition bson_destroy :: "'w mongoc \<Rightarrow> ptr \<Rightarrow> ('w, unit) calling" where
  "bson_destroy D p = call_void (mc_bson_destroy D p) (Bson_destroy p)"

definition BSON_APPEND :: "'w mongoc \<Rightarrow> ptr \<Rightarrow> byte list \<Rightarrow> bson_value \<Rightarrow> ('w, unit) calling" where
  "BSON_APPEND D doc key v = call_void (mc_append D doc key v) (Append doc key v)"

text \<open>\<open>printf\<close> of the error's message after a call that failed; True is standard output.\<close>

definition print_error :: "bool \<Rightarrow> byte list \<Rightarrow> bool \<Rightarrow> byte list \<Rightarrow> ('w, unit) calling" where
  "print_error out prefix ok message =
     (if \<not> ok then call_void id (Print_line out (prefix @ message @ [LF])) else return ())"

definition mongodb_insert :: "'w mongoc \<Rightarrow> ('w, byte list) calling" where
  "mongodb_insert D = do {
     call_void (mc_init D) Init;
     (client, collection) \<leftarrow> connect_test D;
     doc \<leftarrow> call_driver (mc_bson_new D) Bson_new;
     oid \<leftarrow> call_driver (mc_oid_init D) Oid_init;
     BSON_APPEND D doc ''_id'' (BCON_OID oid);
     BSON_APPEND D doc ''hello'' (BCON_UTF8 ''world'');
     (ok, message) \<leftarrow> call_driver (mc_insert D collection doc) (\<lambda>(ok, _). Insert collection doc ok);
     print_error True [] ok message;
     bson_destroy D doc;
     disconnect D client collection;
     return oid
   }"

text \<open>The label \<open>fail\<close>: a pointer that is still null is left alone.\<close>

definition update_fail :: "'w mongoc \<Rightarrow> ptr \<Rightarrow> ptr \<Rightarrow> ptr \<Rightarrow> ptr \<Rightarrow> ptr \<Rightarrow> ('w, unit) calling" where
  "update_fail D doc query upd collection client = do {
     (if doc \<noteq> NULL then bson_destroy D doc else return ());
     (if query \<noteq> NULL then bson_destroy D query else return ());
     (if upd \<noteq> NULL then bson_destroy D upd else return ());
     disconnect D client collection
   }"

definition mongodb_update :: "'w mongoc \<Rightarrow> ('w, unit) calling" where
  "mongodb_update D = do {
     call_void (mc_init D) Init;
     (client, collection) \<leftarrow> connect_test D;
     oid \<leftarrow> call_driver (mc_oid_init D) Oid_init;
     let entries = [(''_id'', BCON_OID oid), (''hello'', BCON_UTF8 ''world!'')];
     doc \<leftarrow> call_driver (mc_bcon_new D entries) (Bcon_new entries);
     (ok, message) \<leftarrow> call_driver (mc_insert D collection doc) (\<lambda>(ok, _). Insert collection doc ok);
     if \<not> ok then do {
       print_error True [] ok message;
       update_fail D doc NULL NULL collection client
     } else do {
       let entries = [(''_id'', BCON_OID oid)];
       query \<leftarrow> call_driver (mc_bcon_new D entries) (Bcon_new entries);
       let entries = [(''$set'', BCON_DOCUMENT [(''hello'', BCON_UTF8 ''Everybody!''), (''updated'', BCON_BOOL True)])];
       upd \<leftarrow> call_driver (mc_bcon_new D entries) (Bcon_new entries);
       (ok, message) \<leftarrow> call_driver (mc_update D collection query upd) (\<lambda>(ok, _). Update collection query upd ok);
       print_error True [] ok message;
       update_fail D doc query upd collection client
     }
   }"

definition mongodb_delete :: "'w mongoc \<Rightarrow> ('w, unit) calling" where
  "mongodb_delete D = do {
     call_void (mc_init D) Init;
     (client, collection) \<leftarrow> connect_test D;
     doc \<leftarrow> call_driver (mc_bson_new D) Bson_new;
     oid \<leftarrow> call_driver (mc_oid_init D) Oid_init;
     BSON_APPEND D doc ''_id'' (BCON_OID oid);
     BSON_APPEND D doc ''hello'' (BCON_UTF8 ''world'');
     (ok, message) \<leftarrow> call_driver (mc_insert D collection doc) (\<lambda>(ok, _). Insert collection doc ok);
     print_error True ''Insert failed: '' ok message;
     bson_destroy D doc;
     doc \<leftarrow> call_driver (mc_bson_new D) Bson_new;
     BSON_APPEND D doc ''_id'' (BCON_OID oid);
     (ok, message) \<leftarrow> call_driver (mc_remove D collection doc) (\<lambda>(ok, _). Remove collection doc ok);
     print_error True ''Delete failed: '' ok message;
     bson_destroy D doc;
     disconnect D client collection
   }"

text \<open>The overloaded \<open>mongodb_delete (bson_oid_t oid)\<close>.\<close>

definition mongodb_delete_oid :: "'w mongoc \<Rightarrow> byte list \<Rightarrow> ('w, unit) calling" where
  "mongodb_delete_oid D oid = do {
     call_void (mc_init D) Init;
     (client, collection) \<leftarrow> connect_test D;
     doc \<leftarrow> call_driver (mc_bson_new D) Bson_new;
     BSON_APPEND D doc ''_id'' (BCON_OID oid);
     (ok, message) \<leftarrow> call_driver (mc_remove D collection doc) (\<lambda>(ok, _). Remove collection doc ok);
     print_error True ''Delete failed: '' ok message;
     bson_destroy D doc;
     disconnect D client collection
   }"

text \<open>The three lines that print a document.\<close>

definition print_document :: "'w mongoc \<Rightarrow> ptr \<Rightarrow> ('w, unit) calling" where
  "print_document D doc = do {
     (str, bytes) \<leftarrow> call_driver (mc_as_json D doc) (\<lambda>(str, _). As_json doc str);
     call_void id (Print_string str (bytes @ [LF]));
     call_void (mc_bson_free D str) (Bson_free str)
   }"

text \<open>\<open>run_command\<close>, which does not call \<open>mongoc_init\<close>.\<close>

definition run_command :: "'w mongoc \<Rightarrow> ('w, unit) calling" where
  "run_command D = do {
     (client, collection) \<leftarrow> connect_test D;
     let entries = [(''collStats'', BCON_UTF8 ''test'')];
     command \<leftarrow> call_driver (mc_bcon_new D entries) (Bcon_new entries);
     (ok, message, _) \<leftarrow> call_driver (mc_command D collection command)
       (\<lambda>(ok, _, filled). Command collection command ok filled);
     (if ok then print_document D Addr_reply
      else print_error False ''Failed to run command: '' ok message);
     bson_destroy D command;
     bson_destroy D Addr_reply;
     disconnect D client collection
   }"

text \<open>The loop \<open>while (mongoc_cursor_next (cursor, &doc))\<close>; None is that it does not end.\<close>

partial_function (option) print_loop :: "'w mongoc \<Rightarrow> ptr \<Rightarrow> 'w calling_state \<Rightarrow> 'w calling_state option" where
  "print_loop D cursor s =
     (case run_state (call_driver (mc_cursor_next D cursor) (Cursor_next cursor)) s of
        (None, s) \<Rightarrow> Some s
      | (Some doc, s) \<Rightarrow> print_loop D cursor (snd (run_state (print_document D doc) s)))"

text \<open>What the two functions with this loop do before and after it.\<close>

definition find_open :: "'w mongoc \<Rightarrow> (byte list \<times> bson_value) option \<Rightarrow> ('w, ptr \<times> ptr \<times> ptr \<times> ptr) calling" where
  "find_open D entry = do {
     call_void (mc_init D) Init;
     (client, collection) \<leftarrow> connect_test D;
     query \<leftarrow> call_driver (mc_bson_new D) Bson_new;
     (case entry of Some (key, v) \<Rightarrow> BSON_APPEND D query key v | None \<Rightarrow> return ());
     cursor \<leftarrow> call_driver (mc_find D collection query) (Find collection query);
     return (client, collection, query, cursor)
   }"

definition find_close :: "'w mongoc \<Rightarrow> ptr \<times> ptr \<times> ptr \<times> ptr \<Rightarrow> ('w, unit) calling" where
  "find_close D = (\<lambda>(client, collection, query, cursor). do {
     bson_destroy D query;
     call_void (mc_cursor_destroy D cursor) (Cursor_destroy cursor);
     disconnect D client collection
   })"

definition find_with ::
  "'w mongoc \<Rightarrow> (byte list \<times> bson_value) option \<Rightarrow> 'w calling_state \<Rightarrow> 'w calling_state option"
where
  "find_with D entry s =
     (let (opened, s) = run_state (find_open D entry) s;
          (client, collection, query, cursor) = opened
      in map_option (\<lambda>s. snd (run_state (find_close D opened) s)) (print_loop D cursor s))"

definition mongodb_find :: "'w mongoc \<Rightarrow> 'w calling_state \<Rightarrow> 'w calling_state option" where
  "mongodb_find D = find_with D None"

definition mongodb_find_specific :: "'w mongoc \<Rightarrow> 'w calling_state \<Rightarrow> 'w calling_state option" where
  "mongodb_find_specific D = find_with D (Some (''_id'', BCON_UTF8 ''55d5504d44c1a12046052db1''))"

section \<open>Every object is given back\<close>

text \<open>
  How the calls are read as taking and giving back. \<open>live\<close> is the multiset of the objects that were got
  and not destroyed yet, \<open>borrowed\<close> the document that the last \<open>mongoc_cursor_next\<close> has lent: it may
  be read until the next one or the end of the cursor, and is never to be destroyed. None is a breach: a
  call with an object that is not there, a second destruction, a collection destroyed before its
  cursor, or a client before its collection.
\<close>

datatype kind = Is_client | Is_collection | Is_document | Is_cursor | Is_text

type_synonym owned = "(kind \<times> ptr) multiset \<times> ptr option"

definition none_live :: "kind \<Rightarrow> (kind \<times> ptr) multiset \<Rightarrow> bool" where
  "none_live k live \<longleftrightarrow> filter_mset (\<lambda>x. fst x = k) live = {#}"

definition give_back :: "kind \<Rightarrow> ptr \<Rightarrow> owned \<Rightarrow> owned option" where
  "give_back k p st = (if (k, p) \<in># fst st then Some (fst st - {#(k, p)#}, snd st) else None)"

definition readable :: "ptr \<Rightarrow> owned \<Rightarrow> bool" where
  "readable d st \<longleftrightarrow> (Is_document, d) \<in># fst st \<or> snd st = Some d"

fun take_and_give :: "call \<Rightarrow> owned \<Rightarrow> owned option" where
  "take_and_give (Client_new uri p) (live, b) = Some (add_mset (Is_client, p) live, b)"
| "take_and_give (Get_collection c db name p) (live, b) =
     (if (Is_client, c) \<in># live then Some (add_mset (Is_collection, p) live, b) else None)"
| "take_and_give (Bson_new p) (live, b) = Some (add_mset (Is_document, p) live, b)"
| "take_and_give (Bcon_new entries p) (live, b) = Some (add_mset (Is_document, p) live, b)"
| "take_and_give (Append d key v) (live, b) = (if (Is_document, d) \<in># live then Some (live, b) else None)"
| "take_and_give (Insert c d ok) (live, b) =
     (if (Is_collection, c) \<in># live \<and> readable d (live, b) then Some (live, b) else None)"
| "take_and_give (Update c q u ok) (live, b) =
     (if (Is_collection, c) \<in># live \<and> readable q (live, b) \<and> readable u (live, b) then Some (live, b) else None)"
| "take_and_give (Remove c d ok) (live, b) =
     (if (Is_collection, c) \<in># live \<and> readable d (live, b) then Some (live, b) else None)"
| "take_and_give (Command c d ok filled) (live, b) =
     (if (Is_collection, c) \<in># live \<and> readable d (live, b)
      then Some (if filled then add_mset (Is_document, Addr_reply) live else live, b) else None)"
| "take_and_give (Find c d p) (live, b) =
     (if (Is_collection, c) \<in># live \<and> readable d (live, b)
      then Some (add_mset (Is_cursor, p) live, b) else None)"
| "take_and_give (Cursor_next c lent) (live, b) = (if (Is_cursor, c) \<in># live then Some (live, lent) else None)"
| "take_and_give (As_json d p) (live, b) =
     (if readable d (live, b) then Some (add_mset (Is_text, p) live, b) else None)"
| "take_and_give (Print_string p bs) (live, b) = (if (Is_text, p) \<in># live then Some (live, b) else None)"
| "take_and_give (Bson_free p) (live, b) = give_back Is_text p (live, b)"
| "take_and_give (Bson_destroy p) (live, b) = give_back Is_document p (live, b)"
| "take_and_give (Cursor_destroy p) (live, b) = give_back Is_cursor p (live, None)"
| "take_and_give (Collection_destroy p) (live, b) =
     (if none_live Is_cursor live then give_back Is_collection p (live, b) else None)"
| "take_and_give (Client_destroy p) (live, b) =
     (if none_live Is_cursor live \<and> none_live Is_collection live then give_back Is_client p (live, b) else None)"
| "take_and_give _ st = Some st"

fun take_and_give_all :: "call list \<Rightarrow> owned \<Rightarrow> owned option" where
  "take_and_give_all [] st = Some st"
| "take_and_give_all (c # cs) st = Option.bind (take_and_give c st) (take_and_give_all cs)"

text \<open>Calls without a breach that start and end with nothing live.\<close>

definition all_given_back :: "call list \<Rightarrow> bool" where
  "all_given_back cs \<longleftrightarrow> take_and_give_all cs ({#}, None) = Some ({#}, None)"

text \<open>
  What is documented of the driver and the code relies on: \<open>BCON_NEW\<close> never returns the null pointer
  (libbson aborts when it is out of memory); \<open>mongoc_collection_command_simple\<close> initialises the reply
  in any case; a cursor comes to its end, so something decreases with every document it hands out.
\<close>

definition bcon_not_null :: "'w mongoc \<Rightarrow> bool" where
  "bcon_not_null D \<longleftrightarrow> (\<forall>b w. fst (mc_bcon_new D b w) \<noteq> NULL)"

definition reply_initialised :: "'w mongoc \<Rightarrow> bool" where
  "reply_initialised D \<longleftrightarrow> (\<forall>c d w. snd (snd (fst (mc_command D c d w))))"

definition cursors_end :: "'w mongoc \<Rightarrow> ('w \<Rightarrow> nat) \<Rightarrow> bool" where
  "cursors_end D docs_left \<longleftrightarrow>
     (\<forall>c w d w'. mc_cursor_next D c w = (Some d, w') \<longrightarrow> docs_left w' < docs_left w)
     \<and> (\<forall>d w. docs_left (snd (mc_as_json D d w)) \<le> docs_left w)
     \<and> (\<forall>p w. docs_left (mc_bson_free D p w) \<le> docs_left w)"

definition mongoc_laws :: "'w mongoc \<Rightarrow> ('w \<Rightarrow> nat) \<Rightarrow> bool" where
  "mongoc_laws D docs_left \<longleftrightarrow> bcon_not_null D \<and> reply_initialised D \<and> cursors_end D docs_left"

lemma take_and_give_append:
  "take_and_give_all (cs @ ds) st = Option.bind (take_and_give_all cs st) (take_and_give_all ds)"
  by (induction cs arbitrary: st) (auto split: bind_split)

lemmas calling_simps = call_driver_def call_void_def connect_test_def disconnect_def bson_destroy_def
  BSON_APPEND_def print_error_def print_document_def Let_def
lemmas owning_simps = all_given_back_def give_back_def readable_def none_live_def

text \<open>The functions without a loop.\<close>

lemma insert_gives_back:
  "all_given_back (calls (snd (run_state (mongodb_insert D) \<lparr>world = w, calls = []\<rparr>)))"
  by (simp add: mongodb_insert_def calling_simps owning_simps split: prod.split)

lemma update_gives_back:
  assumes "bcon_not_null D"
  shows "all_given_back (calls (snd (run_state (mongodb_update D) \<lparr>world = w, calls = []\<rparr>)))"
proof -
  have "mc_bcon_new D b v \<noteq> (NULL, v')" for b v v'
    using assms unfolding bcon_not_null_def by (metis fst_conv)
  then show ?thesis
    by (auto simp: mongodb_update_def update_fail_def calling_simps owning_simps split: prod.split)
qed

lemma delete_gives_back:
  "all_given_back (calls (snd (run_state (mongodb_delete D) \<lparr>world = w, calls = []\<rparr>)))"
  by (simp add: mongodb_delete_def calling_simps owning_simps split: prod.split)

lemma delete_oid_gives_back:
  "all_given_back (calls (snd (run_state (mongodb_delete_oid D oid) \<lparr>world = w, calls = []\<rparr>)))"
  by (simp add: mongodb_delete_oid_def calling_simps owning_simps split: prod.split)

lemma command_gives_back:
  assumes "reply_initialised D"
  shows "all_given_back (calls (snd (run_state (run_command D) \<lparr>world = w, calls = []\<rparr>)))"
proof -
  have "mc_command D c d v \<noteq> ((ok, m, False), v')" for c d v v' ok m
    using assms unfolding reply_initialised_def by (metis fst_conv snd_conv)
  then have "mc_command D c d v = ((ok, m, filled), v') \<Longrightarrow> filled" for c d v v' ok m filled
    by (cases filled) auto
  then show ?thesis
    by (auto simp: run_command_def calling_simps owning_simps split: prod.split)
qed

text \<open>The loop ends, and leaves what was there.\<close>

lemma print_loop_gives_back:
  assumes "cursors_end D docs_left" "take_and_give_all (calls s) ({#}, None) = Some (live, b)"
    "(Is_cursor, cursor) \<in># live"
  shows "\<exists>s'. print_loop D cursor s = Some s' \<and> take_and_give_all (calls s') ({#}, None) = Some (live, None)"
  using assms(2,3)
proof (induction "docs_left (world s)" arbitrary: s b rule: less_induct)
  case less
  obtain lent w where moved: "mc_cursor_next D cursor (world s) = (lent, w)" by (cases "mc_cursor_next D cursor (world s)")
  show ?case
  proof (cases lent)
    case None
    with moved less.prems show ?thesis
      by (subst print_loop.simps) (simp add: call_driver_def take_and_give_append)
  next
    case (Some doc)
    obtain str bytes v where json: "mc_as_json D doc w = ((str, bytes), v)"
      by (cases "mc_as_json D doc w") auto
    let ?s = "s\<lparr>world := mc_bson_free D str v,
        calls := calls s @ [Cursor_next cursor (Some doc), As_json doc str, Print_string str (bytes @ [LF]), Bson_free str]\<rparr>"
    have "print_loop D cursor s = print_loop D cursor ?s"
      by (subst print_loop.simps) (simp add: moved Some json call_driver_def call_void_def print_document_def)
    moreover have "docs_left w < docs_left (world s)" "docs_left v \<le> docs_left w"
      "docs_left (mc_bson_free D str v) \<le> docs_left v"
      using assms(1) moved Some json unfolding cursors_end_def by (metis snd_conv)+
    moreover have "take_and_give_all (calls ?s) ({#}, None) = Some (live, Some doc)"
      using less.prems by (simp add: take_and_give_append readable_def give_back_def)
    ultimately show ?thesis
      using less.hyps [of ?s] less.prems(2) by simp
  qed
qed

lemma find_gives_back:
  assumes "cursors_end D docs_left"
  shows "\<exists>s. find_with D entry \<lparr>world = w, calls = []\<rparr> = Some s \<and> all_given_back (calls s)"
proof -
  obtain client collection query cursor s where
    opened: "run_state (find_open D entry) \<lparr>world = w, calls = []\<rparr> = ((client, collection, query, cursor), s)"
    by (cases "run_state (find_open D entry) \<lparr>world = w, calls = []\<rparr>") auto
  let ?live = "{#(Is_client, client), (Is_collection, collection), (Is_document, query), (Is_cursor, cursor)#}"
  have "take_and_give_all (calls s) ({#}, None) = Some (?live, None)"
    using opened
    by (auto simp: find_open_def calling_simps readable_def split: prod.splits option.splits)
  from print_loop_gives_back [OF assms this, of cursor] obtain s' where
    s': "print_loop D cursor s = Some s'" "take_and_give_all (calls s') ({#}, None) = Some (?live, None)"
    by auto
  then show ?thesis
    by (simp add: find_with_def opened find_close_def calling_simps owning_simps take_and_give_append)
qed

text \<open>
  C35. Every MongoDB function of the test client gives back what it gets, with any driver that keeps
  to the three laws: in the calls that it makes, whatever they return, every object that it got is
  destroyed exactly once, a collection after its cursor and a client after its collection; nothing
  is used before it was got or after it was destroyed; and a document that a cursor has lent is read
  only until the next one and never destroyed. The two functions with a loop return.
\<close>

theorem mongo_objects_given_back:
  assumes "mongoc_laws D docs_left"
  shows "all_given_back (calls (snd (run_state (mongodb_insert D) \<lparr>world = w, calls = []\<rparr>)))
    \<and> all_given_back (calls (snd (run_state (mongodb_update D) \<lparr>world = w, calls = []\<rparr>)))
    \<and> all_given_back (calls (snd (run_state (mongodb_delete D) \<lparr>world = w, calls = []\<rparr>)))
    \<and> all_given_back (calls (snd (run_state (mongodb_delete_oid D oid) \<lparr>world = w, calls = []\<rparr>)))
    \<and> all_given_back (calls (snd (run_state (run_command D) \<lparr>world = w, calls = []\<rparr>)))
    \<and> (\<exists>s. mongodb_find D \<lparr>world = w, calls = []\<rparr> = Some s \<and> all_given_back (calls s))
    \<and> (\<exists>s. mongodb_find_specific D \<lparr>world = w, calls = []\<rparr> = Some s \<and> all_given_back (calls s))"
  using assms unfolding mongoc_laws_def mongodb_find_def mongodb_find_specific_def
  by (intro conjI insert_gives_back update_gives_back delete_gives_back delete_oid_gives_back
      command_gives_back find_gives_back) auto

text \<open>
  A driver that numbers its objects and whose cursors count down, as one for which the laws hold.
\<close>

definition counting_driver :: "(nat \<times> nat) mongoc" where
  "counting_driver =
     (let new = (\<lambda>(n, k). (At n, n + 1, k)) in
      \<lparr>mc_init = id, mc_client_new = \<lambda>_. new, mc_get_collection = \<lambda>_ _ _. new, mc_bson_new = new,
       mc_bcon_new = \<lambda>_. new, mc_oid_init = \<lambda>w. (replicate 12 NUL, w), mc_append = \<lambda>_ _ _. id,
       mc_insert = \<lambda>_ _ w. ((False, ''no connection''), w), mc_update = \<lambda>_ _ _ w. ((True, []), w),
       mc_remove = \<lambda>_ _ w. ((True, []), w), mc_command = \<lambda>_ _ w. ((True, [], True), w),
       mc_find = \<lambda>_ _ (n, k). (At n, n + 1, 2),
       mc_cursor_next = \<lambda>_ (n, k). if k = 0 then (None, n, k) else (Some (At n), n + 1, k - 1),
       mc_as_json = \<lambda>_ (n, k). ((At n, ''{}''), n + 1, k), mc_bson_free = \<lambda>_. id, mc_bson_destroy = \<lambda>_. id,
       mc_cursor_destroy = \<lambda>_. id, mc_collection_destroy = \<lambda>_. id, mc_client_destroy = \<lambda>_. id\<rparr>)"

lemma counting_driver_laws: "mongoc_laws counting_driver snd"
  by (auto simp: mongoc_laws_def bcon_not_null_def reply_initialised_def cursors_end_def counting_driver_def Let_def
      split: if_splits)

lemma mongo_objects_given_back_witness:
  "all_given_back (calls (snd (run_state (mongodb_update counting_driver) \<lparr>world = (0, 0), calls = []\<rparr>)))
   \<and> (\<exists>s. mongodb_find counting_driver \<lparr>world = (0, 0), calls = []\<rparr> = Some s \<and> all_given_back (calls s))"
  using mongo_objects_given_back [OF counting_driver_laws, of "(0, 0)"] by blast

section \<open>The demonstration that main runs\<close>

text \<open>
  The C++ driver: a call may throw a \<open>DBException\<close>, whose \<open>what ()\<close> is given. A query gives a
  cursor: the documents that \<open>next\<close> returns, and what is thrown after them, if anything.
\<close>

record 'w mongo_cxx =
  cx_connect :: "byte list \<Rightarrow> 'w \<Rightarrow> byte list option \<times> 'w"
  cx_update :: "byte list \<Rightarrow> bson \<Rightarrow> bson \<Rightarrow> 'w \<Rightarrow> byte list option \<times> 'w"
  cx_query :: "byte list \<Rightarrow> bson \<Rightarrow> 'w \<Rightarrow> (byte list + bson list \<times> byte list option) \<times> 'w"
  cx_string :: "bson \<Rightarrow> byte list"
  cx_string_field :: "bson \<Rightarrow> byte list \<Rightarrow> byte list"

text \<open>\<open>run\<close>: the exception it ends in, if any, and the lines it prints.\<close>

definition run :: "'w mongo_cxx \<Rightarrow> 'w \<Rightarrow> byte list option \<times> byte list list \<times> 'w" where
  "run D w =
     (case cx_connect D ''localhost'' w of
        (Some e, w) \<Rightarrow> (Some e, [], w)
      | (None, w) \<Rightarrow>
          case cx_update D ''test.test'' [(''name'', BCON_UTF8 ''Joe''), (''age'', BCON_INT 33)]
                 [(''$inc'', BCON_DOCUMENT [(''visits'', BCON_INT 1)])] w of
            (Some e, w) \<Rightarrow> (Some e, [], w)
          | (None, w) \<Rightarrow>
              case cx_query D ''test.test'' [] w of
                (Inl e, w) \<Rightarrow> (Some e, [], w)
              | (Inr (ds, e), w) \<Rightarrow> (e, map (cx_string D) ds, w))"

text \<open>\<open>printIfAge\<close>, which nobody calls.\<close>

definition printIfAge :: "'w mongo_cxx \<Rightarrow> int \<Rightarrow> 'w \<Rightarrow> byte list option \<times> byte list list \<times> 'w" where
  "printIfAge D age w =
     (case cx_query D ''test.test'' [(''age'', BCON_INT age)] w of
        (Inl e, w) \<Rightarrow> (Some e, [], w)
      | (Inr (ds, e), w) \<Rightarrow>
          (e, map (\<lambda>p. cx_string_field D p ''name'') ds, w))"

text \<open>\<open>main\<close>, up to the \<open>return EXIT_SUCCESS\<close> after which the rest of it is not reached.\<close>

definition client_main :: "'w mongo_cxx \<Rightarrow> int \<Rightarrow> 'w \<Rightarrow> int \<times> byte list list \<times> 'w" where
  "client_main D argc w =
     (case run D w of
        (None, out, w) \<Rightarrow> (0, out @ [''connected ok''], w)
      | (Some what, out, w) \<Rightarrow> (0, out @ [''caught '' @ what], w))"

text \<open>
  So the check of the arguments and the load test are never reached: whatever the number of
  arguments, \<open>main\<close> returns 0, also after an exception.
\<close>

lemma client_main_succeeds:
  "fst (client_main D argc w) = 0 \<and> client_main D argc w = client_main D argc' w"
  by (simp add: client_main_def split: prod.split option.split)

end
