(* ===== verification/Io_Service_Pool.thy ===== *)
theory Io_Service_Pool
  imports Byte_Prelude
begin

text \<open>
  \<open>src/io_service_pool.h\<close> and \<open>src/io_service_pool.cpp\<close>: a fixed number of \<open>io_service\<close>s, each run
  by a thread of its own and given out in turn. A service is the number of its construction. The
  first part holds the operations on the pool; the last section their steps when they run beside
  each other, where when a service's own \<open>run\<close> returns is a parameter, as boost is not part of
  the source.
\<close>

record io_service_pool =
  io_services :: "nat list"
  work :: "nat list"
  next_io_service :: nat
  m_is_init :: bool
  threads :: "nat list"
  stopped :: "nat set"

text \<open>The constructor; None is the \<open>runtime_error\<close>.\<close>

definition pool_new :: "nat \<Rightarrow> io_service_pool option" where
  "pool_new pool_size =
     (if pool_size = 0 then None
      else Some \<lparr>io_services = [0..<pool_size], work = [0..<pool_size], next_io_service = 0,
                 m_is_init = False, threads = [], stopped = {}\<rparr>)"

text \<open>\<open>run\<close> up to its join loop: a thread for every service, and \<open>m_is_init\<close>.\<close>

definition start_thread :: "nat \<Rightarrow> io_service_pool \<Rightarrow> io_service_pool" where
  "start_thread i p = p\<lparr>threads := threads p @ [io_services p ! i]\<rparr>"

definition pool_run :: "io_service_pool \<Rightarrow> io_service_pool" where
  "pool_run p = p\<lparr>threads := io_services p, m_is_init := True\<rparr>"

text \<open>The condition that \<open>wait_init\<close> waits for.\<close>

definition wait_init_ends :: "io_service_pool \<Rightarrow> bool" where
  "wait_init_ends p \<longleftrightarrow> m_is_init p"

text \<open>One round of \<open>stop\<close>'s loop, and the whole of it.\<close>

definition stop_service :: "nat \<Rightarrow> io_service_pool \<Rightarrow> io_service_pool" where
  "stop_service i p = p\<lparr>stopped := insert (io_services p ! i) (stopped p)\<rparr>"

definition pool_stop :: "io_service_pool \<Rightarrow> io_service_pool" where
  "pool_stop p = fold stop_service [0..<length (io_services p)] p"

text \<open>
  \<open>get_io_service\<close>; None is an index out of range. The server calls it from one accept handler
  at a time.
\<close>

definition get_io_service :: "io_service_pool \<Rightarrow> (nat \<times> io_service_pool) option" where
  "get_io_service p =
     (if next_io_service p < length (io_services p)
      then let n = next_io_service p + 1
           in Some (io_services p ! next_io_service p,
                    p\<lparr>next_io_service := if n = length (io_services p) then 0 else n\<rparr>)
      else None)"

text \<open>The services that \<open>k\<close> calls in a row return.\<close>

fun get_io_services :: "nat \<Rightarrow> io_service_pool \<Rightarrow> (nat list \<times> io_service_pool) option" where
  "get_io_services 0 p = Some ([], p)"
| "get_io_services (Suc k) p =
     (case get_io_services k p of
        None \<Rightarrow> None
      | Some (ss, p) \<Rightarrow> map_option (\<lambda>(s, p). (ss @ [s], p)) (get_io_service p))"

definition pool_ok :: "nat \<Rightarrow> io_service_pool \<Rightarrow> bool" where
  "pool_ok n p \<longleftrightarrow> io_services p = [0..<n] \<and> next_io_service p < n"

lemma pool_new_ok: "pool_new n = Some p \<Longrightarrow> pool_ok n p \<and> next_io_service p = 0"
  by (auto simp: pool_new_def pool_ok_def split: if_splits)

lemma pool_ok_update [simp]: "pool_ok n (pool_run p) = pool_ok n p"
  by (simp add: pool_ok_def pool_run_def)

lemma get_io_service_ok:
  assumes "pool_ok n p"
  shows "\<exists>p'. get_io_service p = Some (next_io_service p, p') \<and> pool_ok n p'
    \<and> next_io_service p' = Suc (next_io_service p) mod n"
  using assms by (auto simp: get_io_service_def pool_ok_def Let_def mod_Suc)

lemma get_io_services_ok:
  assumes "pool_ok n p"
  shows "\<exists>p'. get_io_services k p = Some (map (\<lambda>i. (next_io_service p + i) mod n) [0..<k], p') \<and> pool_ok n p'
    \<and> next_io_service p' = (next_io_service p + k) mod n"
proof (induction k)
  case 0
  with assms show ?case by (simp add: pool_ok_def)
next
  case (Suc k)
  then obtain p' where p': "get_io_services k p = Some (map (\<lambda>i. (next_io_service p + i) mod n) [0..<k], p')"
    "pool_ok n p'" "next_io_service p' = (next_io_service p + k) mod n" by blast
  from get_io_service_ok [OF p'(2)] p' show ?case
    by (auto simp: mod_Suc_eq)
qed

text \<open>How often a service is among the first \<open>k\<close>.\<close>

lemma round_robin_count:
  assumes "0 < n" "j < n"
  shows "length (filter (\<lambda>s. s = j) (map (\<lambda>i. i mod n) [0..<k])) = (k + (n - 1 - j)) div n"
proof (induction k)
  case 0
  with assms show ?case by simp
next
  case (Suc k)
  have step: "(Suc k + (n - 1 - j)) div n = (k + (n - 1 - j)) div n + (if k mod n = j then 1 else 0)"
  proof -
    define q r where "q = k div n" and "r = k mod n"
    then have k: "k = q * n + r" "r < n" using assms by simp_all
    have "(q * n + x) div n = q + x div n" for x using assms by simp
    then have "(Suc k + (n - 1 - j)) div n = q + (Suc r + (n - 1 - j)) div n"
      "(k + (n - 1 - j)) div n = q + (r + (n - 1 - j)) div n"
      unfolding k by (metis add.assoc add_Suc_right add_Suc)+
    moreover have "(Suc r + (n - 1 - j)) div n = (r + (n - 1 - j)) div n + (if r = j then 1 else 0)"
    proof (cases r j rule: linorder_cases)
      case less
      with assms k show ?thesis by simp
    next
      case equal
      with assms show ?thesis by simp
    next
      case greater
      with assms k have "(Suc r + (n - 1 - j)) div n = 1" "(r + (n - 1 - j)) div n = 1"
        by (intro div_nat_eqI; simp)+
      with greater show ?thesis by simp
    qed
    ultimately show ?thesis by (simp add: r_def)
  qed
  from Suc step show ?case by simp
qed

text \<open>
  C26. The services are given out in turn: in a pool of \<open>n\<close> services, whatever is run or stopped
  meanwhile, the \<open>k\<close>-th call of \<open>get_io_service\<close> returns service \<open>k mod n\<close> and never reads past
  the vector, so after \<open>k\<close> calls no service was given out more than once more than another. A
  pool of size 0 cannot be made.
\<close>

theorem get_io_service_round_robin:
  assumes "pool_new n = Some p"
  shows "\<exists>ss p'. get_io_services k (pool_run p) = Some (ss, p') \<and> ss = map (\<lambda>i. i mod n) [0..<k]
    \<and> (\<forall>i<n. \<forall>j<n. length (filter (\<lambda>s. s = i) ss) \<le> length (filter (\<lambda>s. s = j) ss) + 1)"
proof -
  have n: "0 < n" using assms by (auto simp: pool_new_def split: if_splits)
  from pool_new_ok [OF assms] have p: "pool_ok n (pool_run p)" "next_io_service (pool_run p) = 0"
    by (simp_all add: pool_run_def pool_ok_def)
  have le: "(k + (n - 1 - i)) div n \<le> (k + (n - 1 - j)) div n + 1" if "i < n" "j < n" for i j
  proof -
    have "k + (n - 1 - i) \<le> (k + (n - 1 - j)) + n" using that by simp
    then have "(k + (n - 1 - i)) div n \<le> ((k + (n - 1 - j)) + n) div n" by (rule div_le_mono)
    moreover have "((k + (n - 1 - j)) + n) div n = (k + (n - 1 - j)) div n + 1"
      using n by (intro div_add_self2) simp
    ultimately show ?thesis by simp
  qed
  let ?ss = "map (\<lambda>i. i mod n) [0..<k]"
  have "\<forall>i<n. \<forall>j<n. length (filter (\<lambda>s. s = i) ?ss) \<le> length (filter (\<lambda>s. s = j) ?ss) + 1"
  proof (intro allI impI)
    fix i j assume "i < n" "j < n"
    then show "length (filter (\<lambda>s. s = i) ?ss) \<le> length (filter (\<lambda>s. s = j) ?ss) + 1"
      using le by (simp only: round_robin_count [OF n])
  qed
  with get_io_services_ok [OF p(1), of k] p(2) show ?thesis by auto
qed

lemma get_io_service_round_robin_witness:
  "\<exists>p ss p'. pool_new 3 = Some p \<and> get_io_services 7 (pool_run p) = Some (ss, p') \<and> ss = [0, 1, 2, 0, 1, 2, 0]"
proof -
  obtain p where p: "pool_new 3 = Some p" by (simp add: pool_new_def)
  with get_io_service_round_robin [OF p, of 7] show ?thesis by (auto simp: upt_rec numeral_2_eq_2)
qed

section \<open>The steps of run, wait_init and stop beside each other\<close>

text \<open>
  \<open>run\<close> is called once, by the server's thread. It holds \<open>m_lock\<close> from its start until every
  thread was started and \<open>m_is_init\<close> set, and joins the threads one after the other then.
\<close>

datatype run_at = Not_called | Starting nat | Joining nat | Returned

fun locked :: "run_at \<Rightarrow> bool" where
  "locked (Starting i) = True"
| "locked _ = False"

text \<open>
  \<open>exited\<close> are the threads that have returned, \<open>stop_at\<close> is the index of \<open>stop\<close>'s loop while it
  runs, and \<open>waited\<close> is set when a \<open>wait_init\<close> has gone on.
\<close>

record pool_system =
  the_pool :: io_service_pool
  run_pc :: run_at
  exited :: "nat set"
  stop_at :: "nat option"
  waited :: bool

definition system_new :: "io_service_pool \<Rightarrow> pool_system" where
  "system_new p = \<lparr>the_pool = p, run_pc = Not_called, exited = {}, stop_at = None, waited = False\<rparr>"

text \<open>
  The steps of \<open>run\<close> and of the threads that it starts, for boost's
  \<open>may_return service stopped has_work\<close>: whether \<open>io_service::run\<close> of this service may return.
\<close>

inductive run_step :: "(nat \<Rightarrow> bool \<Rightarrow> bool \<Rightarrow> bool) \<Rightarrow> pool_system \<Rightarrow> pool_system \<Rightarrow> bool"
  for may_return :: "nat \<Rightarrow> bool \<Rightarrow> bool \<Rightarrow> bool" where
  run_call: "run_pc s = Not_called \<Longrightarrow> run_step may_return s (s\<lparr>run_pc := Starting 0\<rparr>)"
| run_start: "run_pc s = Starting i \<Longrightarrow> i < length (io_services (the_pool s)) \<Longrightarrow>
    run_step may_return s (s\<lparr>run_pc := Starting (i + 1), the_pool := start_thread i (the_pool s)\<rparr>)"
| run_unlock: "run_pc s = Starting i \<Longrightarrow> i = length (io_services (the_pool s)) \<Longrightarrow>
    run_step may_return s (s\<lparr>run_pc := Joining 0, the_pool := (the_pool s)\<lparr>m_is_init := True\<rparr>\<rparr>)"
| run_join: "run_pc s = Joining i \<Longrightarrow> i < length (threads (the_pool s)) \<Longrightarrow> i \<in> exited s \<Longrightarrow>
    run_step may_return s (s\<lparr>run_pc := Joining (i + 1)\<rparr>)"
| run_return: "run_pc s = Joining i \<Longrightarrow> i = length (threads (the_pool s)) \<Longrightarrow>
    run_step may_return s (s\<lparr>run_pc := Returned\<rparr>)"
| thread_exit: "i < length (threads (the_pool s)) \<Longrightarrow> i \<notin> exited s \<Longrightarrow> t = threads (the_pool s) ! i \<Longrightarrow>
    may_return t (t \<in> stopped (the_pool s)) (t \<in> set (work (the_pool s))) \<Longrightarrow>
    run_step may_return s (s\<lparr>exited := insert i (exited s)\<rparr>)"

text \<open>The steps of other threads: those of \<open>stop\<close>, and \<open>wait_init\<close> going on.\<close>

inductive other_step :: "pool_system \<Rightarrow> pool_system \<Rightarrow> bool" where
  stop_call: "stop_at s = None \<Longrightarrow> other_step s (s\<lparr>stop_at := Some 0\<rparr>)"
| stop_next: "stop_at s = Some i \<Longrightarrow> i < length (io_services (the_pool s)) \<Longrightarrow>
    other_step s (s\<lparr>stop_at := Some (i + 1), the_pool := stop_service i (the_pool s)\<rparr>)"
| stop_return: "stop_at s = Some i \<Longrightarrow> i = length (io_services (the_pool s)) \<Longrightarrow>
    other_step s (s\<lparr>stop_at := None\<rparr>)"
| wait_go: "\<not> locked (run_pc s) \<Longrightarrow> wait_init_ends (the_pool s) \<Longrightarrow> other_step s (s\<lparr>waited := True\<rparr>)"

inductive pool_reach :: "(nat \<Rightarrow> bool \<Rightarrow> bool \<Rightarrow> bool) \<Rightarrow> io_service_pool \<Rightarrow> pool_system \<Rightarrow> bool"
  for may_return :: "nat \<Rightarrow> bool \<Rightarrow> bool \<Rightarrow> bool" and p :: io_service_pool where
  reach_new: "pool_reach may_return p (system_new p)"
| reach_run: "pool_reach may_return p s \<Longrightarrow> run_step may_return s s' \<Longrightarrow> pool_reach may_return p s'"
| reach_other: "pool_reach may_return p s \<Longrightarrow> other_step s s' \<Longrightarrow> pool_reach may_return p s'"

text \<open>
  What boost documents: \<open>run\<close> of a service returns once it was stopped, and not before as long as
  it has work (\<open>io_service::work\<close>).
\<close>

definition io_service_laws :: "(nat \<Rightarrow> bool \<Rightarrow> bool \<Rightarrow> bool) \<Rightarrow> bool" where
  "io_service_laws may_return \<longleftrightarrow>
     (\<forall>s w. may_return s True w) \<and> (\<forall>s. \<not> may_return s False True)"

text \<open>The invariant of the states that can be reached, in a pool of \<open>n\<close> services.\<close>

fun run_pc_ok :: "nat \<Rightarrow> pool_system \<Rightarrow> run_at \<Rightarrow> bool" where
  "run_pc_ok n s Not_called \<longleftrightarrow> threads (the_pool s) = [] \<and> \<not> m_is_init (the_pool s)"
| "run_pc_ok n s (Starting i) \<longleftrightarrow> i \<le> n \<and> threads (the_pool s) = [0..<i] \<and> \<not> m_is_init (the_pool s)"
| "run_pc_ok n s (Joining i) \<longleftrightarrow> i \<le> n \<and> threads (the_pool s) = [0..<n] \<and> {0..<i} \<subseteq> exited s"
| "run_pc_ok n s Returned \<longleftrightarrow> threads (the_pool s) = [0..<n] \<and> {0..<n} \<subseteq> exited s"

definition system_ok :: "nat \<Rightarrow> pool_system \<Rightarrow> bool" where
  "system_ok n s \<longleftrightarrow> io_services (the_pool s) = [0..<n] \<and> work (the_pool s) = [0..<n]
     \<and> run_pc_ok n s (run_pc s) \<and> exited s \<subseteq> stopped (the_pool s)
     \<and> exited s \<subseteq> {0..<length (threads (the_pool s))}
     \<and> (waited s \<longrightarrow> m_is_init (the_pool s))"

lemma system_new_ok: "pool_new n = Some p \<Longrightarrow> system_ok n (system_new p)"
  by (auto simp: pool_new_def system_new_def system_ok_def split: if_splits)

lemma run_step_ok:
  assumes "run_step R s s'" "system_ok n s" "io_service_laws R"
  shows "system_ok n s'"
  using assms
proof (cases rule: run_step.cases)
  case (run_join i)
  with assms(2) show ?thesis
    by (auto simp: system_ok_def less_Suc_eq)
next
  case (thread_exit i t)
  with assms(2) have "i < n" "t = i" "t \<in> set (work (the_pool s))"
    by (cases "run_pc s"; auto simp: system_ok_def)+
  with thread_exit assms(2,3) have "i \<in> stopped (the_pool s)"
    unfolding io_service_laws_def by metis
  with thread_exit assms(2) show ?thesis
    by (cases "run_pc s") (auto simp: system_ok_def)
qed (auto simp: system_ok_def start_thread_def)

lemma other_step_ok:
  assumes "other_step s s'" "system_ok n s"
  shows "system_ok n s'"
  using assms
  by (cases rule: other_step.cases; cases "run_pc s")
    (auto simp: system_ok_def stop_service_def wait_init_ends_def)

lemma pool_reach_ok:
  assumes "pool_reach R p s" "pool_new n = Some p" "io_service_laws R"
  shows "system_ok n s"
  using assms by (induction rule: pool_reach.induct) (auto intro: system_new_ok run_step_ok other_step_ok)

text \<open>How many steps of \<open>run\<close> and its threads are left.\<close>

fun run_left :: "nat \<Rightarrow> run_at \<Rightarrow> nat" where
  "run_left n Not_called = 2 * n + 3"
| "run_left n (Starting i) = 2 * n - i + 2"
| "run_left n (Joining i) = n - i + 1"
| "run_left n Returned = 0"

definition steps_left :: "nat \<Rightarrow> pool_system \<Rightarrow> nat" where
  "steps_left n s = run_left n (run_pc s) + (n - card (exited s))"

lemma exited_room:
  assumes "system_ok n s" "i < length (threads (the_pool s))" "i \<notin> exited s"
  shows "card (insert i (exited s)) = Suc (card (exited s)) \<and> Suc (card (exited s)) \<le> n"
proof -
  have "length (threads (the_pool s)) \<le> n" using assms(1) by (cases "run_pc s") (auto simp: system_ok_def)
  with assms have sub: "insert i (exited s) \<subseteq> {0..<n}" by (auto simp: system_ok_def)
  then have "finite (exited s)" by (meson finite_atLeastLessThan finite_insert finite_subset)
  with assms(3) card_mono [OF _ sub] show ?thesis by simp
qed

lemma run_step_steps_left:
  assumes "run_step R s s'" "system_ok n s"
  shows "steps_left n s' < steps_left n s"
  using assms
proof (cases rule: run_step.cases)
  case (thread_exit i t)
  with exited_room [OF assms(2), of i] show ?thesis by (simp add: steps_left_def) linarith
qed (auto simp: system_ok_def steps_left_def)

lemma run_stuck:
  assumes "system_ok n s" "io_service_laws R" "{0..<n} \<subseteq> stopped (the_pool s)" "\<nexists>s'. run_step R s s'"
  shows "run_pc s = Returned"
proof (cases "run_pc s")
  case Not_called
  with assms(4) run_call show ?thesis by blast
next
  case (Starting i)
  with assms(1,4) run_start [of s i R] run_unlock [of s i R] show ?thesis
    by (cases "i = n") (auto simp: system_ok_def)
next
  case (Joining i)
  with assms(1) have th: "threads (the_pool s) = [0..<n]" "i \<le> n" by (auto simp: system_ok_def)
  have "i \<in> exited s" if "i < n"
  proof (rule ccontr)
    assume "i \<notin> exited s"
    moreover have "i \<in> stopped (the_pool s)" using assms(3) that by auto
    moreover from this assms(2) have "R i (i \<in> stopped (the_pool s)) (i \<in> set (work (the_pool s)))"
      unfolding io_service_laws_def by metis
    ultimately show False using assms(4) th(1) that thread_exit [of i s i R] by simp
  qed
  with assms(4) th Joining run_join [of s i R] run_return [of s i R] show ?thesis by (cases "i = n") auto
qed

text \<open>The steps of \<open>run\<close> up to its join loop add up to \<open>pool_run\<close>.\<close>

lemma pool_run_steps:
  assumes "threads p = []"
  shows "(fold start_thread [0..<length (io_services p)] p)\<lparr>m_is_init := True\<rparr> = pool_run p"
proof -
  have "fold start_thread is p = p\<lparr>threads := threads p @ map (\<lambda>i. io_services p ! i) is\<rparr>" for "is" p
    by (induction "is" arbitrary: p) (simp_all add: start_thread_def)
  with assms show ?thesis by (simp add: pool_run_def map_nth)
qed

text \<open>\<open>stop\<close> as a whole stops every service.\<close>

lemma pool_stop_stops: "stopped (pool_stop p) = stopped p \<union> set (io_services p)"
proof -
  have "fold stop_service is p = p\<lparr>stopped := stopped p \<union> (\<lambda>i. io_services p ! i) ` set is\<rparr>" for "is" p
    by (induction "is" arbitrary: p) (simp_all add: stop_service_def)
  then show ?thesis by (auto simp: pool_stop_def in_set_conv_nth)
qed

text \<open>
  C33. The start and the end of a pool of \<open>n\<close> services, in every state that the steps of \<open>run\<close>, its
  threads, \<open>stop\<close> and \<open>wait_init\<close> can reach in any order. \<open>wait_init\<close> goes on only after all \<open>n\<close>
  threads were started; \<open>run\<close> has returned only if every service was stopped and every thread has
  returned; and once every service is stopped, \<open>run\<close> returns: its steps and those of its threads
  come to an end, because each of them decreases \<open>steps_left\<close>, and where none is left \<open>run\<close> has
  returned.
\<close>

theorem pool_run_returns_after_stop:
  assumes "pool_new n = Some p" "io_service_laws may_return" "pool_reach may_return p s"
  shows "(waited s \<longrightarrow> threads (the_pool s) = [0..<n])
    \<and> (run_pc s = Returned \<longrightarrow> {0..<n} \<subseteq> stopped (the_pool s) \<and> {0..<n} \<subseteq> exited s)
    \<and> (\<forall>s'. run_step may_return s s' \<longrightarrow> steps_left n s' < steps_left n s)
    \<and> ({0..<n} \<subseteq> stopped (the_pool s) \<and> (\<nexists>s'. run_step may_return s s') \<longrightarrow> run_pc s = Returned)"
proof (intro conjI impI allI)
  from pool_reach_ok [OF assms(3,1,2)] have ok: "system_ok n s" .
  show "threads (the_pool s) = [0..<n]" if "waited s"
    using ok that by (cases "run_pc s") (auto simp: system_ok_def)
  show "{0..<n} \<subseteq> stopped (the_pool s)" "{0..<n} \<subseteq> exited s" if "run_pc s = Returned"
    using ok that by (auto simp: system_ok_def)
  show "steps_left n s' < steps_left n s" if "run_step may_return s s'" for s'
    using that ok by (rule run_step_steps_left)
  show "run_pc s = Returned" if "{0..<n} \<subseteq> stopped (the_pool s) \<and> (\<nexists>s'. run_step may_return s s')"
    using ok assms(2) that by (blast intro: run_stuck)
qed

text \<open>
  With an \<open>io_service\<close> as boost documents it, a pool of one service runs from its start to the
  return of \<open>run\<close>.
\<close>

lemma pool_run_returns_after_stop_witness:
  "\<exists>p s. pool_new 1 = Some p \<and> io_service_laws (\<lambda>s st w. st \<or> \<not> w)
    \<and> pool_reach (\<lambda>s st w. st \<or> \<not> w) p s \<and> run_pc s = Returned \<and> waited s
    \<and> threads (the_pool s) = [0] \<and> {0..<1} \<subseteq> stopped (the_pool s)"
proof -
  obtain p where p: "pool_new 1 = Some p" by (simp add: pool_new_def)
  let ?R = "\<lambda>s st w. st \<or> \<not> w"
  have laws: "io_service_laws ?R" by (simp add: io_service_laws_def)
  note go = reach_run [of ?R p] reach_other [of ?R p]
  let ?p = "\<lparr>io_services = [0], work = [0], next_io_service = 0, m_is_init = True, threads = [0], stopped = {}\<rparr>"
  let ?s = "\<lparr>the_pool = ?p, run_pc = Joining 0, exited = {}, stop_at = None, waited = False\<rparr>"
  have "pool_reach ?R p (system_new p\<lparr>run_pc := Starting 1, the_pool := start_thread 0 p\<rparr>)"
    using p go(1) [OF go(1) [OF reach_new run_call] run_start, of 0]
    by (auto simp: system_new_def pool_new_def)
  from go(1) [OF this run_unlock, of 1] have "pool_reach ?R p ?s"
    using p by (auto simp: system_new_def pool_new_def start_thread_def)
  from go(2) [OF go(2) [OF go(2) [OF this wait_go] stop_call] stop_next, of 0]
  have "pool_reach ?R p (?s\<lparr>waited := True, stop_at := Some 1, the_pool := ?p\<lparr>stopped := {0}\<rparr>\<rparr>)"
    by (simp add: wait_init_ends_def stop_service_def)
  from go(1) [OF go(1) [OF this thread_exit] run_join, of 0 0]
  have "pool_reach ?R p (?s\<lparr>waited := True, stop_at := Some 1, the_pool := ?p\<lparr>stopped := {0}\<rparr>,
      exited := {0}, run_pc := Joining 1\<rparr>)" by simp
  from go(1) [OF this run_return, of 1]
  have reach: "pool_reach ?R p (?s\<lparr>waited := True, stop_at := Some 1, the_pool := ?p\<lparr>stopped := {0}\<rparr>,
      exited := {0}, run_pc := Returned\<rparr>)" by simp
  from pool_run_returns_after_stop [OF p laws reach] p laws reach show ?thesis
    by (intro exI conjI) (assumption | simp)+
qed

end
