(* ===== verification/Http_Server.thy ===== *)
theory Http_Server
  imports Io_Service_Pool
begin

text \<open>
  \<open>src/http_server.h\<close> and \<open>src/http_server.cpp\<close>: accepting connections. A session is the number
  of its construction. \<open>do_accept\<close> makes the session before anybody has connected, and the
  session's constructor (\<open>src/http_session.h\<close>) sets its timer, so the model keeps the time: the
  steps carry the clock, in seconds.
\<close>

section \<open>State\<close>

text \<open>
  \<open>session_\<close>; the session that the outstanding \<open>async_accept\<close> waits for, if there is one; how many
  sessions were made; the service and the timer's expiry of each; the pool.
\<close>

record http_server =
  sv_sessions :: "nat set"
  sv_accepting :: "nat option"
  sv_made :: nat
  sv_service :: "nat \<Rightarrow> nat"
  sv_deadline :: "nat \<Rightarrow> nat"
  sv_pool :: io_service_pool

definition session_timeout :: nat where
  "session_timeout = 30"

section \<open>Operations\<close>

text \<open>None is a failed assertion, an exception, or an index out of range.\<close>

definition do_accept :: "nat \<Rightarrow> http_server \<Rightarrow> http_server option" where
  "do_accept now sv =
     (case get_io_service (sv_pool sv) of
        None \<Rightarrow> None
      | Some (service, p) \<Rightarrow>
          let i = sv_made sv
          in Some (sv\<lparr>sv_accepting := Some i, sv_made := i + 1, sv_pool := p,
                      sv_service := (sv_service sv)(i := service),
                      sv_deadline := (sv_deadline sv)(i := now + session_timeout)\<rparr>))"

text \<open>
  The constructor: the pool is made and run by \<open>thread_\<close>; it asserts that there are threads,
  waits for the pool, and begins to accept.
\<close>

definition server_new :: "nat \<Rightarrow> nat \<Rightarrow> http_server option" where
  "server_new threadnum now =
     (case pool_new threadnum of
        None \<Rightarrow> None
      | Some p \<Rightarrow>
          let p = pool_run p
          in if threadnum > 0 \<and> wait_init_ends p
             then do_accept now
                    \<lparr>sv_sessions = {}, sv_accepting = None, sv_made = 0, sv_service = \<lambda>_. 0,
                     sv_deadline = \<lambda>_. 0, sv_pool = p\<rparr>
             else None)"

definition insert_session :: "nat \<Rightarrow> http_server \<Rightarrow> http_server option" where
  "insert_session i sv =
     (if i \<in> sv_sessions sv then None else Some (sv\<lparr>sv_sessions := insert i (sv_sessions sv)\<rparr>))"

definition erase_session :: "nat \<Rightarrow> http_server \<Rightarrow> http_server" where
  "erase_session i sv = (if i \<in> sv_sessions sv then sv\<lparr>sv_sessions := sv_sessions sv - {i}\<rparr> else sv)"

text \<open>
  \<open>OnAccept\<close> for session \<open>i\<close>. After it the session is started; its wait on the timer ends at once
  if the timer has expired by then.
\<close>

definition OnAccept :: "nat \<Rightarrow> nat \<Rightarrow> http_server \<Rightarrow> http_server option" where
  "OnAccept now i sv =
     (case do_accept now sv of None \<Rightarrow> None | Some sv \<Rightarrow> insert_session i sv)"

text \<open>\<open>OnAccept\<close> with an error drops the session, and does not accept again.\<close>

definition OnAccept_error :: "http_server \<Rightarrow> http_server" where
  "OnAccept_error sv = sv\<lparr>sv_accepting := None\<rparr>"

definition timer_expired :: "nat \<Rightarrow> nat \<Rightarrow> http_server \<Rightarrow> bool" where
  "timer_expired now i sv \<longleftrightarrow> sv_deadline sv i \<le> now"

text \<open>
  \<open>run\<close> on a machine with \<open>nprocs\<close> processors, when the \<open>io_service\<close> has run out of work: it joins
  the threads 0 and 1, and the destructor of a thread that was not joined ends the program.
\<close>

datatype run_end = Run_returns | Run_out_of_range | Run_terminates

definition server_run :: "nat \<Rightarrow> run_end" where
  "server_run nprocs =
     (let threads = [0..<nprocs]
      in if length threads < 2 then Run_out_of_range
         else if drop 2 threads \<noteq> [] then Run_terminates else Run_returns)"

section \<open>The servers that can be reached\<close>

text \<open>
  The state and the time; \<open>since\<close> is when the session that the server waits to accept was made.
\<close>

inductive server_reach :: "nat \<Rightarrow> nat \<Rightarrow> nat \<Rightarrow> http_server \<Rightarrow> bool" for n :: nat where
  server_begin: "server_new n now = Some sv \<Longrightarrow> server_reach n now now sv"
| server_tick: "server_reach n since now sv \<Longrightarrow> now \<le> now' \<Longrightarrow> server_reach n since now' sv"
| server_accept:
    "server_reach n since now sv \<Longrightarrow> sv_accepting sv = Some i \<Longrightarrow> OnAccept now i sv = Some sv' \<Longrightarrow>
     server_reach n now now sv'"
| server_accept_error:
    "server_reach n since now sv \<Longrightarrow> sv_accepting sv = Some i \<Longrightarrow> server_reach n since now (OnAccept_error sv)"
| server_erase: "server_reach n since now sv \<Longrightarrow> server_reach n since now (erase_session i sv)"

definition server_ok :: "nat \<Rightarrow> nat \<Rightarrow> nat \<Rightarrow> http_server \<Rightarrow> bool" where
  "server_ok n since now sv \<longleftrightarrow>
     pool_ok n (sv_pool sv) \<and> 0 < n \<and> next_io_service (sv_pool sv) = sv_made sv mod n
     \<and> (\<forall>i < sv_made sv. sv_service sv i = i mod n)
     \<and> (\<forall>i \<in> sv_sessions sv. i < sv_made sv)
     \<and> (\<forall>i. sv_accepting sv = Some i \<longrightarrow>
          i \<notin> sv_sessions sv \<and> sv_made sv = Suc i \<and> sv_deadline sv i = since + session_timeout)
     \<and> since \<le> now"

lemma do_accept_ok:
  assumes "pool_ok n (sv_pool sv)" "0 < n" "next_io_service (sv_pool sv) = sv_made sv mod n"
    and "\<forall>i < sv_made sv. sv_service sv i = i mod n" "\<forall>i \<in> sv_sessions sv. i < sv_made sv"
  shows "\<exists>sv'. do_accept now sv = Some sv' \<and> server_ok n now now sv' \<and> sv_accepting sv' = Some (sv_made sv)
    \<and> sv_sessions sv' = sv_sessions sv \<and> sv_made sv' = Suc (sv_made sv)
    \<and> (\<forall>i < sv_made sv. sv_deadline sv' i = sv_deadline sv i)"
  using get_io_service_ok [OF assms(1)] assms
  by (auto simp: do_accept_def server_ok_def Let_def mod_Suc_eq less_Suc_eq)

lemma server_new_ok:
  assumes "server_new n now = Some sv"
  shows "server_ok n now now sv"
proof -
  from assms obtain p where p: "pool_new n = Some p" "0 < n"
    by (auto simp: server_new_def Let_def split: option.splits if_splits)
  let ?sv = "\<lparr>sv_sessions = {}, sv_accepting = None, sv_made = 0, sv_service = \<lambda>_. 0,
    sv_deadline = \<lambda>_. 0, sv_pool = pool_run p\<rparr>"
  have "next_io_service (pool_run p) = 0" using pool_new_ok [OF p(1)] by (simp add: pool_run_def)
  then have "\<exists>sv'. do_accept now ?sv = Some sv' \<and> server_ok n now now sv'"
    using do_accept_ok [of n ?sv now] pool_new_ok [OF p(1)] p(2) by auto
  then show ?thesis
    using assms p by (auto simp: server_new_def Let_def split: if_splits)
qed

lemma accept_ok:
  assumes ok: "server_ok n since now sv" and i: "sv_accepting sv = Some i"
  shows "\<exists>sv'. OnAccept now i sv = Some sv' \<and> server_ok n now now sv' \<and> sv_accepting sv' = Some (Suc i)
    \<and> sv_sessions sv' = insert i (sv_sessions sv) \<and> sv_deadline sv' i = since + session_timeout"
proof -
  from ok i have made: "sv_made sv = Suc i" "i \<notin> sv_sessions sv" "sv_deadline sv i = since + session_timeout"
    by (simp_all add: server_ok_def)
  from do_accept_ok [of n sv now] ok obtain sv' where
    sv': "do_accept now sv = Some sv'" "server_ok n now now sv'" "sv_accepting sv' = Some (sv_made sv)"
      "sv_sessions sv' = sv_sessions sv" "sv_made sv' = Suc (sv_made sv)"
      "\<forall>i < sv_made sv. sv_deadline sv' i = sv_deadline sv i"
    unfolding server_ok_def by blast
  moreover have "server_ok n now now (sv'\<lparr>sv_sessions := insert i (sv_sessions sv)\<rparr>)"
    using sv' made by (auto simp: server_ok_def)
  ultimately show ?thesis
    using made by (simp add: OnAccept_def insert_session_def)
qed

lemma server_reach_ok: "server_reach n since now sv \<Longrightarrow> server_ok n since now sv"
proof (induction rule: server_reach.induct)
  case (server_begin now sv)
  then show ?case by (rule server_new_ok)
next
  case (server_tick since now sv now')
  then show ?case by (simp add: server_ok_def)
next
  case (server_accept since now sv i sv')
  with accept_ok [of n since now sv i] show ?case by auto
next
  case (server_accept_error since now sv i)
  then show ?case by (auto simp: server_ok_def OnAccept_error_def)
next
  case (server_erase since now sv i)
  then show ?case by (auto simp: server_ok_def erase_session_def)
qed

text \<open>
  C27. Accepting. In every state the server can reach, an accepted connection is handled without
  a failed assertion: its session is new to the set, the next accept is outstanding, and the
  session runs on service \<open>i mod n\<close>, where \<open>i\<close> counts the sessions.
\<close>

theorem server_accepts:
  assumes "server_reach n since now sv" and "sv_accepting sv = Some i"
  shows "\<exists>sv'. OnAccept now i sv = Some sv' \<and> sv_sessions sv' = insert i (sv_sessions sv) \<and> i \<notin> sv_sessions sv
    \<and> sv_accepting sv' = Some (Suc i) \<and> sv_service sv i = i mod n"
  using server_reach_ok [OF assms(1)] accept_ok [OF server_reach_ok [OF assms(1)] assms(2)] assms(2)
  by (auto simp: server_ok_def)

lemma server_new_4:
  obtains sv where "server_reach 4 0 0 sv" and "sv_accepting sv = Some 0"
proof -
  obtain sv where "server_new 4 0 = Some sv" "sv_accepting sv = Some 0"
    by (simp add: server_new_def pool_new_def pool_run_def wait_init_ends_def do_accept_def get_io_service_def Let_def)
  then show thesis by (intro that server_begin)
qed

lemma server_accepts_witness: "\<exists>sv sv'. OnAccept 0 0 sv = Some sv' \<and> sv_accepting sv' = Some 1"
proof -
  obtain sv where "server_reach 4 0 0 sv" "sv_accepting sv = Some 0" by (rule server_new_4)
  from server_accepts [OF this] show ?thesis by auto
qed

text \<open>
  C28. The 30 seconds of a session run from the time its predecessor was accepted, not from its
  own start: when a connection is accepted that the server has waited for 30 seconds or longer,
  the session's timer has already expired when \<open>start\<close> begins to wait on it.
\<close>

theorem idle_server_drops_next:
  assumes "server_reach n since now sv" and "sv_accepting sv = Some i"
  shows "\<exists>sv'. OnAccept now i sv = Some sv'
    \<and> (timer_expired now i sv' \<longleftrightarrow> since + session_timeout \<le> now)"
  using accept_ok [OF server_reach_ok [OF assms(1)] assms(2)] by (auto simp: timer_expired_def)

lemma idle_server_drops_next_witness: "\<exists>sv sv'. OnAccept 31 0 sv = Some sv' \<and> timer_expired 31 0 sv'"
proof -
  obtain sv where "server_reach 4 0 0 sv" "sv_accepting sv = Some 0" by (rule server_new_4)
  moreover from this(1) have "server_reach 4 0 31 sv" by (rule server_tick) simp
  ultimately show ?thesis
    using idle_server_drops_next [of 4 0 31 sv 0] by (auto simp: session_timeout_def)
qed

text \<open>The steps from a given state on.\<close>

inductive server_steps :: "nat \<Rightarrow> http_server \<Rightarrow> nat \<Rightarrow> http_server \<Rightarrow> bool" where
  steps_none: "server_steps now sv now sv"
| steps_tick: "server_steps now0 sv0 now sv \<Longrightarrow> now \<le> now' \<Longrightarrow> server_steps now0 sv0 now' sv"
| steps_accept:
    "server_steps now0 sv0 now sv \<Longrightarrow> sv_accepting sv = Some i \<Longrightarrow> OnAccept now i sv = Some sv' \<Longrightarrow>
     server_steps now0 sv0 now sv'"
| steps_accept_error:
    "server_steps now0 sv0 now sv \<Longrightarrow> sv_accepting sv = Some i \<Longrightarrow> server_steps now0 sv0 now (OnAccept_error sv)"
| steps_erase: "server_steps now0 sv0 now sv \<Longrightarrow> server_steps now0 sv0 now (erase_session i sv)"

text \<open>
  C29. One failed accept ends the service: afterwards no step makes the server accept again.
\<close>

theorem accept_error_is_final:
  assumes "server_steps now (OnAccept_error sv) now' sv'"
  shows "sv_accepting sv' = None \<and> sv_made sv' = sv_made sv \<and> sv_sessions sv' \<subseteq> sv_sessions sv"
  using assms
  by (induction now "OnAccept_error sv" now' sv' rule: server_steps.induct)
    (auto simp: OnAccept_error_def erase_session_def)

lemma accept_error_is_final_witness: "\<exists>sv. sv_accepting (erase_session 5 (OnAccept_error sv)) = None"
proof -
  have "server_steps 0 (OnAccept_error sv) 0 (erase_session 5 (OnAccept_error sv))" for sv
    by (rule steps_erase [OF steps_none])
  from accept_error_is_final [OF this] show ?thesis by blast
qed

text \<open>
  \<open>run\<close> comes to a regular end only on a machine with exactly two processors.
\<close>

theorem server_run_two_processors: "server_run nprocs = Run_returns \<longleftrightarrow> nprocs = 2"
  by (auto simp: server_run_def Let_def)

end
