(* ===== verification/Db_Pool.thy ===== *)
theory Db_Pool
  imports Byte_Prelude "HOL-Library.Multiset"
begin

text \<open>
  \<open>src/DBConnectPool.h\<close> and \<open>src/DBConnectPool.cpp\<close>: a pool of database connections in a circular
  buffer. \<open>getConn\<close> and \<open>releaseConn\<close> run under \<open>m_lock\<close>; a call that waits on a condition
  variable is one that cannot take its step yet. libpq is a parameter: the connections that
  \<open>PQconnectdbParams\<close> returned, with their status.
\<close>

section \<open>boost::circular\_buffer\<close>

text \<open>A full buffer drops its front when an element is pushed to its back.\<close>

definition push_back :: "nat \<Rightarrow> 'c \<Rightarrow> 'c list \<Rightarrow> 'c list" where
  "push_back cap x xs =
     (if length xs < cap then xs @ [x] else if cap = 0 then xs else tl xs @ [x])"

section \<open>DBConnectPool\<close>

text \<open>
  The buffer and its capacity, the connections that are handed out (each in a \<open>shared_ptr\<close> whose
  deleter returns it), the ones that \<open>PQfinish\<close> has closed, and whether the pool still exists.
\<close>

record 'c db_pool =
  capacity :: nat
  m_connPool :: "'c list"
  handed_out :: "'c list"
  finished :: "'c list"
  pool_alive :: bool

text \<open>The loop of the constructor; None is \<open>exit_nicely\<close>, which ends the program.\<close>

fun connect_all :: "nat \<Rightarrow> ('c \<times> bool) list \<Rightarrow> 'c list \<Rightarrow> 'c list option" where
  "connect_all cap [] buf = Some buf"
| "connect_all cap ((conn, connection_ok) # conns) buf =
     (if \<not> connection_ok then None else connect_all cap conns (push_back cap conn buf))"

definition db_pool_new :: "('c \<times> bool) list \<Rightarrow> 'c db_pool option" where
  "db_pool_new conns =
     map_option (\<lambda>buf. \<lparr>capacity = length conns, m_connPool = buf, handed_out = [], finished = [],
                        pool_alive = True\<rparr>)
       (connect_all (length conns) conns [])"

text \<open>\<open>getConn\<close>; None while it waits for the buffer not to be empty.\<close>

definition getConn :: "'c db_pool \<Rightarrow> ('c \<times> 'c db_pool) option" where
  "getConn p =
     (case m_connPool p of
        [] \<Rightarrow> None
      | conn # buf \<Rightarrow> Some (conn, p\<lparr>m_connPool := buf, handed_out := handed_out p @ [conn]\<rparr>))"

text \<open>\<open>releaseConn\<close>; None while it waits for the buffer not to be full.\<close>

definition releaseConn :: "'c \<Rightarrow> 'c db_pool \<Rightarrow> 'c db_pool option" where
  "releaseConn conn p =
     (if length (m_connPool p) < capacity p
      then Some (p\<lparr>m_connPool := push_back (capacity p) conn (m_connPool p)\<rparr>) else None)"

text \<open>The deleter of the \<open>shared_ptr\<close>, when its last copy of \<open>conn\<close> goes.\<close>

definition conn_deleter :: "'c \<Rightarrow> 'c db_pool \<Rightarrow> 'c db_pool option" where
  "conn_deleter conn p =
     (let p = p\<lparr>handed_out := remove1 conn (handed_out p)\<rparr>
      in if pool_alive p then releaseConn conn p
         else Some (p\<lparr>finished := finished p @ [conn]\<rparr>))"

text \<open>The destructor.\<close>

definition db_pool_delete :: "'c db_pool \<Rightarrow> 'c db_pool" where
  "db_pool_delete p =
     p\<lparr>finished := finished p @ m_connPool p, m_connPool := [], pool_alive := False\<rparr>"

text \<open>
  Any number of threads get connections, drop them and at some time destroy the pool; a getter
  holds a pointer to the pool, so nobody gets one after that.
\<close>

inductive db_reach :: "('c \<times> bool) list \<Rightarrow> 'c db_pool \<Rightarrow> bool" for conns :: "('c \<times> bool) list" where
  db_new: "db_pool_new conns = Some p \<Longrightarrow> db_reach conns p"
| db_get: "db_reach conns p \<Longrightarrow> pool_alive p \<Longrightarrow> getConn p = Some (c, p') \<Longrightarrow> db_reach conns p'"
| db_drop: "db_reach conns p \<Longrightarrow> c \<in> set (handed_out p) \<Longrightarrow> conn_deleter c p = Some p' \<Longrightarrow> db_reach conns p'"
| db_delete: "db_reach conns p \<Longrightarrow> pool_alive p \<Longrightarrow> db_reach conns (db_pool_delete p)"

section \<open>Conservation\<close>

definition db_ok :: "('c \<times> bool) list \<Rightarrow> 'c db_pool \<Rightarrow> bool" where
  "db_ok conns p \<longleftrightarrow>
     mset (m_connPool p) + mset (handed_out p) + mset (finished p) = mset (map fst conns)
     \<and> capacity p = length conns \<and> (pool_alive p \<longrightarrow> finished p = []) \<and> (\<not> pool_alive p \<longrightarrow> m_connPool p = [])"

lemma connect_all_result:
  "connect_all cap conns buf = Some buf' \<Longrightarrow> length buf + length conns \<le> cap \<Longrightarrow> buf' = buf @ map fst conns"
  by (induction cap conns buf rule: connect_all.induct) (auto simp: push_back_def split: if_splits)

lemma db_new_ok: "db_pool_new conns = Some p \<Longrightarrow> db_ok conns p"
  using connect_all_result [of "length conns" conns "[]"] by (auto simp: db_pool_new_def db_ok_def)

text \<open>There is room for every connection that is out.\<close>

lemma db_room:
  assumes "db_ok conns p" "c \<in> set (handed_out p)" "pool_alive p"
  shows "length (m_connPool p) < capacity p"
proof -
  have "size (mset (m_connPool p) + mset (handed_out p) + mset (finished p)) = size (mset (map fst conns))"
    using assms(1) by (simp only: db_ok_def)
  then have "length (m_connPool p) + length (handed_out p) = length conns"
    using assms(1,3) by (simp add: db_ok_def)
  moreover have "0 < length (handed_out p)" using assms(2) by (cases "handed_out p") auto
  moreover have "capacity p = length conns" using assms(1) by (simp add: db_ok_def)
  ultimately show ?thesis by linarith
qed

lemma db_reach_ok: "db_reach conns p \<Longrightarrow> db_ok conns p"
proof (induction rule: db_reach.induct)
  case (db_get p c p')
  then show ?case by (auto simp: getConn_def db_ok_def split: list.splits)
next
  case (db_drop p c p')
  then have "mset (handed_out p) = add_mset c (mset (remove1 c (handed_out p)))" by simp
  with db_drop show ?case
    by (auto simp: conn_deleter_def releaseConn_def push_back_def db_ok_def Let_def simp del: mset_remove1
        split: if_splits)
next
  case (db_delete p)
  then show ?case by (auto simp: db_pool_delete_def db_ok_def ac_simps)
qed (rule db_new_ok)

text \<open>
  C24. Conservation. However threads get, drop and destroy: every connection that the constructor
  opened is at every time in exactly one place, the buffer, one user's hands, or closed; so no
  connection is handed to two users, none is lost, and none is closed twice or while in use.
\<close>

theorem db_pool_conservation:
  assumes "db_reach conns p" and "distinct (map fst conns)"
  shows "distinct (m_connPool p @ handed_out p @ finished p)
    \<and> set (m_connPool p @ handed_out p @ finished p) = fst ` set conns"
proof -
  have "mset (m_connPool p @ handed_out p @ finished p) = mset (map fst conns)"
    using db_reach_ok [OF assms(1)] by (simp add: db_ok_def add.assoc)
  with assms(2) show ?thesis
    by (metis mset_eq_imp_distinct_iff mset_eq_setD set_map)
qed

lemma db_pool_conservation_witness:
  "\<exists>p. db_reach [(1 :: nat, True), (2, True)] p \<and> handed_out p = [1] \<and> distinct (m_connPool p @ handed_out p @ finished p)"
proof -
  obtain p where p: "db_pool_new [(1 :: nat, True), (2, True)] = Some p" "m_connPool p = [1, 2]"
    "pool_alive p" "handed_out p = []"
    by (simp add: db_pool_new_def push_back_def)
  then have "getConn p = Some (1, p\<lparr>m_connPool := [2], handed_out := [1]\<rparr>)" by (simp add: getConn_def)
  with p have reach: "db_reach [(1 :: nat, True), (2, True)] (p\<lparr>m_connPool := [2], handed_out := [1]\<rparr>)"
    by (intro db_get [OF db_new [OF p(1)]])
  from db_pool_conservation [OF reach] reach show ?thesis by fastforce
qed

text \<open>
  C25. Progress. Dropping a connection never waits, whatever the other threads do: its deleter
  always finds room in the buffer, or closes the connection if the pool is gone. \<open>getConn\<close> on a
  pool waits exactly while all its connections are handed out, and gives the one that has been
  in the buffer longest; a pool of no connections makes it wait for ever.
\<close>

theorem db_pool_progress:
  assumes "db_reach conns p"
  shows "(\<forall>c \<in> set (handed_out p). conn_deleter c p \<noteq> None)
    \<and> (pool_alive p \<longrightarrow> (getConn p = None \<longleftrightarrow> mset (handed_out p) = mset (map fst conns)))
    \<and> (\<forall>c p'. getConn p = Some (c, p') \<longrightarrow> c = hd (m_connPool p) \<and> last (handed_out p') = c)"
proof (intro conjI ballI allI impI)
  note ok = db_reach_ok [OF assms]
  fix c assume c: "c \<in> set (handed_out p)"
  then show "conn_deleter c p \<noteq> None"
    using db_room [OF ok c] by (simp add: conn_deleter_def releaseConn_def Let_def)
next
  assume "pool_alive p"
  with db_reach_ok [OF assms] show "getConn p = None \<longleftrightarrow> mset (handed_out p) = mset (map fst conns)"
    by (cases "m_connPool p") (auto simp: getConn_def db_ok_def)
next
  fix c p' assume "getConn p = Some (c, p')"
  then show "c = hd (m_connPool p)" "last (handed_out p') = c"
    by (auto simp: getConn_def split: list.splits)
qed

lemma db_pool_progress_witness: "\<exists>p. db_pool_new [(1 :: nat, True)] = Some p \<and> getConn p \<noteq> None"
proof -
  obtain p where p: "db_pool_new [(1 :: nat, True)] = Some p" "pool_alive p" "handed_out p = []"
    by (simp add: db_pool_new_def)
  with db_pool_progress [OF db_new [OF p(1)]] show ?thesis by auto
qed

end
