(* ===== verification/Base64.thy ===== *)
theory Base64
  imports Checked_Int
begin

text \<open>
  \<open>src/Base64.cpp\<close>: the Base64 encoder and decoder, over bytes as 8-bit words. \<open>a3\<close> and \<open>a4\<close> are
  the triples and quadruples of the code; the list that a loop carries holds the \<open>i\<close> elements of
  the array that have been assigned.
\<close>

section \<open>Code\<close>

definition ascii :: "char \<Rightarrow> uint8" where
  "ascii c = of_char c"

definition b64_alphabet :: "uint8 list" where
  "b64_alphabet = map ascii (''ABCDEFGHIJKLMNOPQRSTUVWXYZ'' @ ''abcdefghijklmnopqrstuvwxyz'' @ ''0123456789+/'')"

definition a3_to_a4 :: "uint8 \<Rightarrow> uint8 \<Rightarrow> uint8 \<Rightarrow> uint8 list" where
  "a3_to_a4 x0 x1 x2 =
     [drop_bit 2 (x0 AND 0xfc),
      push_bit 4 (x0 AND 0x03) + drop_bit 4 (x1 AND 0xf0),
      push_bit 2 (x1 AND 0x0f) + drop_bit 6 (x2 AND 0xc0),
      x2 AND 0x3f]"

definition a4_to_a3 :: "uint8 \<Rightarrow> uint8 \<Rightarrow> uint8 \<Rightarrow> uint8 \<Rightarrow> uint8 list" where
  "a4_to_a3 y0 y1 y2 y3 =
     [push_bit 2 y0 + drop_bit 4 (y1 AND 0x30),
      push_bit 4 (y1 AND 0xf) + drop_bit 2 (y2 AND 0x3c),
      push_bit 6 (y2 AND 0x3) + y3]"

text \<open>The comparisons are of signed chars in the code: a byte of 128 and more fails them all.\<close>

definition b64_lookup :: "uint8 \<Rightarrow> uint8" where
  "b64_lookup c =
     (if ascii (CHR ''A'') \<le> c \<and> c \<le> ascii (CHR ''Z'') then c - ascii (CHR ''A'')
      else if ascii (CHR ''a'') \<le> c \<and> c \<le> ascii (CHR ''z'') then c - 71
      else if ascii (CHR ''0'') \<le> c \<and> c \<le> ascii (CHR ''9'') then c + 4
      else if c = ascii (CHR ''+'') then 62
      else if c = ascii (CHR ''/'') then 63
      else - 1)"

abbreviation letters :: "uint8 list \<Rightarrow> uint8 list" where
  "letters a4 \<equiv> map (\<lambda>v. b64_alphabet ! unat v) a4"

text \<open>The loop of \<open>base64_encode\<close>, and the rest after it; the output without the final NUL.\<close>

fun encode_rest :: "uint8 list \<Rightarrow> uint8 list" where
  "encode_rest [] = []"
| "encode_rest [x0] = take 2 (letters (a3_to_a4 x0 0 0)) @ [ascii (CHR ''=''), ascii (CHR ''='')]"
| "encode_rest (x0 # x1 # xs) = take 3 (letters (a3_to_a4 x0 x1 0)) @ [ascii (CHR ''='')]"

fun encode_loop :: "uint8 list \<Rightarrow> uint8 list \<Rightarrow> uint8 list" where
  "encode_loop a3 [] = encode_rest a3"
| "encode_loop a3 (x # input) =
     (let a3 = a3 @ [x]
      in if length a3 = 3 then letters (a3_to_a4 (a3 ! 0) (a3 ! 1) (a3 ! 2)) @ encode_loop [] input
         else encode_loop a3 input)"

definition base64_encode :: "uint8 list \<Rightarrow> uint8 list" where
  "base64_encode input = encode_loop [] input"

text \<open>The loop of \<open>base64_decode\<close>, which \<open>=\<close> ends, and the rest after it.\<close>

definition decode_group :: "uint8 list \<Rightarrow> uint8 list" where
  "decode_group a4 =
     a4_to_a3 (b64_lookup (a4 ! 0)) (b64_lookup (a4 ! 1)) (b64_lookup (a4 ! 2)) (b64_lookup (a4 ! 3))"

definition decode_rest :: "uint8 list \<Rightarrow> uint8 list" where
  "decode_rest a4 =
     (if a4 = [] then [] else take (length a4 - 1) (decode_group (a4 @ replicate (4 - length a4) 0)))"

fun decode_loop :: "uint8 list \<Rightarrow> uint8 list \<Rightarrow> uint8 list" where
  "decode_loop a4 [] = decode_rest a4"
| "decode_loop a4 (c # input) =
     (if c = ascii (CHR ''='') then decode_rest a4
      else let a4 = a4 @ [c]
           in if length a4 = 4 then decode_group a4 @ decode_loop [] input
              else decode_loop a4 input)"

definition base64_decode :: "uint8 list \<Rightarrow> uint8 list" where
  "base64_decode input = decode_loop [] input"

text \<open>
  What the two functions return: \<open>encLen\<close> and \<open>decLen\<close> are \<open>int\<close>s that are incremented with every
  byte that is written. None is the overflow.
\<close>

definition base64_encode_result :: "uint8 list \<Rightarrow> int option" where
  "base64_encode_result input = count_up (base64_encode input) 0"

definition base64_decode_result :: "uint8 list \<Rightarrow> int option" where
  "base64_decode_result input = count_up (base64_decode input) 0"

text \<open>The length functions, in the arithmetic of \<open>int\<close>.\<close>

definition base64_enc_len :: "int \<Rightarrow> int option" where
  "base64_enc_len plainLen =
     (let n = plainLen
      in do {
        m \<leftarrow> c_add n 2;
        r \<leftarrow> c_mod m 3;
        d \<leftarrow> c_sub m r;
        q \<leftarrow> c_div d 3;
        c_mul q 4
      })"

text \<open>The loop from the end counts \<open>=\<close>; None is a read before the string.\<close>

fun count_eq :: "uint8 list \<Rightarrow> int \<Rightarrow> int option" where
  "count_eq [] numEq = None"
| "count_eq (c # rev_input) numEq =
     (if c = ascii (CHR ''='') then c_add numEq 1 \<bind> count_eq rev_input else Some numEq)"

definition base64_dec_len :: "uint8 list \<Rightarrow> int option" where
  "base64_dec_len input =
     (let inputLen = int (length input)
      in do {
        numEq \<leftarrow> count_eq (rev input) 0;
        m \<leftarrow> c_mul 6 inputLen;
        q \<leftarrow> c_div m 8;
        c_sub q numEq
      })"

section \<open>Groups\<close>

lemma alphabet_lookup_all: "map b64_lookup b64_alphabet = map of_nat [0..<64]"
  by (simp add: b64_alphabet_def b64_lookup_def ascii_def upt_rec)

lemma b64_lookup_eq: "b64_lookup (ascii (CHR ''='')) = - 1"
  by (simp add: b64_lookup_def ascii_def)

lemma length_b64_alphabet: "length b64_alphabet = 64"
  by (simp add: b64_alphabet_def)

lemma alphabet_lookup:
  assumes "v < 64"
  shows "b64_lookup (b64_alphabet ! unat v) = v" "b64_alphabet ! unat v \<noteq> ascii (CHR ''='')"
proof -
  have v: "unat v < 64" using assms by (simp add: word_less_nat_alt)
  then have "map b64_lookup b64_alphabet ! unat v = of_nat (unat v)"
    unfolding alphabet_lookup_all by (subst nth_map) simp_all
  with v show lookup: "b64_lookup (b64_alphabet ! unat v) = v"
    by (simp add: length_b64_alphabet)
  show "b64_alphabet ! unat v \<noteq> ascii (CHR ''='')"
  proof
    assume "b64_alphabet ! unat v = ascii (CHR ''='')"
    with lookup have "v = - 1" by (simp add: b64_lookup_eq)
    with assms show False by simp
  qed
qed

text \<open>The quadruple of a triple has values below 64, and gives the triple back.\<close>

lemma byte_eqI:
  fixes a b :: uint8
  assumes "bit a 0 = bit b 0" "bit a 1 = bit b 1" "bit a 2 = bit b 2" "bit a 3 = bit b 3"
    "bit a 4 = bit b 4" "bit a 5 = bit b 5" "bit a 6 = bit b 6" "bit a 7 = bit b 7"
  shows "a = b"
proof (rule bit_word_eqI)
  fix n assume "n < LENGTH(8)"
  then have "n \<in> {0, 1, 2, 3, 4, 5, 6, 7}" by auto
  with assms show "bit a n = bit b n" by blast
qed

lemma a3_to_a4_or:
  "a3_to_a4 x0 x1 x2 =
     [drop_bit 2 (x0 AND 0xfc), push_bit 4 (x0 AND 0x03) OR drop_bit 4 (x1 AND 0xf0),
      push_bit 2 (x1 AND 0x0f) OR drop_bit 6 (x2 AND 0xc0), x2 AND 0x3f]"
proof -
  have "push_bit 4 (x0 AND 0x03) AND drop_bit 4 (x1 AND 0xf0) = 0"
    "push_bit 2 (x1 AND 0x0f) AND drop_bit 6 (x2 AND 0xc0) = 0"
    by (rule byte_eqI; simp add: bit_simps)+
  then show ?thesis by (simp add: a3_to_a4_def disjunctive_add_eq_or)
qed

lemma below_64:
  fixes v :: uint8
  assumes "\<not> bit v 6" "\<not> bit v 7"
  shows "v < 64"
proof -
  have "take_bit 6 v = v" by (rule byte_eqI) (simp_all add: bit_take_bit_iff assms)
  then have "unat v = take_bit 6 (unat v)" by (metis unsigned_take_bit_eq)
  then have "unat v < 64" using take_bit_nat_less_exp [of 6 "unat v"] by simp
  then show ?thesis by (simp add: word_less_nat_alt)
qed

lemma a3_to_a4_range: "v \<in> set (a3_to_a4 x0 x1 x2) \<Longrightarrow> v < 64"
  by (auto simp: a3_to_a4_or bit_simps intro!: below_64)

lemma a4_to_a3_or:
  "a4_to_a3 y0 y1 y2 (y3 AND 0x3f) =
     [push_bit 2 y0 OR drop_bit 4 (y1 AND 0x30), push_bit 4 (y1 AND 0xf) OR drop_bit 2 (y2 AND 0x3c),
      push_bit 6 (y2 AND 0x3) OR (y3 AND 0x3f)]"
proof -
  have "push_bit 2 y0 AND drop_bit 4 (y1 AND 0x30) = 0"
    "push_bit 4 (y1 AND 0xf) AND drop_bit 2 (y2 AND 0x3c) = 0"
    "push_bit 6 (y2 AND 0x3) AND (y3 AND 0x3f) = 0"
    by (rule byte_eqI; simp add: bit_simps)+
  then show ?thesis by (simp add: a4_to_a3_def disjunctive_add_eq_or)
qed

lemma a4_to_a3_inverse:
  assumes "a3_to_a4 x0 x1 x2 = [y0, y1, y2, y3]"
  shows "a4_to_a3 y0 y1 y2 y3 = [x0, x1, x2]"
proof -
  have y: "y0 = drop_bit 2 (x0 AND 0xfc)" "y1 = push_bit 4 (x0 AND 0x03) OR drop_bit 4 (x1 AND 0xf0)"
    "y2 = push_bit 2 (x1 AND 0x0f) OR drop_bit 6 (x2 AND 0xc0)" "y3 = x2 AND 0x3f"
    using assms by (simp_all add: a3_to_a4_or)
  have "push_bit 2 y0 OR drop_bit 4 (y1 AND 0x30) = x0"
    "push_bit 4 (y1 AND 0xf) OR drop_bit 2 (y2 AND 0x3c) = x1"
    "push_bit 6 (y2 AND 0x3) OR (x2 AND 0x3f) = x2"
    by (rule byte_eqI; simp add: bit_simps y)+
  then show ?thesis by (simp add: y(4) a4_to_a3_or)
qed

text \<open>The first bytes of a triple do not depend on the quadruple's elements that are left out.\<close>

lemma a4_to_a3_take:
  "take 1 (a4_to_a3 y0 y1 y2 y3) = take 1 (a4_to_a3 y0 y1 y2' y3')"
  "take 2 (a4_to_a3 y0 y1 y2 y3) = take 2 (a4_to_a3 y0 y1 y2 y3')"
  by (simp_all add: a4_to_a3_def eval_nat_numeral)

section \<open>Round trip\<close>

lemma quadruple:
  obtains y0 y1 y2 y3 where "a3_to_a4 x0 x1 x2 = [y0, y1, y2, y3]"
    and "y0 < 64" "y1 < 64" "y2 < 64" "y3 < 64" and "a4_to_a3 y0 y1 y2 y3 = [x0, x1, x2]"
proof -
  obtain y0 y1 y2 y3 where y: "a3_to_a4 x0 x1 x2 = [y0, y1, y2, y3]" by (simp add: a3_to_a4_def)
  with a3_to_a4_range [of _ x0 x1 x2] a4_to_a3_inverse [OF y] show thesis by (intro that) simp_all
qed

lemma decode_letters:
  fixes v :: uint8
  assumes "v < 64"
  shows "decode_loop a4 ((b64_alphabet ! unat v) # input) =
    (if length (a4 @ [b64_alphabet ! unat v]) = 4 then decode_group (a4 @ [b64_alphabet ! unat v]) @ decode_loop [] input
     else decode_loop (a4 @ [b64_alphabet ! unat v]) input)"
  using alphabet_lookup(2) [OF assms] by (simp add: Let_def)

lemma decode_triple: "decode_loop [] (letters (a3_to_a4 x0 x1 x2) @ input) = [x0, x1, x2] @ decode_loop [] input"
proof -
  obtain y0 y1 y2 y3 where "a3_to_a4 x0 x1 x2 = [y0, y1, y2, y3]"
    "y0 < 64" "y1 < 64" "y2 < 64" "y3 < 64" "a4_to_a3 y0 y1 y2 y3 = [x0, x1, x2]"
    by (rule quadruple)
  then show ?thesis
    by (simp add: decode_letters decode_group_def alphabet_lookup eval_nat_numeral del: decode_loop.simps(2))
qed

lemma decode_encode_rest:
  assumes "length a3 < 3"
  shows "decode_loop [] (encode_rest a3) = a3"
proof (cases a3 rule: encode_rest.cases)
  case (2 x0)
  obtain y0 y1 y2 y3 where y: "a3_to_a4 x0 0 0 = [y0, y1, y2, y3]" "y0 < 64" "y1 < 64"
    "a4_to_a3 y0 y1 y2 y3 = [x0, 0, 0]" by (rule quadruple)
  have "take 1 (a4_to_a3 y0 y1 (b64_lookup 0) (b64_lookup 0)) = [x0]"
    using a4_to_a3_take(1) [of y0 y1 y2 y3] y(4) by simp
  with y 2 show ?thesis
    by (simp add: decode_letters decode_rest_def decode_group_def alphabet_lookup eval_nat_numeral
        del: decode_loop.simps(2)) (simp add: decode_rest_def decode_group_def alphabet_lookup eval_nat_numeral)
next
  case (3 x0 x1 xs)
  with assms have "a3 = [x0, x1]" by simp
  obtain y0 y1 y2 y3 where y: "a3_to_a4 x0 x1 0 = [y0, y1, y2, y3]" "y0 < 64" "y1 < 64" "y2 < 64"
    "a4_to_a3 y0 y1 y2 y3 = [x0, x1, 0]" by (rule quadruple)
  have "take 2 (a4_to_a3 y0 y1 y2 (b64_lookup 0)) = [x0, x1]"
    using a4_to_a3_take(2) [of y0 y1 y2 y3] y(5) by simp
  with y \<open>a3 = [x0, x1]\<close> show ?thesis
    by (simp add: decode_letters decode_rest_def decode_group_def alphabet_lookup eval_nat_numeral
        del: decode_loop.simps(2)) (simp add: decode_rest_def decode_group_def alphabet_lookup eval_nat_numeral)
qed (simp add: decode_rest_def)

lemma decode_encode_loop: "length a3 < 3 \<Longrightarrow> decode_loop [] (encode_loop a3 input) = a3 @ input"
proof (induction a3 input rule: encode_loop.induct)
  case (1 a3)
  then show ?case by (simp add: decode_encode_rest)
next
  case (2 a3 x input)
  show ?case
  proof (cases "length (a3 @ [x]) = 3")
    case True
    then obtain x0 x1 where "a3 = [x0, x1]"
      by (auto simp: length_Suc_conv eval_nat_numeral)
    with 2(1) [OF refl] show ?thesis
      by (simp add: Let_def decode_triple)
  next
    case False
    with 2 show ?thesis by (simp add: Let_def)
  qed
qed

text \<open>
  C30. Round trip: \<open>base64_decode\<close> of what \<open>base64_encode\<close> wrote is the input, for every
  sequence of bytes.
\<close>

theorem base64_round_trip: "base64_decode (base64_encode xs) = xs"
  using decode_encode_loop [of "[]" xs] by (simp add: base64_decode_def base64_encode_def)

section \<open>Lengths\<close>

lemma length_a3_to_a4 [simp]: "length (a3_to_a4 x0 x1 x2) = 4"
  by (simp add: a3_to_a4_def)

lemma length_encode_loop:
  "length a3 < 3 \<Longrightarrow> length (encode_loop a3 input) = (length a3 + length input + 2) div 3 * 4"
proof (induction a3 input rule: encode_loop.induct)
  case (1 a3)
  then show ?case by (cases a3 rule: encode_rest.cases) simp_all
next
  case (2 a3 x input)
  show ?case
  proof (cases "length (a3 @ [x]) = 3")
    case True
    then have "length a3 + length (x # input) + 2 = 3 + (length input + 2)" by simp
    then have "(length a3 + length (x # input) + 2) div 3 = Suc ((length input + 2) div 3)"
      by (simp only: div_add_self1)
    with True 2(1) [OF refl] show ?thesis by (simp add: Let_def)
  next
    case False
    with 2 show ?thesis by (simp add: Let_def)
  qed
qed

text \<open>The digits are letters of the alphabet, and the padding is at the end.\<close>

definition is_letter :: "uint8 \<Rightarrow> bool" where
  "is_letter c \<longleftrightarrow> c \<in> set b64_alphabet"

lemma letters_alphabet: "list_all is_letter (letters (a3_to_a4 x0 x1 x2))"
  using a3_to_a4_range [of _ x0 x1 x2]
  by (auto simp: is_letter_def word_less_nat_alt length_b64_alphabet list_all_iff intro!: nth_mem)

lemma letters_take: "list_all is_letter (take n (letters (a3_to_a4 x0 x1 x2)))"
  using letters_alphabet [of x0 x1 x2] set_take_subset [of n "letters (a3_to_a4 x0 x1 x2)"]
  unfolding list_all_iff by blast

lemma letters_nonempty: "0 < n \<Longrightarrow> take n (letters (a3_to_a4 x0 x1 x2)) \<noteq> []" "letters (a3_to_a4 x0 x1 x2) \<noteq> []"
  by (simp_all add: a3_to_a4_def)

lemma letter_not_eq: "is_letter c \<Longrightarrow> c \<noteq> ascii (CHR ''='')"
  by (auto simp: is_letter_def b64_alphabet_def ascii_def)

definition padding :: "nat \<Rightarrow> nat" where
  "padding n = (if n mod 3 = 0 then 0 else 3 - n mod 3)"

lemma shapeI:
  "enc = ls @ rest \<Longrightarrow> list_all is_letter ls \<Longrightarrow> ls \<noteq> [] \<Longrightarrow>
   \<exists>ls. enc = ls @ rest \<and> list_all is_letter ls \<and> (c \<longrightarrow> ls \<noteq> [])"
  by blast

lemma length_one: "padding (length [x :: uint8]) = 2"
  by (simp add: padding_def)

lemma two: "replicate 2 x = [x, x]"
  by (simp add: numeral_2_eq_2)

lemma encode_rest_shape:
  assumes "length a3 < 3"
  shows "\<exists>ls. encode_rest a3 = ls @ replicate (padding (length a3)) (ascii (CHR ''='')) \<and> list_all is_letter ls
    \<and> (a3 \<noteq> [] \<longrightarrow> ls \<noteq> [])"
proof (cases a3 rule: encode_rest.cases)
  case (2 x0)
  have "encode_rest a3 = take 2 (letters (a3_to_a4 x0 0 0)) @ replicate (padding (length a3)) (ascii (CHR ''=''))"
    unfolding 2 by (simp only: encode_rest.simps length_one two)
  then show ?thesis by (rule shapeI [OF _ letters_take letters_nonempty(1)]) simp
next
  case (3 x0 x1 xs)
  with assms have "encode_rest a3 = take 3 (letters (a3_to_a4 x0 x1 0)) @ replicate (padding (length a3)) (ascii (CHR ''=''))"
    by (simp add: padding_def)
  then show ?thesis by (rule shapeI [OF _ letters_take letters_nonempty(1)]) simp
qed (simp add: padding_def)

lemma encode_shape:
  "length a3 < 3 \<Longrightarrow> \<exists>ls. encode_loop a3 input = ls @ replicate (padding (length a3 + length input)) (ascii (CHR ''=''))
    \<and> list_all is_letter ls \<and> (a3 @ input \<noteq> [] \<longrightarrow> ls \<noteq> [])"
proof (induction a3 input rule: encode_loop.induct)
  case (1 a3)
  then show ?case using encode_rest_shape [of a3] by simp
next
  case (2 a3 x input)
  show ?case
  proof (cases "length (a3 @ [x]) = 3")
    case True
    with 2(1) [OF refl] obtain ls where
      "encode_loop [] input = ls @ replicate (padding (length input)) (ascii (CHR ''=''))" "list_all is_letter ls"
      by auto
    moreover have "padding (length a3 + length (x # input)) = padding (length input)"
      using True by (simp add: padding_def)
    moreover define w where "w = letters (a3_to_a4 ((a3 @ [x]) ! 0) ((a3 @ [x]) ! 1) ((a3 @ [x]) ! 2))"
    moreover have "encode_loop a3 (x # input) = w @ encode_loop [] input"
      using True by (simp add: Let_def w_def)
    ultimately have "encode_loop a3 (x # input) =
        (w @ ls) @ replicate (padding (length a3 + length (x # input))) (ascii (CHR ''=''))"
      by (simp only: append.assoc)
    moreover have "list_all is_letter (w @ ls)" "w @ ls \<noteq> []"
      using letters_alphabet letters_nonempty(2) \<open>list_all is_letter ls\<close> by (simp_all add: w_def)
    ultimately show ?thesis by (rule shapeI)
  next
    case False
    with 2 show ?thesis by (auto simp: Let_def)
  qed
qed

lemma count_eq_padding:
  "list_all is_letter ls \<Longrightarrow> ls \<noteq> [] \<Longrightarrow> 0 \<le> k \<Longrightarrow> k + int n \<le> INT_MAX \<Longrightarrow>
   count_eq (replicate n (ascii (CHR ''='')) @ rev ls) k = Some (k + int n)"
proof (induction n arbitrary: k)
  case 0
  then show ?case
    using letter_not_eq [of "last ls"] by (cases ls rule: rev_cases) auto
qed (simp add: int_simps int32_nat)

lemma dec_len_arith: "6 * int ((n + 2) div 3 * 4) div 8 - int (padding n) = int n"
proof -
  define q r where "q = n div 3" and "r = n mod 3"
  then have n: "n = 3 * q + r" and "r < 3" by simp_all
  then consider "r = 0" | "r = 1" | "r = 2" by linarith
  then have "6 * int ((3 * q + r + 2) div 3 * 4) div 8 - int (if r = 0 then 0 else 3 - r) = int (3 * q + r)"
    by cases simp_all
  moreover have "padding n = (if r = 0 then 0 else 3 - r)" by (simp add: padding_def r_def)
  ultimately show ?thesis by (simp only: n)
qed

text \<open>The length functions on lengths, with their overflows.\<close>

lemma encoded_fits: "(n + 2) div 3 * 4 \<le> (2147483647 :: nat) \<longleftrightarrow> n \<le> 1610612733"
proof -
  have "(n + 2) div 3 * 4 \<le> (2147483647 :: nat) \<longleftrightarrow> (n + 2) div 3 < 536870912" by linarith
  also have "\<dots> \<longleftrightarrow> n + 2 < 536870912 * 3" by (rule div_less_iff_less_mult) simp
  finally show ?thesis by linarith
qed

lemma encoded_fits_6: "(n + 2) div 3 * 4 \<le> (357913941 :: nat) \<longleftrightarrow> n \<le> 268435455"
proof -
  have "(n + 2) div 3 * 4 \<le> (357913941 :: nat) \<longleftrightarrow> (n + 2) div 3 < 89478486" by linarith
  also have "\<dots> \<longleftrightarrow> n + 2 < 89478486 * 3" by (rule div_less_iff_less_mult) simp
  finally show ?thesis by linarith
qed

lemma enc_len_value:
  "base64_enc_len (int n) = (if n \<le> 1610612733 then Some (int ((n + 2) div 3 * 4)) else None)"
proof -
  define r where "r = (int n + 2) mod 3"
  have r: "0 \<le> r" "r \<le> 2" "r \<le> int n + 2" unfolding r_def by presburger+
  have q: "(int n + 2 - r) div 3 = int ((n + 2) div 3)" unfolding r_def by presburger
  show ?thesis
  proof (cases "n \<le> 2147483645")
    case True
    have "c_add (int n) 2 = Some (int n + 2)"
      using True unfolding c_add_def by (intro int32_fits) (simp_all add: INT_MAX_def INT_MIN_def)
    moreover have "c_mod (int n + 2) 3 = Some r"
      using r unfolding c_mod_def by (simp add: smod_nonneg int32_nat INT_MAX_def flip: r_def)
    moreover have "c_sub (int n + 2) r = Some (int n + 2 - r)"
      using True r unfolding c_sub_def by (intro int32_fits) (simp_all add: INT_MAX_def INT_MIN_def)
    moreover have "c_div (int n + 2 - r) 3 = int32 (int ((n + 2) div 3))"
      using r unfolding c_div_def by (subst sdiv_nonneg) (simp_all only: q, simp_all)
    moreover have "int32 (int ((n + 2) div 3)) = Some (int ((n + 2) div 3))"
      using True by (intro int32_fits) (simp_all add: INT_MAX_def INT_MIN_def)
    ultimately have "base64_enc_len (int n) = int32 (int ((n + 2) div 3 * 4))"
      by (simp only: base64_enc_len_def Let_def c_mul_def of_nat_mult of_nat_numeral Option.bind_lunit)
    moreover have "int ((n + 2) div 3 * 4) \<le> INT_MAX \<longleftrightarrow> n \<le> 1610612733"
      unfolding int_le_max by (rule encoded_fits)
    ultimately show ?thesis by (simp only: int32_nat [OF of_nat_0_le_iff])
  next
    case False
    then show ?thesis
      by (simp add: base64_enc_len_def Let_def int_simps int32_nat INT_MAX_def)
  qed
qed

lemma dec_len_value:
  assumes "count_eq (rev input) 0 = Some k" "0 \<le> k" "k \<le> 6 * int (length input) div 8"
  shows "base64_dec_len input =
    (if length input \<le> 357913941 then Some (6 * int (length input) div 8 - k) else None)"
proof -
  have "6 * int (length input) \<le> INT_MAX \<longleftrightarrow> length input \<le> 357913941"
    unfolding INT_MAX_def by linarith
  then have m: "c_mul 6 (int (length input)) =
      (if length input \<le> 357913941 then Some (6 * int (length input)) else None)"
    by (simp add: c_mul_def int32_nat)
  have fits: "n \<le> 357913941 \<Longrightarrow> 6 * int n div 8 \<le> INT_MAX" for n
    unfolding INT_MAX_def by linarith
  have "c_div (6 * int (length input)) 8 = Some (6 * int (length input) div 8)" if "length input \<le> 357913941"
    unfolding c_div_def by (simp only: sdiv_nonneg int32_nat fits [OF that] if_True) simp
  moreover have "c_sub (6 * int (length input) div 8) k = Some (6 * int (length input) div 8 - k)"
    if "length input \<le> 357913941"
    using assms fits [OF that] by (simp only: c_sub_def) (rule int32_fits; simp add: INT_MIN_def)
  ultimately show ?thesis by (simp add: base64_dec_len_def Let_def assms(1) m)
qed

text \<open>
  C31. Lengths and alphabet, in the 32-bit arithmetic of the code. \<open>base64_encode\<close> returns exactly
  what \<open>base64_enc_len\<close> says, and both overflow (None) for the same inputs, those of more than
  1610612733 bytes; otherwise the result is the number of bytes written. These are letters of the
  alphabet followed by at most two \<open>=\<close>. \<open>base64_decode\<close> of the encoding returns the number of
  bytes that were encoded, up to the largest \<open>int\<close>. \<open>base64_dec_len\<close> of the encoding is the number
  of bytes that were encoded for 1 to 268435455 of them; beyond this its \<open>6 * inputLen\<close> overflows,
  and of an empty string it reads the byte before the string.
\<close>

theorem base64_lengths:
  "base64_encode_result xs = base64_enc_len (int (length xs))
   \<and> base64_enc_len (int (length xs)) =
       (if length xs \<le> 1610612733 then Some (int (length (base64_encode xs))) else None)
   \<and> (\<exists>ls n. base64_encode xs = ls @ replicate n (ascii (CHR ''='')) \<and> n \<le> 2 \<and> list_all is_letter ls)
   \<and> base64_decode_result (base64_encode xs) =
       (if length xs \<le> 2147483647 then Some (int (length xs)) else None)
   \<and> base64_dec_len (base64_encode xs) =
       (if xs = [] \<or> 268435455 < length xs then None else Some (int (length xs)))"
proof (intro conjI)
  have len: "length (base64_encode xs) = (length xs + 2) div 3 * 4"
    using length_encode_loop [of "[]" xs] by (simp add: base64_encode_def)
  then show enc: "base64_enc_len (int (length xs)) =
       (if length xs \<le> 1610612733 then Some (int (length (base64_encode xs))) else None)"
    by (simp only: enc_len_value)
  have "int (length (base64_encode xs)) \<le> INT_MAX \<longleftrightarrow> length xs \<le> 1610612733"
    unfolding len int_le_max by (rule encoded_fits)
  then show "base64_encode_result xs = base64_enc_len (int (length xs))"
    unfolding enc base64_encode_result_def
    by (subst count_up_fits) (simp_all add: INT_MAX_def del: of_nat_le_iff)
  have decode: "base64_decode (base64_encode xs) = xs"
    using decode_encode_loop [of "[]" xs] by (simp add: base64_decode_def base64_encode_def)
  then show "base64_decode_result (base64_encode xs) =
       (if length xs \<le> 2147483647 then Some (int (length xs)) else None)"
    by (simp add: base64_decode_result_def count_up_fits INT_MAX_def)
  from encode_shape [of "[]" xs] obtain ls where
    ls: "base64_encode xs = ls @ replicate (padding (length xs)) (ascii (CHR ''=''))"
      "list_all is_letter ls" "xs \<noteq> [] \<longrightarrow> ls \<noteq> []"
    by (auto simp: base64_encode_def)
  moreover have pad: "padding (length xs) \<le> 2" unfolding padding_def by presburger
  ultimately show "\<exists>ls n. base64_encode xs = ls @ replicate n (ascii (CHR ''='')) \<and> n \<le> 2 \<and> list_all is_letter ls"
    by blast
  show "base64_dec_len (base64_encode xs) = (if xs = [] \<or> 268435455 < length xs then None else Some (int (length xs)))"
  proof (cases "xs = []")
    case True
    then show ?thesis by (simp add: base64_dec_len_def base64_encode_def)
  next
    case False
    with ls pad have "count_eq (rev (base64_encode xs)) 0 = Some (int (padding (length xs)))"
      using count_eq_padding [OF ls(2), of 0 "padding (length xs)"] by (simp add: INT_MAX_def)
    moreover have "6 * int (length (base64_encode xs)) div 8 - int (padding (length xs)) = int (length xs)"
      unfolding len by (rule dec_len_arith)
    moreover have "length (base64_encode xs) \<le> 357913941 \<longleftrightarrow> length xs \<le> 268435455"
      unfolding len by (rule encoded_fits_6)
    ultimately show ?thesis using False by (subst dec_len_value) auto
  qed
qed

end
