(* ===== verification/Body_Reads.thy ===== *)
theory Body_Reads
  imports Session_Requests
begin

text \<open>
  The head of a request with a part of its body: the parser shows the application this part, and
  waits for the rest. Then several reads of a connection, one after another.
\<close>

section \<open>A part of a body\<close>

text \<open>A parser with \<open>n\<close> bytes of a body to come.\<close>

definition in_body :: "nat \<Rightarrow> http_parser \<Rightarrow> bool" where
  "in_body n ps \<longleftrightarrow> p_type ps = HTTP_REQUEST
     \<and> (\<exists>ps0 m h idx. ps = rq ps0 m (1, 1) (of_nat n) False 0 s_body_identity h idx)"

lemma rest_of_body:
  assumes "length b < n" "n < 2 ^ 60" "length b < 2 ^ 64"
  shows "min (of_nat n :: uint64) (of_nat (length b)) = of_nat (length b)"
    "(of_nat n :: uint64) \<noteq> 0" "(of_nat n :: uint64) \<noteq> ULLONG_MAX" "(of_nat n :: uint64) \<noteq> of_nat (length b)"
    "(of_nat n - of_nat (length b) :: uint64) = of_nat (n - length b)" "unat (of_nat (length b) :: uint64) = length b"
proof -
  have u: "unat (of_nat n :: uint64) = n" "unat (of_nat (length b) :: uint64) = length b"
    using assms by (simp_all add: unat_of_nat_small)
  then show "unat (of_nat (length b) :: uint64) = length b" by simp
  show "min (of_nat n :: uint64) (of_nat (length b)) = of_nat (length b)"
    using u assms(1) by (simp add: min_def word_le_nat_alt)
  show "(of_nat n :: uint64) \<noteq> 0" using u(1) assms(1) by auto
  show "(of_nat n :: uint64) \<noteq> ULLONG_MAX" using u(1) assms(2) by (auto simp: ULLONG_MAX_def)
  show "(of_nat n - of_nat (length b) :: uint64) = of_nat (n - length b)" using assms(1) by (simp add: of_nat_diff)
  show "(of_nat n :: uint64) \<noteq> of_nat (length b)" using u assms(1) by (metis less_irrefl)
qed

context passive_client
begin

lemma body_part_end:
  "go cfg d s_body_identity (length d) (\<lambda>_. None) (rq ps m v cl up k st h idx) u =
     Some (Returned (length d) (rq ps m v cl up k s_body_identity h idx) u)"
  unfolding go_def
  by (subst exec_loop.simps) (simp add: here_def exec_finish_def assert_then_def CALLBACK_DATA_NOADVANCE_def
      CALLBACK_DATA_at_def RETURN_def outcome_result_def rqf_def)

lemma body_part_flush:
  assumes "i \<le> length d"
  shows "go cfg d s_body_identity (length d) ((\<lambda>_. None)(FOR_body := Some i)) (rq ps m v cl up k st h idx) u =
     Some (Returned (length d) (rq ps m v cl up k s_body_identity h idx) (eff_data FOR_body i (drop i d) u))"
proof -
  let ?l = "here s_body_identity (length d) ((\<lambda>_. None)(FOR_body := Some i)) (rq ps m v cl up k st h idx) u"
  let ?k = "CALLBACK_DATA_NOADVANCE cfg d FOR_status (RETURN (length d))"
  obtain st' where "CALLBACK_DATA_at cfg d FOR_body (\<lambda>m. pos ?l - m) (pos ?l) ?k ?l =
      ?k (?l\<lparr>parser := (parser ?l)\<lparr>state := st'\<rparr>, p_state := p_state ?l,
        user := eff_data FOR_body i (byte_range d i (pos ?l - i)) (user ?l), marks := (marks ?l)(FOR_body := None)\<rparr>)"
    using CALLBACK_DATA_at_passive [of ?l FOR_body i d "\<lambda>m. pos ?l - m" "pos ?l" ?k] by (auto simp: here_def)
  then have "exec_finish cfg d ?l =
      Returned (length d) (rq ps m v cl up k s_body_identity h idx) (eff_data FOR_body i (drop i d) u)"
    by (simp add: here_def exec_finish_def assert_then_def CALLBACK_DATA_NOADVANCE_def CALLBACK_DATA_at_def [of _ _ FOR_url]
        CALLBACK_DATA_at_def [of _ _ FOR_header_field] CALLBACK_DATA_at_def [of _ _ FOR_header_value]
        CALLBACK_DATA_at_def [of _ _ FOR_status] RETURN_def outcome_result_def byte_range_def)
  then show ?thesis
    unfolding go_def by (subst exec_loop.simps) (simp add: here_def)
qed

text \<open>The rest of the buffer is less than the rest of the body.\<close>

lemma go_body_part:
  assumes d: "drop i d = b" and b: "b \<noteq> []" "length b < n" and small: "n < 2 ^ 60"
  shows "go cfg d s_body_identity i (\<lambda>_. None) (rq ps m (1, 1) (of_nat n) False 0 st h idx) u =
    Some (Returned (length d) (rq ps m (1, 1) (of_nat (n - length b)) False 0 s_body_identity h idx)
      (eff_data FOR_body i b u))"
proof -
  obtain c rest where d1: "drop i d = c # rest" using d b(1) by (cases b) auto
  have i: "i < length d" "length d - i = length b" "i + length b - Suc 0 = length d - Suc 0"
    "Suc (length d - Suc 0) = length d"
    using drop_eq_Cons_nth [OF d1] arg_cong [OF d, of length] by auto
  have "length b < 2 ^ 64" using b(2) small by simp
  note rb = rest_of_body [OF b(2) small this]
  let ?l = "(here s_body_identity i (\<lambda>_. None) (rq ps m (1, 1) (of_nat n) False 0 st h idx) u)\<lparr>cur := c\<rparr>"
  have "exec_switch cfg d c ?l = Break ((here s_body_identity (length d - 1) ((\<lambda>_. None)(FOR_body := Some i))
      (rq ps m (1, 1) (of_nat (n - length b)) False 0 st h idx) u)\<lparr>cur := c\<rparr>)"
    using rb i by (simp add: exec_switch_def here_def exec_s_body_identity_def assert_then_def consume_body_def
        body_to_read_def MARK_def Let_def)
  moreover have "go cfg d s_body_identity i (\<lambda>_. None) (rq ps m (1, 1) (of_nat n) False 0 st h idx) u = exec_loop cfg d True ?l"
    by (rule go_body [OF d1]) (simp add: PARSING_HEADER_iff)
  ultimately show ?thesis
    using body_part_flush [of i d] i d by (simp add: go_Break here_def)
qed

text \<open>A call that reads the head of a request and a part of its body, which may be empty.\<close>

lemma execute_head:
  assumes ps: "idle ps" "state ps = s_start_req" and r: "request_ok r" and b: "length b < length (msg_body r)"
  shows "\<exists>ps'. http_parser_execute cfg (request_head r @ b) ps u =
      Some (Returned (length (request_head r @ b)) ps'
        ((if b = [] then (\<lambda>u. u) else eff_data FOR_body (length (request_head r)) b)
          (eff_headers (lines_effect eff_data (length (request_line (msg_method r) (msg_url r))) (msg_headers r)
            (eff_data FOR_url (length (method_string (msg_method r)) + 1) (msg_url r) (eff_notify FOR_message_begin u))))))
    \<and> in_body (length (msg_body r) - length b) ps'"
proof -
  let ?d = "request_head r @ b" and ?n = "length (msg_body r)"
  let ?u = "eff_headers (lines_effect eff_data (length (request_line (msg_method r) (msg_url r))) (msg_headers r)
      (eff_data FOR_url (length (method_string (msg_method r)) + 1) (msg_url r) (eff_notify FOR_message_begin u)))"
  let ?cl = "foldl header_length ULLONG_MAX (msg_headers r)"
  have "list_all header_ok (msg_headers r)" "declared_length (msg_headers r) = ?n" "?n < 2 ^ 60"
    using r by (simp_all add: request_ok_def)
  with declared_length_cases [of "msg_headers r"] b
  have cl: "?cl = of_nat ?n" "?cl \<noteq> 0" "?cl \<noteq> ULLONG_MAX" and small: "?n < 2 ^ 60" by auto
  have len: "Suc (length (request_head r) - 1) = length (request_head r)" "request_head r \<noteq> []" by (simp_all add: request_head_def)
  have d: "drop 0 ?d = request_head r @ b" "drop (length (request_head r)) ?d = b" by simp_all
  obtain st h idx where "go cfg ?d s_start_req 0 (\<lambda>_. None) ps u = exec_loop cfg ?d True
      ((here s_headers_done (length (request_head r) - 1) (\<lambda>_. None)
        (rq ps (msg_method r) (1, 1) ?cl False (length (request_head r)) st h idx) ?u)\<lparr>cur := LF\<rparr>)"
    using go_head [OF d(1) ps(1) r, of u] by auto
  then have 1: "go cfg ?d s_start_req 0 (\<lambda>_. None) ps u = go cfg ?d s_body_identity (length (request_head r)) (\<lambda>_. None)
      (rq ps (msg_method r) (1, 1) (of_nat ?n) False 0 st h idx) ?u"
    using go_has_body [OF cl(2,3), of ?d] len cl(1) by simp
  have "initial_locals ps u = here s_start_req 0 (\<lambda>_. None) ps u"
    using ps(2) by (simp add: initial_locals_def here_def initial_marks_def)
  with len(2) ps have 2: "http_parser_execute cfg ?d ps u = go cfg ?d s_start_req 0 (\<lambda>_. None) ps u"
    by (simp add: http_parser_execute_def go_def idle_def)
  show ?thesis
  proof (cases "b = []")
    case True
    then show ?thesis
      unfolding 2 1 in_body_def using body_part_end [where d = "request_head r"] ps(1) by (auto simp: idle_def)
  next
    case False
    then show ?thesis
      unfolding 2 1 go_body_part [OF d(2) False b small] in_body_def using ps(1) by (auto simp: idle_def)
  qed
qed

end

section \<open>The connection\<close>

text \<open>Reads one after another.\<close>

fun reads :: "'j jsoncpp \<Rightarrow> ('j, 's) message_handler \<Rightarrow> byte list list \<Rightarrow> http_parser \<times> ('j, 's) session
    \<Rightarrow> (http_parser \<times> ('j, 's) session) option" where
  "reads J h [] c = Some c"
| "reads J h (bs # bss) c = (case onRead J h bs c of None \<Rightarrow> None | Some c \<Rightarrow> reads J h bss c)"

lemma reads_append: "reads J h (bss @ [bs]) c = (case reads J h bss c of None \<Rightarrow> None | Some c \<Rightarrow> onRead J h bs c)"
  by (induction bss arbitrary: c) (auto split: option.split)

lemma first_read_of:
  "idle (fst (session_start this_ptr (ps, session_new J data srv)))"
  "state (fst (session_start this_ptr (ps, session_new J data srv))) = s_start_req"
  by (simp_all add: session_start_def session_new_def do_read_def idle_def http_parser_init_def)

end
