(* ===== verification/Parser_Views.thy ===== *)
theory Parser_Views
  imports Parser_Api
begin

text \<open>
  What two runs of the parser on the same bytes, cut in different portions, have in common: the
  events up to the cutting of data, and what has been seen of the data whose mark is open.
\<close>

section \<open>Events up to the cutting of data\<close>

fun add_event :: "event list \<Rightarrow> event \<Rightarrow> event list" where
  "add_event es (Data f bs) =
     (if bs = [] then es
      else if es \<noteq> [] \<and> (\<exists>a. last es = Data f a)
      then butlast es @ [Data f ((case last es of Data g a \<Rightarrow> a | _ \<Rightarrow> []) @ bs)]
      else es @ [Data f bs])"
| "add_event es e = es @ [e]"

definition joined :: "event list \<Rightarrow> event list" where
  "joined es = foldl add_event [] es"

lemma joined_append: "joined (es @ xs) = foldl add_event (joined es) xs"
  by (simp add: joined_def)

lemma add_Data_empty [simp]: "add_event es (Data f []) = es"
  by simp

lemma add_Data_Data: "add_event (add_event es (Data f a)) (Data f b) = add_event es (Data f (a @ b))"
  by (cases es rule: rev_cases) (auto simp: butlast_append split: event.splits)

section \<open>What has been seen of the bytes so far\<close>

text \<open>The data that the open marks begin, up to the current position, and all events with them.\<close>

definition all_data_for :: "data_for list" where
  "all_data_for = [FOR_header_field, FOR_header_value, FOR_url, FOR_body, FOR_status]"

definition pending :: "byte list \<Rightarrow> nat \<Rightarrow> (data_for \<Rightarrow> nat option) \<Rightarrow> event list" where
  "pending d p mk = concat (map (\<lambda>f. case mk f of None \<Rightarrow> [] | Some m \<Rightarrow> [Data f (byte_range d m (p - m))]) all_data_for)"

definition view :: "byte list \<Rightarrow> event list locals \<Rightarrow> event list" where
  "view d l = joined (user l @ pending d (pos l) (marks l))"

lemma pending_none [simp]: "pending d p (\<lambda>_. None) = []"
  by (simp add: pending_def all_data_for_def)

lemma pending_one [simp]: "pending d p ((\<lambda>_. None)(f := Some m)) = [Data f (byte_range d m (p - m))]"
  by (cases f) (simp_all add: pending_def all_data_for_def)

lemma view_next:
  assumes "marks l = (\<lambda>_. None)(f := Some m)" "m \<le> pos l" "pos l < length d"
  shows "view d (l\<lparr>pos := pos l + 1\<rparr>) = add_event (view d l) (Data f [d ! pos l])"
proof -
  have "byte_range d m (pos l + 1 - m) = byte_range d m (pos l - m) @ [d ! pos l]"
    using assms(2,3) by (simp add: byte_range_def Suc_diff_le take_Suc_conv_app_nth)
  then show ?thesis
    using assms(1) by (simp add: view_def joined_append add_Data_Data del: add_event.simps)
qed

section \<open>The observer's callbacks\<close>

lemma NOTIFY_observer:
  "http_errno (parser l) = HPE_OK \<Longrightarrow> CALLBACK_NOTIFY_at observer FOR ER k l =
     k (l\<lparr>parser := (parser l)\<lparr>state := p_state l\<rparr>, user := user l @ [Notify FOR]\<rparr>)"
  by (cases l) (simp add: CALLBACK_NOTIFY_at_def assert_then_def note_event_def after_callback_def Let_def)

lemma DATA_observer:
  "http_errno (parser l) = HPE_OK \<Longrightarrow> CALLBACK_DATA_at observer d FOR LEN ER k l =
     (case marks l FOR of
        None \<Rightarrow> k l
      | Some m \<Rightarrow> k (l\<lparr>parser := (parser l)\<lparr>state := p_state l\<rparr>, marks := (marks l)(FOR := None),
          user := user l @ [Data FOR (byte_range d m (LEN m))]\<rparr>))"
  by (cases l) (simp add: CALLBACK_DATA_at_def assert_then_def note_data_def after_callback_def Let_def
      split: option.split)

section \<open>Two runs in step\<close>

text \<open>
  Parsers equal but for \<open>state\<close>, which only matters outside the function, and \<open>nread\<close>; and
  whether the last event is the end of a message with an upgrade, after which the function
  returns early.
\<close>

definition psim :: "http_parser \<Rightarrow> http_parser \<Rightarrow> bool" where
  "psim ps ps' \<longleftrightarrow> ps\<lparr>state := s_dead, nread := 0\<rparr> = ps'\<lparr>state := s_dead, nread := 0\<rparr>"

definition calm :: "http_parser \<Rightarrow> event list \<Rightarrow> bool" where
  "calm ps es \<longleftrightarrow> \<not> (upgrade ps \<and> es \<noteq> [] \<and> last es = Notify FOR_message_complete)"

definition alike :: "byte list \<Rightarrow> byte list \<Rightarrow> event list locals \<Rightarrow> event list locals \<Rightarrow> bool" where
  "alike d d' l l' \<longleftrightarrow>
     p_state l' = p_state l \<and> cur l' = cur l \<and> psim (parser l) (parser l') \<and> view d l = view d' l'
     \<and> calm (parser l) (user l) \<and> calm (parser l') (user l')"

text \<open>In the states that a name, value, URL or status is read in, it has begun.\<close>

definition marked :: "event list locals \<Rightarrow> bool" where
  "marked l \<longleftrightarrow> (\<forall>f. f \<noteq> FOR_body \<longrightarrow> p_state l \<in> mark_states f \<longrightarrow> marks l f \<noteq> None)"

fun outs :: "byte list \<Rightarrow> byte list \<Rightarrow> nat \<Rightarrow> nat \<Rightarrow> event list outcome \<Rightarrow> event list outcome \<Rightarrow> bool" where
  "outs d d' p p' (Break l) (Break l') \<longleftrightarrow>
     pos l = p \<and> pos l' = p' \<and> alike d d' (l\<lparr>pos := p + 1\<rparr>) (l'\<lparr>pos := p' + 1\<rparr>) \<and> marked l \<and> marked l'"
| "outs d d' p p' (Reexecute l) (Reexecute l') \<longleftrightarrow>
     pos l = p \<and> pos l' = p' \<and> alike d d' l l' \<and> marked l \<and> marked l'
     \<and> p_state l \<notin> {s_header_field, s_header_value, s_body_identity, s_body_identity_eof, s_chunk_data}"
| "outs d d' p p' (Goto_error l) (Goto_error l') \<longleftrightarrow>
     pos l = p \<and> pos l' = p' \<and> p_state l' = p_state l \<and> psim (parser l) (parser l')
     \<and> view d l = view d' l'"
| "outs d d' p p' (Return n ps es) (Return n' ps' es') \<longleftrightarrow>
     n = p + 1 \<and> n' = p' + 1 \<and> psim ps ps' \<and> state ps' = state ps \<and> joined es' = joined es
     \<and> http_errno ps = HPE_OK \<and> \<not> calm ps es \<and> \<not> calm ps' es'"
| "outs d d' p p' _ _ \<longleftrightarrow> False"

declare outs.simps [simp del]

lemma joined_snoc: "joined (es @ [e]) = add_event (joined es) e"
  by (simp add: joined_append)

text \<open>The premises of a step: both runs are at the same byte, with the invariant of the switch.\<close>

definition in_step :: "byte list \<Rightarrow> byte list \<Rightarrow> event list locals \<Rightarrow> event list locals \<Rightarrow> bool" where
  "in_step d d' l l' \<longleftrightarrow>
     switch_ok d (\<lambda>_. True) l \<and> switch_ok d' (\<lambda>_. True) l' \<and> alike d d' l l' \<and> marked l \<and> marked l'
     \<and> d ! pos l = cur l \<and> d' ! pos l' = cur l"

text \<open>States outside those of a mark: no mark is set.\<close>

definition unmarked_states :: "state set" where
  "unmarked_states = {s. \<forall>f. s \<notin> mark_states f}"

lemma psim_iff:
  "psim ps ps' \<longleftrightarrow> (\<exists>st n. ps' = ps\<lparr>state := st, nread := n\<rparr>)"
proof
  assume "psim ps ps'"
  then have "ps' = ps\<lparr>state := state ps', nread := nread ps'\<rparr>"
    by (cases ps; cases ps') (simp add: psim_def)
  then show "\<exists>st n. ps' = ps\<lparr>state := st, nread := n\<rparr>" by blast
next
  assume "\<exists>st n. ps' = ps\<lparr>state := st, nread := n\<rparr>"
  then show "psim ps ps'" by (cases ps) (auto simp: psim_def)
qed

lemma psim_refl [simp]: "psim ps ps"
  by (simp add: psim_def)

lemma psim_free [simp]:
  "psim (ps\<lparr>state := s\<rparr>) ps' \<longleftrightarrow> psim ps ps'" "psim ps (ps'\<lparr>state := s\<rparr>) \<longleftrightarrow> psim ps ps'"
  "psim (ps\<lparr>nread := n\<rparr>) ps' \<longleftrightarrow> psim ps ps'" "psim ps (ps'\<lparr>nread := n\<rparr>) \<longleftrightarrow> psim ps ps'"
  by (cases ps; cases ps'; simp add: psim_def)+

lemma psim_update:
  assumes "psim ps ps'"
  shows "psim (ps\<lparr>p_type := t\<rparr>) (ps'\<lparr>p_type := t\<rparr>)" "psim (ps\<lparr>flags := f\<rparr>) (ps'\<lparr>flags := f\<rparr>)"
    "psim (ps\<lparr>header_state := h\<rparr>) (ps'\<lparr>header_state := h\<rparr>)" "psim (ps\<lparr>index := i\<rparr>) (ps'\<lparr>index := i\<rparr>)"
    "psim (ps\<lparr>content_length := c\<rparr>) (ps'\<lparr>content_length := c\<rparr>)"
    "psim (ps\<lparr>http_major := v\<rparr>) (ps'\<lparr>http_major := v\<rparr>)" "psim (ps\<lparr>http_minor := v\<rparr>) (ps'\<lparr>http_minor := v\<rparr>)"
    "psim (ps\<lparr>status_code := v\<rparr>) (ps'\<lparr>status_code := v\<rparr>)" "psim (ps\<lparr>p_method := m\<rparr>) (ps'\<lparr>p_method := m\<rparr>)"
    "psim (ps\<lparr>http_errno := e\<rparr>) (ps'\<lparr>http_errno := e\<rparr>)" "psim (ps\<lparr>upgrade := u\<rparr>) (ps'\<lparr>upgrade := u\<rparr>)"
  using assms by (cases ps; cases ps'; simp add: psim_def)+

lemma psim_sel:
  assumes "psim ps ps'"
  shows "p_type ps' = p_type ps" "flags ps' = flags ps" "header_state ps' = header_state ps" "index ps' = index ps"
    "content_length ps' = content_length ps" "http_major ps' = http_major ps" "http_minor ps' = http_minor ps"
    "status_code ps' = status_code ps" "p_method ps' = p_method ps" "http_errno ps' = http_errno ps"
    "upgrade ps' = upgrade ps"
  using assms by (cases ps; cases ps'; simp add: psim_def)+

lemma psim_fun:
  assumes "psim ps ps'"
  shows "http_message_needs_eof ps' = http_message_needs_eof ps" "NEW_MESSAGE ps' = NEW_MESSAGE ps"
    "psim (header_flag ps) (header_flag ps')" "psim (set_flag f ps) (set_flag f ps')"
  using psim_sel [OF assms] assms
  by (simp_all add: http_message_needs_eof_def NEW_MESSAGE_def http_should_keep_alive_def start_state_def
      header_flag_def set_flag_def psim_update split: header_states.split)

lemmas psim_rules = psim_update psim_sel psim_fun

text \<open>Literal locals at the switch, and when two of them are alike.\<close>

definition unbegun :: "state set" where
  "unbegun = - ({s_header_field, s_header_value, s_res_status} \<union> mark_states FOR_url)"

abbreviation lit :: "http_parser \<Rightarrow> state \<Rightarrow> nat \<Rightarrow> byte \<Rightarrow> (data_for \<Rightarrow> nat option) \<Rightarrow> event list \<Rightarrow> event list locals" where
  "lit ps s p c mk es \<equiv> \<lparr>parser = ps, p_state = s, pos = p, cur = c, marks = mk, user = es\<rparr>"

lemma marked_lit:
  "marked (lit ps s p c (\<lambda>_. None) es) \<longleftrightarrow> s \<in> unbegun"
  "f \<noteq> FOR_body \<Longrightarrow> s \<in> mark_states f \<Longrightarrow> marked (lit ps s p c ((\<lambda>_. None)(f := Some m)) es)"
  "s \<in> unbegun \<Longrightarrow> marked (lit ps s p c mk es)"
proof -
  note all = all_data_for
  show "marked (lit ps s p c (\<lambda>_. None) es) \<longleftrightarrow> s \<in> unbegun"
    unfolding marked_def all unbegun_def by auto
  show "s \<in> unbegun \<Longrightarrow> marked (lit ps s p c mk es)"
    unfolding marked_def all unbegun_def by auto
  show "marked (lit ps s p c ((\<lambda>_. None)(f := Some m)) es)" if "f \<noteq> FOR_body" "s \<in> mark_states f"
    using that mark_states_disjoint by (auto simp: marked_def)
qed

lemma outs_lit:
  "outs d d' p p' (Break (lit ps s p c (\<lambda>_. None) es)) (Break (lit ps' s p' c (\<lambda>_. None) es')) \<longleftrightarrow>
     psim ps ps' \<and> joined es = joined es' \<and> calm ps es \<and> calm ps' es' \<and> s \<in> unbegun"
  "outs d d' p p' (Goto_error (lit ps s p c (\<lambda>_. None) es)) (Goto_error (lit ps' s p' c (\<lambda>_. None) es')) \<longleftrightarrow>
     psim ps ps' \<and> joined es = joined es'"
  "outs d d' p p' (Reexecute (lit ps s p c (\<lambda>_. None) es)) (Reexecute (lit ps' s p' c (\<lambda>_. None) es')) \<longleftrightarrow>
     psim ps ps' \<and> joined es = joined es' \<and> calm ps es \<and> calm ps' es' \<and> s \<in> unbegun
     \<and> s \<notin> {s_body_identity, s_body_identity_eof, s_chunk_data}"
  by (auto simp: outs.simps alike_def view_def marked_lit unbegun_def)

text \<open>A byte that begins data.\<close>

lemma outs_lit_mark:
  assumes "f \<noteq> FOR_body" "s \<in> mark_states f" "p < length d" "p' < length d'" "d' ! p' = d ! p"
    "psim ps ps'" "joined es = joined es'" "calm ps es" "calm ps' es'"
  shows "outs d d' p p' (Break (lit ps s p c ((\<lambda>_. None)(f := Some p)) es))
      (Break (lit ps' s p' c ((\<lambda>_. None)(f := Some p')) es'))"
proof -
  have one: "byte_range d p (Suc 0) = [d ! p]" "byte_range d' p' (Suc 0) = [d ! p]"
    using assms(3-5) by (simp_all add: byte_range_def take_Suc hd_drop_conv_nth)
  show ?thesis
    using assms by (auto simp: outs.simps alike_def view_def marked_lit joined_snoc one simp del: add_event.simps)
qed

lemma unmarked_iff: "s \<in> unmarked_states \<longleftrightarrow> s \<in> unbegun \<and> s \<notin> mark_states FOR_body"
  unfolding unmarked_states_def unbegun_def mem_Collect_eq all_data_for by auto

lemma in_step_unmarked:
  assumes "in_step d d' l l'" "p_state l = s" "cur l = c" "s \<in> unmarked_states"
  obtains ps ps' p p' es es' where
    "l = lit ps s p c (\<lambda>_. None) es" "l' = lit ps' s p' c (\<lambda>_. None) es'"
    "psim ps ps'" "joined es = joined es'" "http_errno ps = HPE_OK" "calm ps es" "calm ps' es'"
    "core_ok s ps" "chunk_nread 1 s ps" "chunk_nread 1 s ps'"
    "p < length d" "d ! p = c" "p' < length d'" "d' ! p' = c"
proof -
  have s: "p_state l' = p_state l" using assms(1) by (simp add: in_step_def alike_def)
  have "marks l = (\<lambda>_. None)" "marks l' = (\<lambda>_. None)"
    using assms marks_ok_none s by (auto simp: in_step_def switch_ok_def unmarked_states_def)
  then show thesis
    using assms(1,2,3) s
    by (cases l; cases l') (auto simp: in_step_def switch_ok_def alike_def view_def intro: that)
qed

lemmas step_defs = outs_lit outs_lit_mark psim_rules joined_append exec_switch_def calm_def unbegun_def
  set_errno_goto_error_def STRICT_CHECK_def assert_then_def

end
