(* ===== verification/Parser_Lockstep.thy ===== *)
theory Parser_Lockstep
  imports Parser_Views
begin

text \<open>
  One case of the switch, run at the same byte in two buffers: locals that are alike lead to
  outcomes that are alike. The cases that read more than one byte at a time are left to the
  next theory.
\<close>

lemmas callback_defs = CALLBACK_NOTIFY_def CALLBACK_NOTIFY_NOADVANCE_def CALLBACK_DATA_def CALLBACK_DATA_NOADVANCE_def
  NOTIFY_observer DATA_observer

definition locked :: "state \<Rightarrow> bool" where
  "locked s \<longleftrightarrow> (\<forall>d d' l l'. in_step d d' l l' \<longrightarrow> p_state l = s \<longrightarrow>
     outs d d' (pos l) (pos l') (exec_switch observer d (cur l) l) (exec_switch observer d' (cur l) l'))"

lemma locked_unmarked:
  assumes "s \<in> unmarked_states"
    and "\<And>d d' ps ps' p p' c es es'. psim ps ps' \<Longrightarrow> joined es = joined es' \<Longrightarrow> http_errno ps = HPE_OK \<Longrightarrow>
      calm ps es \<Longrightarrow> calm ps' es' \<Longrightarrow> core_ok s ps \<Longrightarrow> chunk_nread 1 s ps \<Longrightarrow> chunk_nread 1 s ps' \<Longrightarrow>
      p < length d \<Longrightarrow> d ! p = c \<Longrightarrow> p' < length d' \<Longrightarrow> d' ! p' = c \<Longrightarrow>
      outs d d' p p' (exec_switch observer d c (lit ps s p c (\<lambda>_. None) es))
        (exec_switch observer d' c (lit ps' s p' c (\<lambda>_. None) es'))"
  shows "locked s"
  unfolding locked_def
proof (intro allI impI)
  fix d d' l l' assume step: "in_step d d' l l'" and s: "p_state l = s"
  obtain c where c: "cur l = c" by blast
  from in_step_unmarked [OF step s c assms(1)] show
    "outs d d' (pos l) (pos l') (exec_switch observer d (cur l) l) (exec_switch observer d' (cur l) l')"
    by cases (simp add: assms(2))
qed

lemma outs_error_mark:
  "psim ps ps' \<Longrightarrow> joined es = joined es' \<Longrightarrow>
     outs d d' p p' (Goto_error (lit ps s p c ((\<lambda>_. None)(f := Some p)) es))
       (Goto_error (lit ps' s p' c ((\<lambda>_. None)(f := Some p')) es'))"
  by (simp add: outs.simps view_def joined_append byte_range_def)

lemmas outs_url_mark = outs_lit_mark [where f = FOR_url and s = "parse_url_char s0 c0" for s0 c0, OF _ url_next]

lemma flag_keeps [simp]:
  "upgrade (header_flag ps) = upgrade ps" "http_errno (header_flag ps) = http_errno ps"
  "upgrade (set_flag f ps) = upgrade ps" "http_errno (set_flag f ps) = http_errno ps"
  by (simp_all add: header_flag_def set_flag_def split: header_states.split)

lemma decides_frame [simp]:
  "http_message_needs_eof (ps\<lparr>nread := n\<rparr>) = http_message_needs_eof ps"
  "NEW_MESSAGE (ps\<lparr>nread := n\<rparr>) = NEW_MESSAGE ps"
  using psim_fun(1,2) [of ps "ps\<lparr>nread := n\<rparr>"] by simp_all

lemma NEW_MESSAGE_states: "NEW_MESSAGE ps \<in> {s_dead, s_start_req, s_start_res}"
  by (simp add: NEW_MESSAGE_def start_state_def)

lemma NEW_MESSAGE_not [simp]: "s \<notin> {s_dead, s_start_req, s_start_res} \<Longrightarrow> NEW_MESSAGE ps \<noteq> s"
  using NEW_MESSAGE_states by metis

lemma locked_response_start:
  assumes "s \<in> {s_dead, s_start_req_or_res, s_res_or_resp_H, s_start_res, s_res_H, s_res_HT, s_res_HTT, s_res_HTTP}"
  shows "locked s"
proof (rule locked_unmarked)
  show "s \<in> unmarked_states" using assms by (auto simp: unmarked_iff unbegun_def)
qed (use assms in \<open>elim insertE emptyE; simp add: exec_s_dead_def exec_s_start_req_or_res_def
  exec_s_res_or_resp_H_def exec_s_start_res_def exec_s_res_H_def exec_s_res_HT_def exec_s_res_HTT_def
  exec_s_res_HTTP_def callback_defs Let_def step_defs\<close>)

lemma locked_response_line:
  assumes "s \<in> {s_res_first_http_major, s_res_http_major, s_res_first_http_minor, s_res_http_minor,
    s_res_first_status_code, s_res_status_code, s_res_status_start, s_res_line_almost_done}"
  shows "locked s"
proof (rule locked_unmarked)
  show "s \<in> unmarked_states" using assms by (auto simp: unmarked_iff unbegun_def)
qed (use assms in \<open>elim insertE emptyE; simp add: exec_s_res_first_http_major_def exec_s_res_http_major_def
  exec_s_res_first_http_minor_def exec_s_res_http_minor_def exec_s_res_first_status_code_def
  exec_s_res_status_code_def exec_s_res_status_start_def exec_s_res_line_almost_done_def
  more_http_major_def more_http_minor_def Let_def MARK_def step_defs\<close>)

lemma locked_request_line:
  assumes "s \<in> {s_req_http_start, s_req_http_H, s_req_http_HT, s_req_http_HTT, s_req_http_HTTP,
    s_req_first_http_major, s_req_http_major, s_req_first_http_minor, s_req_http_minor, s_req_line_almost_done}"
  shows "locked s"
proof (rule locked_unmarked)
  show "s \<in> unmarked_states" using assms by (auto simp: unmarked_iff unbegun_def)
qed (use assms in \<open>elim insertE emptyE; simp add: exec_s_req_http_start_def exec_s_req_http_H_def
  exec_s_req_http_HT_def exec_s_req_http_HTT_def exec_s_req_http_HTTP_def exec_s_req_first_http_major_def
  exec_s_req_http_major_def exec_s_req_first_http_minor_def exec_s_req_http_minor_def
  exec_s_req_line_almost_done_def more_http_major_def more_http_minor_def Let_def step_defs\<close>)

lemma locked_request_start:
  assumes "s \<in> {s_start_req, s_req_method, s_req_spaces_before_url}"
  shows "locked s"
proof (rule locked_unmarked)
  show "s \<in> unmarked_states" using assms by (auto simp: unmarked_iff unbegun_def)
qed (use assms in \<open>elim insertE emptyE; simp add: exec_s_start_req_def exec_s_req_method_def
  exec_s_req_spaces_before_url_def Let_def MARK_def core_ok_def callback_defs outs_url_mark outs_error_mark step_defs split: option.split\<close>)

lemma locked_header_start:
  assumes "s \<in> {s_header_field_start, s_header_value_discard_ws, s_header_value_start}"
  shows "locked s"
proof (rule locked_unmarked)
  show "s \<in> unmarked_states" using assms by (auto simp: unmarked_iff unbegun_def)
qed (use assms in \<open>elim insertE emptyE; simp add: exec_s_header_field_start_def exec_s_header_value_discard_ws_def
  exec_s_header_value_start_def Let_def MARK_def outs_error_mark step_defs split: header_states.split\<close>)

lemma locked_header_end:
  assumes "s \<in> {s_header_almost_done, s_header_value_lws, s_header_value_discard_ws_almost_done,
    s_header_value_discard_lws}"
  shows "locked s"
proof (rule locked_unmarked)
  show "s \<in> unmarked_states" using assms by (auto simp: unmarked_iff unbegun_def)
qed (use assms in \<open>elim insertE emptyE; simp add: exec_s_header_almost_done_def exec_s_header_value_lws_def
  exec_s_header_value_discard_ws_almost_done_def exec_s_header_value_discard_lws_def
  MARK_def callback_defs step_defs\<close>)

lemma locked_headers_done:
  assumes "s \<in> {s_headers_almost_done, s_headers_done, s_message_done}"
  shows "locked s"
proof (rule locked_unmarked)
  show "s \<in> unmarked_states" using assms by (auto simp: unmarked_iff unbegun_def)
qed (use assms in \<open>elim insertE emptyE; simp add: exec_s_headers_almost_done_def exec_s_headers_done_def
  exec_s_message_done_def note_event_def RETURN_def Let_def word_gt_0 outs.simps(4) callback_defs step_defs\<close>)

lemma locked_chunk:
  assumes "s \<in> {s_chunk_size_start, s_chunk_size, s_chunk_parameters, s_chunk_size_almost_done, s_chunk_data_done}"
  shows "locked s"
proof (rule locked_unmarked)
  show "s \<in> unmarked_states" using assms by (auto simp: unmarked_iff unbegun_def)
qed (use assms in \<open>elim insertE emptyE; simp add: exec_s_chunk_size_start_def exec_s_chunk_size_def
  exec_s_chunk_parameters_def exec_s_chunk_size_almost_done_def exec_s_chunk_data_done_def
  chunk_nread_def core_ok_def Let_def callback_defs step_defs\<close>)

section \<open>Cases that data is read in\<close>

lemma marks_ok_one:
  assumes "marks_ok s n mk" "s \<in> mark_states f" "mk f = Some m"
  shows "mk = (\<lambda>_. None)(f := Some m)"
proof
  fix g show "mk g = ((\<lambda>_. None)(f := Some m)) g"
  proof (cases "mk g")
    case (Some i)
    then have "s \<in> mark_states g" using assms(1) by (simp add: marks_ok_def)
    then have "g = f" using mark_states_disjoint [OF assms(2)] by simp
    then show ?thesis using assms(3) by simp
  qed (use assms(3) in auto)
qed

lemma in_step_marked:
  assumes "in_step d d' l l'" "p_state l = s" "cur l = c" "s \<in> mark_states f" "f \<noteq> FOR_body"
  obtains ps ps' p p' m m' es es' where
    "l = lit ps s p c ((\<lambda>_. None)(f := Some m)) es" "l' = lit ps' s p' c ((\<lambda>_. None)(f := Some m')) es'"
    "psim ps ps'" "joined (es @ [Data f (byte_range d m (p - m))]) = joined (es' @ [Data f (byte_range d' m' (p' - m'))])"
    "http_errno ps = HPE_OK" "calm ps es" "calm ps' es'" "core_ok s ps"
    "m \<le> p" "p < length d" "d ! p = c" "m' \<le> p'" "p' < length d'" "d' ! p' = c"
proof -
  have s: "p_state l' = p_state l" using assms(1) by (simp add: in_step_def alike_def)
  have "marks l f \<noteq> None" "marks l' f \<noteq> None"
    using assms s by (auto simp: in_step_def marked_def)
  then obtain m m' where m: "marks l f = Some m" "marks l' f = Some m'" by blast
  have "marks_ok s (pos l) (marks l)" "marks_ok s (pos l') (marks l')"
    using assms(1,2) s by (simp_all add: in_step_def switch_ok_def)
  then have mk: "marks l = (\<lambda>_. None)(f := Some m)" "marks l' = (\<lambda>_. None)(f := Some m')"
    using marks_ok_one assms(4) m by blast+
  have le: "m \<le> pos l" "m' \<le> pos l'" using assms(1) m by (auto simp: in_step_def switch_ok_def marks_ok_def)
  show thesis
    using assms(1,2,3) s mk le
    by (cases l; cases l') (auto simp: in_step_def switch_ok_def alike_def view_def intro: that)
qed

text \<open>What the case has read so far is the same in both runs: the premise of the rules below.\<close>

lemma outs_lit_marked:
  assumes "joined (es @ [Data f (byte_range d m (p - m))]) = joined (es' @ [Data f (byte_range d' m' (p' - m'))])"
    "psim ps ps'"
  shows
    "outs d d' p p' (Goto_error (lit ps s p c ((\<lambda>_. None)(f := Some m)) es))
      (Goto_error (lit ps' s p' c ((\<lambda>_. None)(f := Some m')) es'))"
    "f \<noteq> FOR_body \<Longrightarrow> s \<in> mark_states f \<Longrightarrow> m \<le> p \<Longrightarrow> p < length d \<Longrightarrow> m' \<le> p' \<Longrightarrow> p' < length d' \<Longrightarrow>
      d' ! p' = d ! p \<Longrightarrow> calm ps es \<Longrightarrow> calm ps' es' \<Longrightarrow>
      outs d d' p p' (Break (lit ps s p c ((\<lambda>_. None)(f := Some m)) es))
      (Break (lit ps' s p' c ((\<lambda>_. None)(f := Some m')) es'))"
proof -
  let ?l = "lit ps s p c ((\<lambda>_. None)(f := Some m)) es" and ?l' = "lit ps' s p' c ((\<lambda>_. None)(f := Some m')) es'"
  have view: "view d ?l = view d' ?l'" using assms(1) by (simp add: view_def)
  then show "outs d d' p p' (Goto_error ?l) (Goto_error ?l')"
    using assms(2) by (simp add: outs.simps)
  assume "f \<noteq> FOR_body" "s \<in> mark_states f" "m \<le> p" "p < length d" "m' \<le> p'" "p' < length d'" "d' ! p' = d ! p"
    "calm ps es" "calm ps' es'"
  then show "outs d d' p p' (Break ?l) (Break ?l')"
    using assms(2) view view_next [of ?l f m d] view_next [of ?l' f m' d']
    by (simp add: outs.simps alike_def marked_lit)
qed

lemma locked_status: "locked s_res_status"
  unfolding locked_def
proof (intro allI impI)
  fix d d' l l' assume step: "in_step d d' l l'" and s: "p_state l = s_res_status"
  obtain c where c: "cur l = c" by blast
  from in_step_marked [OF step s c, of FOR_status] show
    "outs d d' (pos l) (pos l') (exec_switch observer d (cur l) l) (exec_switch observer d' (cur l) l')"
    by cases (simp_all add: exec_s_res_status_def callback_defs outs_lit_marked step_defs)
qed

lemma exec_switch_url:
  "s \<in> mark_states FOR_url \<Longrightarrow> p_state l = s \<Longrightarrow> exec_switch cfg d ch l =
     (if s \<in> {s_req_schema, s_req_schema_slash, s_req_schema_slash_slash, s_req_server_start}
      then exec_s_req_schema ch l else exec_s_req_url cfg d ch l)"
  unfolding mark_states.simps by (elim insertE emptyE) (simp_all add: exec_switch_def)

lemma locked_url:
  assumes "s \<in> mark_states FOR_url"
  shows "locked s"
  unfolding locked_def
proof (intro allI impI)
  fix d d' l l' assume step: "in_step d d' l l'" and s: "p_state l = s"
  obtain c where c: "cur l = c" by blast
  note url = outs_lit_marked [where f = FOR_url] outs_lit_marked(2) [where f = FOR_url, OF _ _ _ url_next]
  from in_step_marked [OF step s c assms] show
    "outs d d' (pos l) (pos l') (exec_switch observer d (cur l) l) (exec_switch observer d' (cur l) l')"
    by cases (simp_all add: exec_switch_url [OF assms] exec_s_req_schema_def exec_s_req_url_def url_default_def
        Let_def callback_defs url step_defs del: exec_switch_def add_event.simps)
qed

text \<open>
  A body that began in an earlier buffer has no mark until its next byte is read, so the two runs
  may differ in whether it is set.
\<close>

definition body_mark :: "nat \<Rightarrow> (data_for \<Rightarrow> nat option) \<Rightarrow> bool" where
  "body_mark p mk \<longleftrightarrow> mk = (\<lambda>_. None) \<or> (\<exists>m \<le> p. mk = (\<lambda>_. None)(FOR_body := Some m))"

lemma in_step_body:
  assumes "in_step d d' l l'" "p_state l = s" "cur l = c" "s \<in> mark_states FOR_body"
  obtains ps ps' p p' mk mk' es es' where
    "l = lit ps s p c mk es" "l' = lit ps' s p' c mk' es'" "body_mark p mk" "body_mark p' mk'"
    "psim ps ps'" "joined (es @ pending d p mk) = joined (es' @ pending d' p' mk')"
    "http_errno ps = HPE_OK" "calm ps es" "calm ps' es'" "core_ok s ps"
    "p < length d" "d ! p = c" "p' < length d'" "d' ! p' = c"
proof -
  have s: "p_state l' = p_state l" using assms(1) by (simp add: in_step_def alike_def)
  have one: "body_mark n mk" if "marks_ok s n mk" for n mk
  proof (cases "mk FOR_body")
    case None
    have "mk g = None" for g
    proof (cases "mk g")
      case (Some i)
      then have "s \<in> mark_states g" using that by (simp add: marks_ok_def)
      then have "g = FOR_body" using mark_states_disjoint [OF assms(4)] by blast
      with None show ?thesis by simp
    qed simp
    then show ?thesis by (auto simp: body_mark_def)
  next
    case (Some m)
    then have "m \<le> n" using that by (simp add: marks_ok_def)
    then show ?thesis using marks_ok_one [OF that assms(4) Some] by (auto simp: body_mark_def)
  qed
  have "marks_ok s (pos l) (marks l)" "marks_ok s (pos l') (marks l')"
    using assms(1,2) s by (simp_all add: in_step_def switch_ok_def)
  then show thesis
    using assms(1,2,3) s
    by (cases l; cases l') (auto simp: in_step_def switch_ok_def alike_def view_def intro: that dest: one)
qed

lemma BODY_done:
  assumes "body_mark p mk" "http_errno ps = HPE_OK"
  obtains st where "CALLBACK_DATA_at observer d FOR_body (\<lambda>m. p - m) ER k (lit ps s p c mk es) =
    k (lit (ps\<lparr>state := st\<rparr>) s p c (\<lambda>_. None) (es @ pending d p mk))"
proof -
  have "\<exists>st. CALLBACK_DATA_at observer d FOR_body (\<lambda>m. p - m) ER k (lit ps s p c mk es) =
    k (lit (ps\<lparr>state := st\<rparr>) s p c (\<lambda>_. None) (es @ pending d p mk))"
    using assms
    by (cases ps) (auto simp: body_mark_def DATA_observer)
  then show thesis using that by blast
qed

lemma calm_pending:
  "calm ps es \<Longrightarrow> body_mark p mk \<Longrightarrow> calm ps (es @ pending d p mk)" "calm (ps\<lparr>state := st\<rparr>) es = calm ps es"
  by (auto simp: calm_def body_mark_def)

lemma locked_chunk_data_almost_done: "locked s_chunk_data_almost_done"
  unfolding locked_def
proof (intro allI impI)
  fix d d' l l' assume step: "in_step d d' l l'" and s: "p_state l = s_chunk_data_almost_done"
  obtain c where c: "cur l = c" by blast
  have body: "s_chunk_data_almost_done \<in> mark_states FOR_body" by simp
  show "outs d d' (pos l) (pos l') (exec_switch observer d (cur l) l) (exec_switch observer d' (cur l) l')"
    using in_step_body [OF step s c body]
  proof cases
    fix ps ps' p p' mk mk' es es'
    assume l: "l = lit ps s_chunk_data_almost_done p c mk es" "l' = lit ps' s_chunk_data_almost_done p' c mk' es'"
      and mk: "body_mark p mk" "body_mark p' mk'" and ps: "psim ps ps'" "http_errno ps = HPE_OK"
        "core_ok s_chunk_data_almost_done ps"
      and view: "joined (es @ pending d p mk) = joined (es' @ pending d' p' mk')"
      and calm: "calm ps es" "calm ps' es'"
    have err: "outs d d' p p' (Goto_error (lit (ps\<lparr>http_errno := e\<rparr>) s p c mk es))
      (Goto_error (lit (ps'\<lparr>http_errno := e\<rparr>) s p' c mk' es'))" for s e
      using ps view by (simp add: outs.simps view_def psim_update)
    obtain st where st: "CALLBACK_DATA_at observer d FOR_body (\<lambda>m. p - m) (Suc p) Break
        (lit ps s_chunk_data_done p c mk es) =
      Break (lit (ps\<lparr>state := st\<rparr>) s_chunk_data_done p c (\<lambda>_. None) (es @ pending d p mk))"
      using BODY_done [OF mk(1) ps(2)] by blast
    obtain st' where st': "CALLBACK_DATA_at observer d' FOR_body (\<lambda>m. p' - m) (Suc p') Break
        (lit ps' s_chunk_data_done p' c mk' es') =
      Break (lit (ps'\<lparr>state := st'\<rparr>) s_chunk_data_done p' c (\<lambda>_. None) (es' @ pending d' p' mk'))"
      using BODY_done [OF mk(2)] psim_sel(10) [OF ps(1)] ps(2) by metis
    show ?thesis
      using l ps mk calm view err st st'
      by (cases "c = CR") (simp_all add: exec_switch_def exec_s_chunk_data_almost_done_def CALLBACK_DATA_def assert_then_def STRICT_CHECK_def
          set_errno_goto_error_def psim_sel core_ok_def outs_lit calm_pending unbegun_def)
  qed
qed

section \<open>All cases but five\<close>

text \<open>The states whose case reads more than one byte.\<close>

definition bulk_states :: "state set" where
  "bulk_states = {s_header_field, s_header_value, s_body_identity, s_body_identity_eof, s_chunk_data}"

lemma locked_all: "s \<notin> bulk_states \<Longrightarrow> locked s"
  by (cases s) (simp_all add: bulk_states_def locked_response_start locked_response_line locked_request_line
      locked_request_start locked_header_start locked_header_end locked_headers_done locked_chunk
      locked_status locked_url locked_chunk_data_almost_done)

text \<open>These cases keep \<open>nread\<close> or set it to 0, and keep the byte where they run again on it.\<close>

fun kept :: "uint32 \<Rightarrow> byte \<Rightarrow> 'u outcome \<Rightarrow> bool" where
  "kept N c (Break l) \<longleftrightarrow> nread (parser l) \<le> N"
| "kept N c (Reexecute l) \<longleftrightarrow> nread (parser l) \<le> N \<and> cur l = c"
| "kept N c _ \<longleftrightarrow> True"

lemma nread_frame [simp]:
  "nread (header_flag ps) = nread ps" "nread (set_flag f ps) = nread ps" "nread (parser (MARK g l)) = nread (parser l)"
  "http_errno (parser (MARK g l)) = http_errno (parser l)" "cur (MARK g l) = cur l"
  by (simp_all add: header_flag_def set_flag_def MARK_def split: header_states.split)

lemma kept_DATA:
  "http_errno (parser l) = HPE_OK \<Longrightarrow> (\<And>l'. nread (parser l') = nread (parser l) \<Longrightarrow> cur l' = cur l \<Longrightarrow> kept N c (k l')) \<Longrightarrow>
     kept N c (CALLBACK_DATA_at observer d FOR LEN ER k l)"
  by (simp add: DATA_observer split: option.split)

lemma kept_NOTIFY:
  "http_errno (parser l) = HPE_OK \<Longrightarrow> (\<And>l'. nread (parser l') = nread (parser l) \<Longrightarrow> cur l' = cur l \<Longrightarrow> kept N c (k l')) \<Longrightarrow>
     kept N c (CALLBACK_NOTIFY_at observer FOR ER k l)"
  by (simp add: NOTIFY_observer)

lemmas kept_defs = kept_DATA kept_NOTIFY CALLBACK_NOTIFY_def CALLBACK_NOTIFY_NOADVANCE_def CALLBACK_DATA_def
  CALLBACK_DATA_NOADVANCE_def exec_switch_def set_errno_goto_error_def STRICT_CHECK_def assert_then_def RETURN_def Let_def

lemma exec_switch_kept:
  assumes "p_state l \<notin> bulk_states" "http_errno (parser l) = HPE_OK" "nread (parser l) \<le> N"
  shows "kept N (cur l) (exec_switch observer d c l)"
proof (cases "p_state l \<in> mark_states FOR_url")
  case True
  then show ?thesis
    using assms(2,3) by (simp add: exec_switch_url exec_s_req_schema_def exec_s_req_url_def url_default_def kept_defs
        del: exec_switch_def mark_states.simps)
next
  case False
  then show ?thesis
    using assms
    by (cases "p_state l", simp_all add: bulk_states_def kept_defs note_event_def
        exec_s_dead_def exec_s_start_req_or_res_def exec_s_res_or_resp_H_def exec_s_start_res_def exec_s_res_H_def
        exec_s_res_HT_def exec_s_res_HTT_def exec_s_res_HTTP_def exec_s_res_first_http_major_def
        exec_s_res_http_major_def exec_s_res_first_http_minor_def exec_s_res_http_minor_def
        exec_s_res_first_status_code_def exec_s_res_status_code_def exec_s_res_status_start_def
        exec_s_res_status_def exec_s_res_line_almost_done_def more_http_major_def more_http_minor_def
        exec_s_start_req_def exec_s_req_method_def exec_s_req_spaces_before_url_def
        exec_s_req_http_start_def exec_s_req_http_H_def exec_s_req_http_HT_def exec_s_req_http_HTT_def
        exec_s_req_http_HTTP_def exec_s_req_first_http_major_def exec_s_req_http_major_def
        exec_s_req_first_http_minor_def exec_s_req_http_minor_def exec_s_req_line_almost_done_def
        exec_s_header_field_start_def exec_s_header_value_discard_ws_def exec_s_header_value_start_def
        exec_s_header_almost_done_def exec_s_header_value_lws_def exec_s_header_value_discard_ws_almost_done_def
        exec_s_header_value_discard_lws_def exec_s_headers_almost_done_def exec_s_headers_done_def
        exec_s_message_done_def exec_s_chunk_size_start_def exec_s_chunk_size_def exec_s_chunk_parameters_def
        exec_s_chunk_size_almost_done_def exec_s_chunk_data_almost_done_def exec_s_chunk_data_done_def
        split: header_states.split option.split) auto
qed

end
