(* ===== verification/Parser_Bulk.thy ===== *)
theory Parser_Bulk
  imports Parser_Lockstep
begin

text \<open>
  The five cases of the switch that read more than one byte: each byte but the last can be
  read alone, with the same result but for \<open>nread\<close>.
\<close>

section \<open>Bytes that the case goes on after\<close>

definition stay :: "state \<Rightarrow> byte \<Rightarrow> http_parser \<Rightarrow> http_parser option" where
  "stay s c ps =
     (case s of
        s_header_field \<Rightarrow> if TOKEN c = NUL then None else header_field_step c (TOKEN c) ps
      | s_header_value \<Rightarrow>
          if c = CR \<or> c = LF then None
          else (case header_value_step c (header_state ps) ps of
                  Value_next h ps' \<Rightarrow> Some (ps'\<lparr>header_state := h\<rparr>)
                | Value_skip \<Rightarrow> Some ps
                | _ \<Rightarrow> None)
      | s_body_identity \<Rightarrow>
          if 1 < content_length ps then Some (ps\<lparr>content_length := content_length ps - 1\<rparr>) else None
      | s_chunk_data \<Rightarrow>
          if 1 < content_length ps then Some (ps\<lparr>content_length := content_length ps - 1\<rparr>) else None
      | s_body_identity_eof \<Rightarrow> Some ps
      | _ \<Rightarrow> None)"

definition bulk_data :: "state \<Rightarrow> data_for" where
  "bulk_data s = (if s = s_header_field then FOR_header_field else if s = s_header_value then FOR_header_value
     else FOR_body)"

definition counted :: "state \<Rightarrow> http_parser \<Rightarrow> http_parser" where
  "counted s ps = (if s = s_header_field \<or> s = s_header_value then ps\<lparr>nread := nread ps + 1\<rparr> else ps)"

text \<open>The locals after one such byte, in a buffer that ends there, and in one that goes on.\<close>

definition after_one :: "http_parser \<Rightarrow> 'u locals \<Rightarrow> 'u locals" where
  "after_one ps l = (MARK (bulk_data (p_state l)) l)\<lparr>parser := counted (p_state l) ps\<rparr>"

definition onward :: "byte list \<Rightarrow> http_parser \<Rightarrow> 'u locals \<Rightarrow> 'u locals" where
  "onward d ps l = (after_one ps l)\<lparr>pos := pos l + 1, cur := d ! (pos l + 1)\<rparr>"

section \<open>The loops over names and values\<close>

lemma header_field_step_free:
  "header_field_step ch c (ps\<lparr>state := st, nread := x\<rparr>) =
     map_option (\<lambda>ps. ps\<lparr>state := st, nread := x\<rparr>) (header_field_step ch c ps)"
  by (cases "header_state ps") (simp_all add: header_field_step_def Let_def)

lemma header_field_loop_free:
  "header_field_loop bs (ps\<lparr>nread := x\<rparr>) n = map_option (\<lambda>(ps, n, stop). (ps\<lparr>nread := x\<rparr>, n, stop)) (header_field_loop bs ps n)"
  "header_field_loop bs ps (Suc n) = map_option (\<lambda>(ps, n, stop). (ps, Suc n, stop)) (header_field_loop bs ps n)"
proof -
  have step: "header_field_step ch c (ps\<lparr>nread := x\<rparr>) = map_option (\<lambda>ps. ps\<lparr>nread := x\<rparr>) (header_field_step ch c ps)" for ch c ps
    by (cases "header_state ps") (simp_all add: header_field_step_def Let_def)
  show "header_field_loop bs (ps\<lparr>nread := x\<rparr>) n = map_option (\<lambda>(ps, n, stop). (ps\<lparr>nread := x\<rparr>, n, stop)) (header_field_loop bs ps n)"
    by (induction bs arbitrary: ps n) (simp_all add: Let_def step split: option.split)
  show "header_field_loop bs ps (Suc n) = map_option (\<lambda>(ps, n, stop). (ps, Suc n, stop)) (header_field_loop bs ps n)"
    by (induction bs arbitrary: ps n) (simp_all add: Let_def split: option.split)
qed

lemma header_value_step_free:
  "header_value_step ch h (ps\<lparr>state := st, nread := x, header_state := g\<rparr>) =
     (case header_value_step ch h ps of
        Value_next h' ps' \<Rightarrow> Value_next h' (ps'\<lparr>state := st, nread := x, header_state := g\<rparr>)
      | v \<Rightarrow> v)"
  by (cases h) (simp_all add: header_value_step_def set_flag_def Let_def)

lemma header_value_loop_free:
  "header_value_loop bs h (ps\<lparr>nread := x, header_state := g\<rparr>) n =
     map_option (\<lambda>(e, h, ps, n). (e, h, ps\<lparr>nread := x, header_state := g\<rparr>, n)) (header_value_loop bs h ps n)"
  "header_value_loop bs h ps (Suc n) = map_option (\<lambda>(e, h, ps, n). (e, h, ps, Suc n)) (header_value_loop bs h ps n)"
proof -
  have step: "header_value_step ch h (ps\<lparr>nread := x, header_state := g\<rparr>) =
     (case header_value_step ch h ps of
        Value_next h' ps' \<Rightarrow> Value_next h' (ps'\<lparr>nread := x, header_state := g\<rparr>) | v \<Rightarrow> v)" for ch h ps
    by (cases h) (simp_all add: header_value_step_def set_flag_def Let_def)
  show "header_value_loop bs h (ps\<lparr>nread := x, header_state := g\<rparr>) n =
     map_option (\<lambda>(e, h, ps, n). (e, h, ps\<lparr>nread := x, header_state := g\<rparr>, n)) (header_value_loop bs h ps n)"
    by (induction bs h ps n rule: header_value_loop.induct)
      (simp_all add: step del: drop_Cons' split: value_step.split)
  show "header_value_loop bs h ps (Suc n) = map_option (\<lambda>(e, h, ps, n). (e, h, ps, Suc n)) (header_value_loop bs h ps n)"
    by (induction bs h ps n rule: header_value_loop.induct) (simp_all split: value_step.split)
qed

text \<open>The skip over a general value, one byte at a time.\<close>

lemma memchr_Cons: "x \<noteq> c \<Longrightarrow> 0 < limit \<Longrightarrow> memchr (x # xs) c limit = map_option Suc (memchr xs c (limit - 1))"
  by (cases limit) simp_all

lemma general_skip_Cons:
  assumes "c \<noteq> CR" "c \<noteq> LF" "length bs < HTTP_MAX_HEADER_SIZE"
  shows "general_skip (c # bs) = Suc (general_skip bs)"
proof -
  have "min (length (c # bs)) HTTP_MAX_HEADER_SIZE = Suc (length bs)" "min (length bs) HTTP_MAX_HEADER_SIZE = length bs"
    using assms(3) by simp_all
  then show ?thesis
    using assms(1,2) by (simp add: general_skip_def Let_def memchr_Cons split: option.split)
qed

lemma general_skip_stop: "general_skip [] = 0" "c = CR \<or> c = LF \<Longrightarrow> general_skip (c # bs) = 0"
  by (auto simp: general_skip_def Let_def HTTP_MAX_HEADER_SIZE_def min_def split: option.split)

lemma header_value_loop_general:
  assumes "length bs \<le> HTTP_MAX_HEADER_SIZE"
  shows "header_value_loop (drop (general_skip bs) bs) h_general ps (n + general_skip bs) = header_value_loop bs h_general ps n"
proof (cases bs)
  case (Cons c rest)
  show ?thesis
  proof (cases "c = CR \<or> c = LF")
    case True
    then show ?thesis using Cons by (simp add: general_skip_stop)
  next
    case False
    moreover have "header_value_step c h_general ps = Value_skip" by (simp add: header_value_step_def Let_def)
    ultimately show ?thesis using Cons by simp
  qed
qed (simp add: general_skip_stop)

section \<open>The byte that ends the buffer\<close>

lemma stay_frame:
  assumes "stay s c ps = Some ps1"
  shows "nread ps1 = nread ps" "http_errno ps1 = http_errno ps" "upgrade ps1 = upgrade ps"
  using assms
  by (auto simp: stay_def header_field_step_def header_value_step_def set_flag_def Let_def
      split: state.splits header_states.splits if_splits value_step.splits)

lemma bulk_marked:
  assumes "marked l" "p_state l = s_header_field \<or> p_state l = s_header_value"
  shows "MARK (bulk_data (p_state l)) l = l"
  using assms by (auto simp: marked_def MARK_def bulk_data_def)

lemma COUNT_fits:
  assumes "unat (nread (parser l)) + n \<le> HTTP_MAX_HEADER_SIZE"
  shows "COUNT_HEADER_SIZE n k l = k (l\<lparr>parser := (parser l)\<lparr>nread := nread (parser l) + of_nat n\<rparr>\<rparr>)"
proof -
  have "unat (of_nat n :: uint32) = n"
    using assms by (intro unat_of_nat_small) (simp add: HTTP_MAX_HEADER_SIZE_def)
  moreover have "unat (nread (parser l) + of_nat n) = unat (nread (parser l)) + unat (of_nat n :: uint32)"
    using assms calculation by (intro unat_plus_if' [THEN trans]) (simp add: HTTP_MAX_HEADER_SIZE_def)
  ultimately show ?thesis using assms by (simp add: COUNT_HEADER_SIZE_def Let_def)
qed

lemma min_one:
  assumes "1 < (cl :: uint64)"
  shows "min cl 1 = 1" "cl - 1 \<noteq> 0"
  using assms by (auto simp: min_def)

lemma stay_end:
  assumes "switch_ok d U l" "marked l" "p_state l = s" "stay s (d ! pos l) (parser l) = Some ps1"
    "pos l + 1 = length d" "unat (nread (parser l)) + 1 \<le> HTTP_MAX_HEADER_SIZE"
  shows "exec_switch observer d c l = Break (after_one ps1 l)"
proof -
  have rest: "drop (pos l) d = [d ! pos l]"
    using assms(5) by (metis Cons_nth_drop_Suc Suc_eq_plus1 drop_all le_refl lessI)
  have core: "core_ok s (parser l)" using assms(1,3) by (simp add: switch_ok_def)
  have count: "COUNT_HEADER_SIZE (Suc 0) k l1 = k (l1\<lparr>parser := (parser l1)\<lparr>nread := nread (parser l1) + 1\<rparr>\<rparr>)"
    if "nread (parser l1) = nread (parser l)" for k and l1 :: "event list locals"
    using COUNT_fits [of l1 "Suc 0" k] assms(6) that by simp
  note nread = stay_frame(1) [OF assms(4)]
  consider "s = s_header_field" | "s = s_header_value" | "s = s_body_identity \<or> s = s_chunk_data" | "s = s_body_identity_eof"
    using assms(4) by (auto simp: stay_def split: state.splits)
  then show ?thesis
  proof cases
    case 1
    then show ?thesis
      using assms(3,4) rest nread bulk_marked [OF assms(2)]
      by (cases l) (auto simp: exec_switch_def exec_s_header_field_def stay_def after_one_def counted_def count Let_def
          split: if_splits)
  next
    case 2
    have skip: "general_skip [d ! pos l] = Suc 0" if "d ! pos l \<noteq> CR" "d ! pos l \<noteq> LF"
      using that by (simp add: general_skip_Cons general_skip_stop HTTP_MAX_HEADER_SIZE_def)
    show ?thesis
      using 2 assms(3,4) rest nread bulk_marked [OF assms(2)] skip
      by (cases l) (auto simp: exec_switch_def exec_s_header_value_def stay_def after_one_def counted_def count Let_def
          split: if_splits value_step.splits)
  next
    case 3
    then have one: "1 < content_length (parser l)" "ps1 = (parser l)\<lparr>content_length := content_length (parser l) - 1\<rparr>"
      using assms(4) by (auto simp: stay_def split: if_splits)
    have "length d - pos l = 1" using assms(5) by simp
    then have "consume_body d l = after_one ps1 l"
      using 3 assms(3) one(2) min_one [OF one(1)]
      by (auto simp: consume_body_def body_to_read_def after_one_def counted_def bulk_data_def MARK_def Let_def)
    then show ?thesis
      using 3 assms(3) core one min_one [OF one(1)]
      by (auto simp: exec_switch_def exec_s_body_identity_def exec_s_chunk_data_def assert_then_def core_ok_def
          after_one_def counted_def Let_def)
  next
    case 4
    have "length d - 1 = pos l" using assms(5) by simp
    then show ?thesis
      using 4 assms(3,4)
      by (auto simp: exec_switch_def exec_s_body_identity_eof_def stay_def after_one_def counted_def bulk_data_def
          MARK_def Let_def)
  qed
qed

section \<open>A byte with more to come\<close>

text \<open>
  The byte that the locals hold does not matter where the next thing done is to fetch another
  one, nor at the end of a message.
\<close>

definition other_cur :: "'u locals \<Rightarrow> 'u locals \<Rightarrow> bool" where
  "other_cur l l' \<longleftrightarrow> l' = l\<lparr>cur := cur l'\<rparr>"

fun same_out :: "'u outcome \<Rightarrow> 'u outcome \<Rightarrow> bool" where
  "same_out (Break l) (Break l') \<longleftrightarrow> other_cur l l'"
| "same_out (Reexecute l) (Reexecute l') \<longleftrightarrow> l = l' \<or> p_state l = s_message_done \<and> other_cur l l'"
| "same_out (Goto_error l) (Goto_error l') \<longleftrightarrow>
     (\<exists>x. other_cur (l\<lparr>parser := (parser l)\<lparr>nread := x\<rparr>\<rparr>) l')"
| "same_out r r' \<longleftrightarrow> r = r'"

definition loop_on :: "byte list \<Rightarrow> event list outcome \<Rightarrow> event list result option" where
  "loop_on d r =
     (case r of
        Break l' \<Rightarrow> exec_loop observer d False (l'\<lparr>pos := pos l' + 1\<rparr>)
      | Reexecute l' \<Rightarrow> exec_loop observer d True l'
      | Goto_error l' \<Rightarrow> Some (error_label l')
      | Return n ps u \<Rightarrow> Some (Returned n ps u)
      | Fault \<Rightarrow> Some Faulted)"

lemma exec_loop_switch: "exec_loop observer d True l = loop_on d (exec_switch observer d (cur l) l)"
  by (subst exec_loop.simps) (simp add: loop_on_def)

lemma loop_on_Break: "other_cur l l' \<Longrightarrow> loop_on d (Break l) = loop_on d (Break l')"
  using exec_loop_cur [where cfg = observer and d = d and l = "l\<lparr>pos := pos l + 1\<rparr>" and c = "cur l'"]
  unfolding other_cur_def by (cases l, cases l') (simp add: loop_on_def)

lemma loop_on_Return: "loop_on d (Return n ps u) = Some (Returned n ps u)"
  by (simp add: loop_on_def)

lemma exec_loop_done_cur:
  assumes "p_state l = s_message_done"
  shows "exec_loop observer d True (l\<lparr>cur := x\<rparr>) = exec_loop observer d True l"
proof (cases "http_errno (parser l) = HPE_OK")
  case True
  then show ?thesis
    using assms
    by (cases l) (simp add: exec_loop_switch exec_switch_def exec_s_message_done_def CALLBACK_NOTIFY_def RETURN_def
        NOTIFY_observer loop_on_Break other_cur_def loop_on_Return)
next
  case False
  then show ?thesis
    using assms
    by (cases l) (simp add: exec_loop_switch exec_switch_def exec_s_message_done_def CALLBACK_NOTIFY_def
      CALLBACK_NOTIFY_at_def assert_then_def)
qed

text \<open>Results that are equal, in an error up to the number of header bytes counted.\<close>

definition same_result :: "event list result option \<Rightarrow> event list result option \<Rightarrow> bool" where
  "same_result r r' \<longleftrightarrow> r = r' \<or>
     (\<exists>n ps u x. r = Some (Returned n ps u) \<and> r' = Some (Returned n (ps\<lparr>nread := x\<rparr>) u) \<and> http_errno ps \<noteq> HPE_OK)"

lemma loop_on_same:
  assumes "same_out r r'"
  shows "same_result (loop_on d r) (loop_on d r')"
proof -
  have "same_result (loop_on d (Goto_error l)) (loop_on d (Goto_error l'))"
    if "other_cur (l\<lparr>parser := (parser l)\<lparr>nread := x\<rparr>\<rparr>) l'" for l l' x
  proof -
    have ps: "(parser l)\<lparr>http_errno := e, state := s, nread := x\<rparr> = (parser l)\<lparr>nread := x, http_errno := e, state := s\<rparr>"
      "(parser l)\<lparr>state := s, nread := x\<rparr> = (parser l)\<lparr>nread := x, state := s\<rparr>" for e s
      by (cases "parser l"; simp)+
    have "l' = l\<lparr>parser := (parser l)\<lparr>nread := x\<rparr>, cur := cur l'\<rparr>"
      using that unfolding other_cur_def by (cases l, cases l') simp
    then have "parser l' = (parser l)\<lparr>nread := x\<rparr>" "p_state l' = p_state l" "pos l' = pos l" "user l' = user l"
      by (cases l'; simp)+
    then have "loop_on d (Goto_error l') = Some (error_label (l\<lparr>parser := (parser l)\<lparr>nread := x\<rparr>\<rparr>))"
      by (simp add: loop_on_def error_label_def Let_def)
    then show ?thesis
      by (auto simp: same_result_def loop_on_def error_label_def Let_def ps intro!: exI [of _ x])
  qed
  moreover have "loop_on d (Reexecute l) = loop_on d (Reexecute l')" if "p_state l = s_message_done" "other_cur l l'" for l l'
    using that exec_loop_done_cur [where d = d and l = l and x = "cur l'"] unfolding other_cur_def
    by (simp add: loop_on_def)
  moreover have "same_result x x" for x by (simp add: same_result_def)
  ultimately show ?thesis using assms loop_on_Break by (cases "(r, r')" rule: same_out.cases) auto
qed

lemma COUNT_shift:
  assumes "unat (nread (parser l)) + Suc n \<le> HTTP_MAX_HEADER_SIZE"
  shows "COUNT_HEADER_SIZE (Suc n) k l = COUNT_HEADER_SIZE n k (l\<lparr>parser := (parser l)\<lparr>nread := nread (parser l) + 1\<rparr>\<rparr>)"
proof -
  have "unat (nread (parser l) + 1) = unat (nread (parser l)) + 1"
    using assms by (intro unat_plus_if' [THEN trans]) (simp add: HTTP_MAX_HEADER_SIZE_def)
  then show ?thesis
    using COUNT_fits [OF assms, of k] COUNT_fits [of "l\<lparr>parser := (parser l)\<lparr>nread := nread (parser l) + 1\<rparr>\<rparr>" n k] assms
    by (simp add: ac_simps)
qed

lemma nread_plus_one:
  "unat (n :: uint32) + 1 \<le> HTTP_MAX_HEADER_SIZE \<Longrightarrow> unat (n + 1) = unat n + 1"
  by (intro unat_plus_if' [THEN trans]) (simp add: HTTP_MAX_HEADER_SIZE_def)

lemma nread_first:
  "ps\<lparr>http_errno := e, nread := x\<rparr> = ps\<lparr>nread := x, http_errno := e\<rparr>"
  "ps\<lparr>header_state := h, nread := x\<rparr> = ps\<lparr>nread := x, header_state := h\<rparr>"
  by (cases ps; simp)+

lemma stay_on_field:
  assumes "switch_ok d U l" "marked l" "p_state l = s_header_field" "stay s_header_field (d ! pos l) (parser l) = Some ps1"
    "pos l + 1 < length d" "unat (nread (parser l)) + (length d - pos l) \<le> HTTP_MAX_HEADER_SIZE"
  shows "same_out (exec_switch observer d c l) (exec_switch observer d c' (onward d ps1 l))"
proof -
  let ?rest = "drop (Suc (pos l)) d"
  have rest: "drop (pos l) d = d ! pos l # ?rest" using assms(5) by (simp add: Cons_nth_drop_Suc)
  have step: "TOKEN (d ! pos l) \<noteq> NUL" "header_field_step (d ! pos l) (TOKEN (d ! pos l)) (parser l) = Some ps1"
    using assms(4) by (auto simp: stay_def split: if_splits)
  have "header_state (parser l) \<in> header_name_states" using assms(1,3) by (simp add: switch_ok_def core_ok_def)
  then have names: "header_state ps1 \<in> header_name_states"
    using header_field_step_names [of "parser l" "d ! pos l" "TOKEN (d ! pos l)"] step(2) by auto
  obtain ps2 n stop where loop: "header_field_loop ?rest ps1 0 = Some (ps2, n, stop)"
    and frame: "ps2 = ps1\<lparr>index := index ps2, header_state := header_state ps2\<rparr>"
    and stop: "case stop of None \<Rightarrow> n = length ?rest | Some ch \<Rightarrow> n < length ?rest \<and> ?rest ! n = ch"
    using header_field_loop_names [OF names, of ?rest 0] by auto
  have n: "Suc n \<le> length d - pos l" using stop assms(5) by (auto split: option.splits)
  have nread: "nread ps2 = nread (parser l)"
    by (subst frame) (simp add: stay_frame(1) [OF assms(4)])
  have count: "COUNT_HEADER_SIZE (Suc n) k l1 = COUNT_HEADER_SIZE n k (l1\<lparr>parser := (parser l1)\<lparr>nread := nread (parser l1) + 1\<rparr>\<rparr>)"
    if "nread (parser l1) = nread (parser l)" for k and l1 :: "event list locals"
    using COUNT_shift [of l1 n k] that n assms(6) by simp
  have fits: "COUNT_HEADER_SIZE n k l1 = k (l1\<lparr>parser := (parser l1)\<lparr>nread := nread (parser l1) + of_nat n\<rparr>\<rparr>)"
    if "nread (parser l1) = nread (parser l) + 1" for k and l1 :: "event list locals"
    using COUNT_fits [of l1 n k] that n assms(5,6) by (simp add: nread_plus_one)
  have errno: "http_errno ps2 = HPE_OK"
    by (subst frame) (use stay_frame(2) [OF assms(4)] assms(1) in \<open>simp add: switch_ok_def\<close>)
  have one: "header_field_loop (drop (pos l) d) (parser l) 0 = Some (ps2, Suc n, stop)"
    using header_field_loop_free(2) [of ?rest ps1 0] loop step rest by (simp add: Let_def)
  have two: "header_field_loop ?rest (ps1\<lparr>nread := x\<rparr>) 0 = Some (ps2\<lparr>nread := x\<rparr>, n, stop)" for x
    using header_field_loop_free(1) [where bs = ?rest and ps = ps1 and x = x and n = 0] loop by simp
  show ?thesis
    using assms(3) bulk_marked [OF assms(2)] one two count stay_frame(1) [OF assms(4)] nread
      errno
    by (cases l) (auto simp: exec_switch_def exec_s_header_field_def onward_def after_one_def counted_def other_cur_def
      CALLBACK_DATA_def DATA_observer count fits set_errno_goto_error_def nread_first split: option.split intro!: exI)
qed

text \<open>After the first byte of a value, the loop goes on as it would from the next byte.\<close>

lemma header_value_loop_first:
  assumes "stay s_header_value c ps = Some ps1" "length rest < HTTP_MAX_HEADER_SIZE"
  obtains ps' where "ps1 = ps'\<lparr>header_state := header_state ps1\<rparr>" "nread ps' = nread ps" "http_errno ps' = http_errno ps"
    "header_value_loop (c # rest) (header_state ps) ps 0 = header_value_loop rest (header_state ps1) ps' (Suc 0)"
proof -
  have c: "c \<noteq> CR" "c \<noteq> LF" using assms(1) by (auto simp: stay_def split: if_splits)
  show thesis
  proof (cases "header_value_step c (header_state ps) ps")
    case (Value_next h' ps')
    then have ps1: "ps1 = ps'\<lparr>header_state := h'\<rparr>" using assms(1) c by (simp add: stay_def)
    then show thesis
      using that [of ps'] Value_next c stay_frame(1,2) [OF assms(1)] by simp
  next
    case Value_skip
    then have h: "header_state ps = h_general"
      by (cases "header_state ps") (auto simp: header_value_step_def Let_def split: if_splits)
    have ps1: "ps1 = ps" using Value_skip assms(1) c by (simp add: stay_def)
    have "header_value_loop (c # rest) h_general ps 0 =
        header_value_loop (drop (general_skip rest) rest) h_general ps (Suc (general_skip rest))"
      using Value_skip h c general_skip_Cons [OF c assms(2)] by simp
    also have "\<dots> = header_value_loop rest h_general ps (Suc 0)"
      using header_value_loop_general [of rest ps "Suc 0"] assms(2) by simp
    finally show thesis using that [of ps] ps1 h by simp
  qed (use assms(1) c in \<open>simp_all add: stay_def\<close>)
qed

lemma stay_value_state:
  assumes "value_state (header_state ps)" "stay s_header_value c ps = Some ps1"
  shows "value_state (header_state ps1)"
proof (cases "header_value_step c (header_state ps) ps")
  case (Value_next h ps')
  have "value_state h" using header_value_step_state(2) [OF assms(1) Value_next] by simp
  moreover have "ps1 = ps'\<lparr>header_state := h\<rparr>" using assms(2) Value_next by (simp add: stay_def split: if_splits)
  ultimately show ?thesis by simp
qed (use assms in \<open>simp_all add: stay_def split: if_splits\<close>)

lemma stay_on_value:
  assumes "switch_ok d U l" "marked l" "p_state l = s_header_value" "stay s_header_value (d ! pos l) (parser l) = Some ps1"
    "pos l + 1 < length d" "unat (nread (parser l)) + (length d - pos l) \<le> HTTP_MAX_HEADER_SIZE"
  shows "same_out (exec_switch observer d c l) (exec_switch observer d c' (onward d ps1 l))"
proof -
  let ?rest = "drop (Suc (pos l)) d"
  have rest: "drop (pos l) d = d ! pos l # ?rest" using assms(5) by (simp add: Cons_nth_drop_Suc)
  have "length ?rest < HTTP_MAX_HEADER_SIZE" using assms(5,6) by simp
  from header_value_loop_first [OF assms(4) this] obtain ps' where
    ps1: "ps1 = ps'\<lparr>header_state := header_state ps1\<rparr>" and ps': "nread ps' = nread (parser l)" "http_errno ps' = http_errno (parser l)"
    and first: "header_value_loop (d ! pos l # ?rest) (header_state (parser l)) (parser l) 0 =
      header_value_loop ?rest (header_state ps1) ps' (Suc 0)" by blast
  have "value_state (header_state (parser l))" using assms(1,3) by (simp add: switch_ok_def core_ok_def)
  then have vs: "value_state (header_state ps1)"
    using assms(4) by (rule stay_value_state)
  obtain stop h2 ps2 n where loop: "header_value_loop ?rest (header_state ps1) ps' 0 = Some (stop, h2, ps2, n)"
    and frame: "value_frame ps' ps2"
    and stop: "case stop of At_end \<Rightarrow> n = length ?rest | At_CR \<Rightarrow> n < length ?rest \<and> ?rest ! n = CR
              | At_LF \<Rightarrow> n < length ?rest \<and> ?rest ! n = LF | At_bad_length \<Rightarrow> n < length ?rest"
    using header_value_loop_ends [OF vs, of ?rest ps' 0] by auto
  have n: "Suc n \<le> length d - pos l" using stop assms(5) by (auto split: value_end.splits)
  obtain f i cl where "ps2 = ps'\<lparr>flags := f, index := i, content_length := cl\<rparr>"
    using frame unfolding value_frame_def by blast
  then have nread: "nread ps2 = nread (parser l)" "http_errno ps2 = HPE_OK"
    using ps' assms(1) by (simp_all add: switch_ok_def)
  have count: "COUNT_HEADER_SIZE (Suc n) k l1 = COUNT_HEADER_SIZE n k (l1\<lparr>parser := (parser l1)\<lparr>nread := nread (parser l1) + 1\<rparr>\<rparr>)"
    if "nread (parser l1) = nread (parser l)" for k and l1 :: "event list locals"
    using COUNT_shift [of l1 n k] that n assms(6) by simp
  have fits: "COUNT_HEADER_SIZE n k l1 = k (l1\<lparr>parser := (parser l1)\<lparr>nread := nread (parser l1) + of_nat n\<rparr>\<rparr>)"
    if "nread (parser l1) = nread (parser l) + 1" for k and l1 :: "event list locals"
    using COUNT_fits [of l1 n k] that n assms(5,6) by (simp add: nread_plus_one)
  have one: "header_value_loop (drop (pos l) d) (header_state (parser l)) (parser l) 0 = Some (stop, h2, ps2, Suc n)"
    using header_value_loop_free(2) [of ?rest "header_state ps1" ps' 0] loop first rest by simp
  have two: "header_value_loop ?rest (header_state ps1) (ps1\<lparr>nread := x\<rparr>) 0 =
      Some (stop, h2, ps2\<lparr>nread := x, header_state := header_state ps1\<rparr>, n)" for x
  proof -
    have "ps1\<lparr>nread := x\<rparr> = ps'\<lparr>nread := x, header_state := header_state ps1\<rparr>"
      by (subst ps1) simp
    then show ?thesis
      using header_value_loop_free(1) [where bs = ?rest and ps = ps' and x = x and n = 0 and h = "header_state ps1"
        and g = "header_state ps1"] loop by simp
  qed
  have onward: "onward d ps1 l = l\<lparr>parser := ps1\<lparr>nread := nread (parser l) + 1\<rparr>, pos := Suc (pos l), cur := d ! Suc (pos l)\<rparr>"
    using assms(3) bulk_marked [OF assms(2)] stay_frame(1) [OF assms(4)]
    by (simp add: onward_def after_one_def counted_def)
  note ends = CALLBACK_DATA_def CALLBACK_DATA_NOADVANCE_def DATA_observer other_cur_def set_errno_goto_error_def
    count fits option.case_eq_if
  show ?thesis
  proof (cases stop)
    case At_CR
    show ?thesis
      unfolding onward using assms(3) one two nread At_CR
      by (cases l) (simp add: exec_switch_def exec_s_header_value_def ends)
  next
    case At_LF
    show ?thesis
      unfolding onward using assms(3) one two nread At_LF
      by (cases l) (simp add: exec_switch_def exec_s_header_value_def ends)
  next
    case At_end
    show ?thesis
      unfolding onward using assms(3) one two nread At_end
      by (cases l) (simp add: exec_switch_def exec_s_header_value_def ends)
  next
    case At_bad_length
    show ?thesis
      unfolding onward using assms(3) one two nread At_bad_length
      by (cases l) (auto simp: exec_switch_def exec_s_header_value_def ends nread_first intro!: exI)
  qed
qed

lemma min_minus_one:
  assumes "1 < (a :: uint64)" "1 < b"
  shows "min (a - 1) (b - 1) = min a b - 1" "unat (min a b - 1) = unat (min a b) - 1" "1 < unat (min a b)"
proof -
  have "unat (a - 1) = unat a - 1" "unat (b - 1) = unat b - 1"
    using assms by (simp_all add: unat_minus_one word_less_nat_alt unat_eq_zero [symmetric] del: unat_eq_zero)
  then show "min (a - 1) (b - 1) = min a b - 1"
    using assms by (auto simp: min_def word_le_nat_alt word_less_nat_alt)
  have "1 < min a b" using assms by (simp add: min_def)
  then show "1 < unat (min a b)" by (simp add: word_less_nat_alt)
  then show "unat (min a b - 1) = unat (min a b) - 1" by (intro unat_minus_one) auto
qed

lemma consume_body_onward:
  assumes "1 < content_length (parser l)" "pos l + 1 < length d" "length d < 2 ^ 64"
    "p_state l \<in> {s_body_identity, s_chunk_data}"
  shows "other_cur (consume_body d l) (consume_body d (onward d ((parser l)\<lparr>content_length := content_length (parser l) - 1\<rparr>) l))"
proof -
  let ?r = "of_nat (length d - pos l) :: uint64"
  have "unat ?r = length d - pos l" using assms(3) by (intro unat_of_nat_small) simp
  then have r: "1 < ?r" using assms(2) by (simp only: word_less_nat_alt) simp
  have r': "of_nat (length d - Suc (pos l)) = ?r - 1"
    using assms(2) by (metis Suc_diff_Suc Suc_lessD add.commute add_diff_cancel_left' of_nat_Suc Suc_eq_plus1)
  note m = min_minus_one [OF assms(1) r]
  let ?m = "min (content_length (parser l)) ?r" and ?ps = "parser l" and ?ml = "MARK FOR_body l"
  let ?on = "?ml\<lparr>parser := ?ps\<lparr>content_length := content_length ?ps - 1\<rparr>, pos := pos l + 1, cur := d ! (pos l + 1)\<rparr>"
  have on: "onward d (?ps\<lparr>content_length := content_length ?ps - 1\<rparr>) l = ?on"
    using assms(4) by (auto simp: onward_def after_one_def counted_def bulk_data_def)
  have mark: "MARK FOR_body ?on = ?on" by (auto simp: MARK_def)
  have to_read: "body_to_read d ?on = ?m - 1"
    using m(1) r' by (simp add: body_to_read_def)
  have whole: "consume_body d l = ?ml\<lparr>parser := ?ps\<lparr>content_length := content_length ?ps - ?m\<rparr>, pos := pos l + unat ?m - 1\<rparr>"
    by (simp add: consume_body_def body_to_read_def Let_def)
  have "consume_body d ?on = ?on\<lparr>parser := ?ps\<lparr>content_length := content_length ?ps - 1 - (?m - 1)\<rparr>,
      pos := pos l + 1 + unat (?m - 1) - 1\<rparr>"
    unfolding consume_body_def Let_def mark to_read by simp
  also have "\<dots> = (consume_body d l)\<lparr>cur := d ! (pos l + 1)\<rparr>"
    using m(2,3) unfolding whole by simp
  finally show ?thesis unfolding on other_cur_def by simp
qed

lemma stay_on_body:
  assumes "switch_ok d U l" "p_state l = s" "s \<in> {s_body_identity, s_chunk_data}"
    "stay s (d ! pos l) (parser l) = Some ps1" "pos l + 1 < length d" "length d < 2 ^ 64"
  shows "same_out (exec_switch observer d c l) (exec_switch observer d c' (onward d ps1 l))"
proof -
  have one: "1 < content_length (parser l)" "ps1 = (parser l)\<lparr>content_length := content_length (parser l) - 1\<rparr>"
    using assms(3,4) by (auto simp: stay_def split: if_splits)
  have core: "core_ok s (parser l)" "http_errno (parser l) = HPE_OK" using assms(1,2) by (simp_all add: switch_ok_def)
  define on where "on = onward d ps1 l"
  have on: "p_state on = s" "content_length (parser on) \<noteq> 0" "content_length (parser on) \<noteq> ULLONG_MAX"
    "flags (parser on) = flags (parser l)"
    using assms(2,3) one(2) min_one(2) [OF one(1)] core(1)
    by (auto simp: on_def onward_def after_one_def counted_def ULLONG_MAX_def core_ok_def)
  have "other_cur (consume_body d l) (consume_body d on)"
    using consume_body_onward [OF one(1) assms(5,6)] assms(2,3) one(2) by (simp add: on_def)
  then obtain x where x: "consume_body d on = (consume_body d l)\<lparr>cur := x\<rparr>"
    unfolding other_cur_def by blast
  have body: "p_state (consume_body d l) = s" "http_errno (parser (consume_body d l)) = HPE_OK"
    using assms(2) core(2) by (simp_all add: consume_body_def Let_def)
  show ?thesis
    unfolding on_def [symmetric]
    using assms(2,3) on core x body
    by (cases "consume_body d l")
      (auto simp: exec_switch_def exec_s_body_identity_def exec_s_chunk_data_def assert_then_def core_ok_def
        other_cur_def DATA_observer Let_def split: option.split)
qed

text \<open>The five cases together.\<close>

lemma stay_on:
  assumes "switch_ok d U l" "marked l" "stay (p_state l) (d ! pos l) (parser l) = Some ps1"
    "pos l + 1 < length d" "length d < 2 ^ 64" "unat (nread (parser l)) + (length d - pos l) \<le> HTTP_MAX_HEADER_SIZE"
  shows "same_result (exec_loop observer d True l) (exec_loop observer d True (onward d ps1 l))"
proof -
  consider "p_state l = s_header_field" | "p_state l = s_header_value" | "p_state l \<in> {s_body_identity, s_chunk_data}"
    | "p_state l = s_body_identity_eof"
    using assms(3) by (auto simp: stay_def split: state.splits)
  then have "same_out (exec_switch observer d (cur l) l) (exec_switch observer d (cur (onward d ps1 l)) (onward d ps1 l))"
  proof cases
    case 1
    with assms show ?thesis by (intro stay_on_field) auto
  next
    case 2
    with assms show ?thesis by (intro stay_on_value) auto
  next
    case 3
    with assms show ?thesis by (intro stay_on_body) auto
  next
    case 4
    then show ?thesis
      using assms(3)
      by (cases l) (auto simp: exec_switch_def exec_s_body_identity_eof_def stay_def onward_def after_one_def counted_def
        bulk_data_def MARK_def other_cur_def Let_def)
  qed
  then show ?thesis unfolding exec_loop_switch by (rule loop_on_same)
qed

end
