(* ===== verification/Parser_Last_Byte.thy ===== *)
theory Parser_Last_Byte
  imports Parser_Bulk
begin

text \<open>
  The five cases that read more than one byte, at a byte where they stop: the last one of the
  buffer, or one that ends what is read. There, two runs stay in step as in the other cases.
\<close>

declare add_event.simps [simp del]
lemmas [simp] = add_Data_empty

section \<open>The last byte of the five cases\<close>

lemma stay_free:
  "stay s c (ps\<lparr>state := st, nread := x\<rparr>) = map_option (\<lambda>ps. ps\<lparr>state := st, nread := x\<rparr>) (stay s c ps)"
proof -
  have "header_value_step c h (ps\<lparr>state := st, nread := x\<rparr>) =
     (case header_value_step c h ps of Value_next h' ps' \<Rightarrow> Value_next h' (ps'\<lparr>state := st, nread := x\<rparr>) | v \<Rightarrow> v)" for h
    by (cases h) (simp_all add: header_value_step_def set_flag_def Let_def)
  moreover have "ps'\<lparr>state := st, nread := x, header_state := h\<rparr> = ps'\<lparr>header_state := h, state := st, nread := x\<rparr>" for ps' h
    by (cases ps') simp
  moreover have "ps\<lparr>state := st, nread := x, content_length := h\<rparr> = ps\<lparr>content_length := h, state := st, nread := x\<rparr>" for h
    by (cases ps) simp
  ultimately show ?thesis
    by (cases s) (simp_all add: stay_def header_field_step_free split: value_step.split)
qed

lemma stay_psim:
  assumes "psim ps ps'"
  shows "stay s c ps = None \<Longrightarrow> stay s c ps' = None"
    "stay s c ps = Some ps1 \<Longrightarrow> \<exists>ps1'. stay s c ps' = Some ps1' \<and> psim ps1 ps1'"
proof -
  obtain st x where "ps' = ps\<lparr>state := st, nread := x\<rparr>" using assms unfolding psim_iff by blast
  then show "stay s c ps = None \<Longrightarrow> stay s c ps' = None"
    "stay s c ps = Some ps1 \<Longrightarrow> \<exists>ps1'. stay s c ps' = Some ps1' \<and> psim ps1 ps1'"
    by (auto simp: stay_free)
qed

lemma bulk_mark_states: "s \<in> bulk_states \<Longrightarrow> s \<in> mark_states (bulk_data s)"
  by (auto simp: bulk_states_def bulk_data_def)

lemma MARK_bulk:
  assumes "marks_ok (p_state l) (pos l) (marks l)" "p_state l \<in> mark_states f"
  shows "view d (MARK f l) = view d l" "\<exists>m \<le> pos l. marks (MARK f l) = (\<lambda>_. None)(f := Some m)"
proof -
  have "view d (MARK f l) = view d l \<and> (\<exists>m \<le> pos l. marks (MARK f l) = (\<lambda>_. None)(f := Some m))"
  proof (cases "marks l f")
    case None
    have "marks l g = None" for g
    proof (cases "marks l g")
      case (Some i)
      then have "p_state l \<in> mark_states g" using assms(1) by (simp add: marks_ok_def)
      then have "g = f" using mark_states_disjoint [OF assms(2)] by blast
      with None show ?thesis by simp
    qed simp
    then have "marks l = (\<lambda>_. None)" by auto
    then show ?thesis by (auto simp: MARK_def view_def joined_snoc byte_range_def intro!: exI [of _ "pos l"])
  next
    case (Some m)
    then have "m \<le> pos l" using assms(1) by (simp add: marks_ok_def)
    with Some show ?thesis using marks_ok_one [OF assms Some] by (auto simp: MARK_def)
  qed
  then show "view d (MARK f l) = view d l" "\<exists>m \<le> pos l. marks (MARK f l) = (\<lambda>_. None)(f := Some m)" by blast+
qed

text \<open>One byte more is seen.\<close>

lemma view_cong: "user l' = user l \<Longrightarrow> marks l' = marks l \<Longrightarrow> pos l' = pos l \<Longrightarrow> view d l' = view d l"
  by (simp add: view_def)

lemma view_cur [simp]: "view d (l\<lparr>cur := c\<rparr>) = view d l"
  by (simp add: view_def)

lemma view_after_one:
  assumes "switch_ok d U l" "p_state l \<in> bulk_states"
  shows "view d ((after_one ps1 l)\<lparr>pos := pos l + 1\<rparr>) = add_event (view d l) (Data (bulk_data (p_state l)) [d ! pos l])"
proof -
  let ?f = "bulk_data (p_state l)"
  have ok: "marks_ok (p_state l) (pos l) (marks l)" "pos l < length d" using assms(1) by (simp_all add: switch_ok_def)
  note mb = MARK_bulk [OF ok(1) bulk_mark_states [OF assms(2)]]
  from mb(2) obtain m where m: "m \<le> pos l" "marks (MARK ?f l) = (\<lambda>_. None)(?f := Some m)" by blast
  have "view d ((after_one ps1 l)\<lparr>pos := pos l + 1\<rparr>) = view d ((MARK ?f l)\<lparr>pos := pos (MARK ?f l) + 1\<rparr>)"
    by (rule view_cong) (simp_all add: after_one_def)
  also have "\<dots> = add_event (view d (MARK ?f l)) (Data ?f [d ! pos l])"
    using view_next [OF m(2), of d] m(1) ok(2) by simp
  finally show ?thesis by (simp add: mb(1))
qed

lemma after_one_simps [simp]:
  "p_state (after_one ps1 l) = p_state l" "user (after_one ps1 l) = user l" "cur (after_one ps1 l) = cur l"
  "parser (after_one ps1 l) = counted (p_state l) ps1" "pos (after_one ps1 l) = pos l"
  "marks (after_one ps1 l) = marks (MARK (bulk_data (p_state l)) l)"
  by (simp_all add: after_one_def)

lemma counted_psim [simp]: "psim (counted s ps) ps' = psim ps ps'" "psim ps (counted s ps') = psim ps ps'"
  by (simp_all add: counted_def)

lemma counted_sel [simp]:
  "upgrade (counted s ps) = upgrade ps" "http_errno (counted s ps) = http_errno ps"
  by (simp_all add: counted_def)

lemma marked_after_one: "marked l \<Longrightarrow> marked ((after_one ps1 l)\<lparr>pos := q, cur := c\<rparr>)" "marked l \<Longrightarrow> marked (after_one ps1 l)"
  by (auto simp: marked_def MARK_def)

text \<open>Where the byte is one that the case goes on after, the two runs stay alike after it.\<close>

lemma alike_after_one:
  assumes "in_step d d' l l'" "p_state l \<in> bulk_states" "stay (p_state l) (cur l) (parser l) = Some ps1"
    "stay (p_state l) (cur l) (parser l') = Some ps1'" "psim ps1 ps1'"
  shows "alike d d' ((after_one ps1 l)\<lparr>pos := pos l + 1\<rparr>) ((after_one ps1' l')\<lparr>pos := pos l' + 1\<rparr>)"
proof -
  have st: "p_state l' = p_state l" "view d l = view d' l'" "calm (parser l) (user l)" "calm (parser l') (user l')"
    "switch_ok d (\<lambda>_. True) l" "switch_ok d' (\<lambda>_. True) l'" "d ! pos l = cur l" "d' ! pos l' = cur l"
    using assms(1) by (auto simp: in_step_def alike_def)
  show ?thesis
    using st assms(5) view_after_one [OF st(5) assms(2), of ps1] view_after_one [OF st(6), of ps1'] assms(2) stay_frame(3) [OF assms(3)] stay_frame(3) [OF assms(4)]
    using assms(1) by (simp add: alike_def calm_def in_step_def)
qed

lemma alike_cur: "alike d d' l l' \<Longrightarrow> alike d d' (l\<lparr>cur := c\<rparr>) (l'\<lparr>cur := c\<rparr>)"
  by (simp add: alike_def)

lemma outs_end:
  assumes "in_step d d' l l'" "p_state l \<in> bulk_states" "stay (p_state l) (cur l) (parser l) = Some ps1"
    "pos l + 1 = length d" "pos l' + 1 = length d'"
    "unat (nread (parser l)) + 1 \<le> HTTP_MAX_HEADER_SIZE" "unat (nread (parser l')) + 1 \<le> HTTP_MAX_HEADER_SIZE"
  shows "outs d d' (pos l) (pos l') (exec_switch observer d c l) (exec_switch observer d' c' l')"
proof -
  have st: "p_state l' = p_state l" "psim (parser l) (parser l')"
    "switch_ok d (\<lambda>_. True) l" "switch_ok d' (\<lambda>_. True) l'" "marked l" "marked l'" "d ! pos l = cur l" "d' ! pos l' = cur l"
    using assms(1) by (auto simp: in_step_def alike_def)
  obtain ps1' where ps1': "stay (p_state l) (cur l) (parser l') = Some ps1'" "psim ps1 ps1'"
    using stay_psim(2) [OF st(2) assms(3)] by blast
  have "exec_switch observer d c l = Break (after_one ps1 l)"
    using stay_end [OF st(3,5) refl _ assms(4,6)] assms(3) st(7) by simp
  moreover have "exec_switch observer d' c' l' = Break (after_one ps1' l')"
    using stay_end [OF st(4,6) st(1) _ assms(5,7)] ps1'(1) st(8) by simp
  ultimately show ?thesis
    using alike_after_one [OF assms(1-3) ps1'] st(5,6) by (simp add: outs.simps marked_after_one)
qed

section \<open>A byte that ends what is read\<close>

lemma COUNT_none:
  "unat (nread (parser l)) \<le> HTTP_MAX_HEADER_SIZE \<Longrightarrow> COUNT_HEADER_SIZE 0 k l = k l"
  using COUNT_fits [of l 0 k] by simp

lemma outs_stop_field:
  assumes step: "in_step d d' l l'" and s: "p_state l = s_header_field" and stop: "stay s_header_field (cur l) (parser l) = None"
  shows "outs d d' (pos l) (pos l') (exec_switch observer d (cur l) l) (exec_switch observer d' (cur l) l')"
proof -
  obtain c where c: "cur l = c" by blast
  have n: "unat (nread (parser l)) \<le> HTTP_MAX_HEADER_SIZE" "unat (nread (parser l')) \<le> HTTP_MAX_HEADER_SIZE"
    using step by (simp_all add: in_step_def switch_ok_def bounds_ok_def)
  have "core_ok s_header_field (parser l)" using step s by (simp add: in_step_def switch_ok_def)
  then have tok: "TOKEN c = NUL"
    using stop c header_field_step_names [of "parser l" c "TOKEN c"] by (auto simp: stay_def core_ok_def split: if_splits)
  from in_step_marked [OF step s c, of FOR_header_field] show ?thesis
  proof cases
    fix ps ps' p p' m m' es es'
    assume l: "l = lit ps s_header_field p c ((\<lambda>_. None)(FOR_header_field := Some m)) es"
      "l' = lit ps' s_header_field p' c ((\<lambda>_. None)(FOR_header_field := Some m')) es'"
      and a: "psim ps ps'" "joined (es @ [Data FOR_header_field (byte_range d m (p - m))]) =
        joined (es' @ [Data FOR_header_field (byte_range d' m' (p' - m'))])"
        "http_errno ps = HPE_OK" "calm ps es" "calm ps' es'" "p < length d" "d ! p = c" "p' < length d'" "d' ! p' = c"
    have "drop p d = c # drop (Suc p) d" "drop p' d' = c # drop (Suc p') d'"
      using a by (simp_all add: Cons_nth_drop_Suc [symmetric])
    then show ?thesis
      using l a n tok
      by (simp add: exec_s_header_field_def COUNT_none callback_defs outs_lit_marked step_defs)
  qed simp_all
qed

lemma bad_length_psim:
  assumes "psim ps ps'" "header_value_step c h ps = Value_bad_length"
  shows "header_value_step c h ps' = Value_bad_length"
proof -
  obtain st x where "ps' = ps\<lparr>state := st, nread := x\<rparr>" using assms(1) unfolding psim_iff by blast
  with assms(2) show ?thesis by (cases h) (auto simp: header_value_step_def Let_def split: if_splits)
qed

lemma psim_header_state:
  assumes "psim ps ps'"
  shows "psim ps (ps'\<lparr>header_state := header_state ps\<rparr>)" "psim ps (ps'\<lparr>state := s, header_state := header_state ps\<rparr>)"
  using assms by (cases ps; cases ps'; simp add: psim_def)+

lemma outs_stop_value:
  assumes step: "in_step d d' l l'" and s: "p_state l = s_header_value" and stop: "stay s_header_value (cur l) (parser l) = None"
  shows "outs d d' (pos l) (pos l') (exec_switch observer d (cur l) l) (exec_switch observer d' (cur l) l')"
proof -
  obtain c where c: "cur l = c" by blast
  have n: "unat (nread (parser l)) \<le> HTTP_MAX_HEADER_SIZE" "unat (nread (parser l')) \<le> HTTP_MAX_HEADER_SIZE"
    using step by (simp_all add: in_step_def switch_ok_def bounds_ok_def)
  have "core_ok s_header_value (parser l)" using step s by (simp add: in_step_def switch_ok_def)
  then have ends: "c = CR \<or> c = LF \<or> header_value_step c (header_state (parser l)) (parser l) = Value_bad_length"
    using stop c header_value_step_state(1) [of "header_state (parser l)" c "parser l"]
    by (auto simp: stay_def core_ok_def split: if_splits value_step.splits)
  from in_step_marked [OF step s c, of FOR_header_value] show ?thesis
  proof cases
    fix ps ps' p p' m m' es es'
    assume l: "l = lit ps s_header_value p c ((\<lambda>_. None)(FOR_header_value := Some m)) es"
      "l' = lit ps' s_header_value p' c ((\<lambda>_. None)(FOR_header_value := Some m')) es'"
      and a: "psim ps ps'" "joined (es @ [Data FOR_header_value (byte_range d m (p - m))]) =
        joined (es' @ [Data FOR_header_value (byte_range d' m' (p' - m'))])"
        "http_errno ps = HPE_OK" "calm ps es" "calm ps' es'" "p < length d" "d ! p = c" "p' < length d'" "d' ! p' = c"
    have dr: "drop p d = c # drop (Suc p) d" "drop p' d' = c # drop (Suc p') d'"
      using a by (simp_all add: Cons_nth_drop_Suc [symmetric])
    from ends show ?thesis
    proof (elim disjE)
      assume "c = CR"
      then show ?thesis
        using l a n dr
        by (simp add: exec_s_header_value_def COUNT_none callback_defs outs_lit_marked psim_header_state step_defs)
    next
      assume "c = LF"
      then show ?thesis
        using l a n dr
        by (simp add: exec_s_header_value_def COUNT_none callback_defs outs_lit_marked psim_header_state step_defs)
    next
      assume bad: "header_value_step c (header_state (parser l)) (parser l) = Value_bad_length"
      then have "header_value_step c (header_state ps) ps' = Value_bad_length" using l a(1) bad_length_psim by simp
      with bad show ?thesis
        using l a n dr
        by (simp add: exec_s_header_value_def COUNT_none callback_defs outs_lit_marked psim_header_state step_defs)
    qed
  qed simp_all
qed

lemma consume_body_last:
  assumes "switch_ok d U l" "p_state l = s" "s \<in> {s_body_identity, s_chunk_data}"
    "content_length (parser l) = 1" "length d < 2 ^ 64"
  obtains m where "m \<le> pos l"
    "consume_body d l = lit ((parser l)\<lparr>content_length := 0\<rparr>) s (pos l) (cur l) ((\<lambda>_. None)(FOR_body := Some m)) (user l)"
    "add_event (joined (user l)) (Data FOR_body (byte_range d m (Suc (pos l) - m))) = add_event (view d l) (Data FOR_body [d ! pos l])"
proof -
  have ok: "marks_ok (p_state l) (pos l) (marks l)" "pos l < length d" using assms(1) by (simp_all add: switch_ok_def)
  have "p_state l \<in> mark_states FOR_body" using assms(2,3) by auto
  note mb = MARK_bulk [OF ok(1) this]
  from mb(2) obtain m where m: "m \<le> pos l" "marks (MARK FOR_body l) = (\<lambda>_. None)(FOR_body := Some m)" by blast
  have "unat (body_to_read d l) = 1"
    using body_to_read_unat [OF assms(5), of l] assms(4) ok(2) by simp
  then have "body_to_read d l = 1" by (simp add: word_unat_eq_iff)
  then have "consume_body d l = (MARK FOR_body l)\<lparr>parser := (parser l)\<lparr>content_length := 0\<rparr>\<rparr>"
    using assms(4) by (cases l) (simp add: consume_body_def Let_def MARK_def)
  then have body: "consume_body d l = lit ((parser l)\<lparr>content_length := 0\<rparr>) s (pos l) (cur l) ((\<lambda>_. None)(FOR_body := Some m)) (user l)"
    using m(2) assms(2) by (cases l) (auto simp: MARK_def split: if_splits)
  have "view d ((MARK FOR_body l)\<lparr>pos := pos (MARK FOR_body l) + 1\<rparr>) = add_event (view d (MARK FOR_body l)) (Data FOR_body [d ! pos l])"
    using view_next [OF m(2), of d] m(1) ok(2) by simp
  then have "add_event (joined (user l)) (Data FOR_body (byte_range d m (Suc (pos l) - m))) = add_event (view d l) (Data FOR_body [d ! pos l])"
    using mb(1) m(2) by (simp add: view_def joined_snoc)
  with m(1) body show thesis by (rule that)
qed

lemma outs_stop_body:
  assumes step: "in_step d d' l l'" and s: "p_state l = s" "s \<in> {s_body_identity, s_chunk_data}"
    and stop: "stay s (cur l) (parser l) = None" and len: "length d < 2 ^ 64" "length d' < 2 ^ 64"
  shows "outs d d' (pos l) (pos l') (exec_switch observer d (cur l) l) (exec_switch observer d' (cur l) l')"
proof -
  have st: "p_state l' = s" "psim (parser l) (parser l')" "view d l = view d' l'" "calm (parser l) (user l)" "calm (parser l') (user l')"
    "switch_ok d (\<lambda>_. True) l" "switch_ok d' (\<lambda>_. True) l'" "d ! pos l = cur l" "d' ! pos l' = cur l"
    "http_errno (parser l) = HPE_OK" "core_ok s (parser l)" "cur l' = cur l" "pos l < length d" "pos l' < length d'"
    using step s by (auto simp: in_step_def alike_def switch_ok_def)
  have "\<not> 1 < content_length (parser l)" "content_length (parser l) \<noteq> 0"
    using stop s(2) st(11) by (auto simp: stay_def core_ok_def split: if_splits)
  then have cl: "content_length (parser l) = 1"
    by (simp add: word_unat_eq_iff word_less_nat_alt)
  then have cl': "content_length (parser l') = 1" using psim_sel(5) [OF st(2)] by simp
  obtain m where m: "m \<le> pos l"
    "consume_body d l = lit ((parser l)\<lparr>content_length := 0\<rparr>) s (pos l) (cur l) ((\<lambda>_. None)(FOR_body := Some m)) (user l)"
    "add_event (joined (user l)) (Data FOR_body (byte_range d m (Suc (pos l) - m))) = add_event (view d l) (Data FOR_body [d ! pos l])"
    using consume_body_last [OF st(6) s cl len(1)] by blast
  obtain m' where m': "m' \<le> pos l'"
    "consume_body d' l' = lit ((parser l')\<lparr>content_length := 0\<rparr>) s (pos l') (cur l) ((\<lambda>_. None)(FOR_body := Some m')) (user l')"
    "add_event (joined (user l')) (Data FOR_body (byte_range d' m' (Suc (pos l') - m'))) = add_event (view d l) (Data FOR_body [d ! pos l])"
    using consume_body_last [OF st(7) st(1) s(2) cl' len(2)] st by metis
  note sel = psim_sel [OF st(2)]
  note upd = psim_update [OF st(2)]
  show ?thesis
  proof (cases "s = s_chunk_data")
    case True
    then show ?thesis
      using s(1) st sel m m' cl cl'
      by (simp add: exec_switch_def exec_s_chunk_data_def assert_then_def core_ok_def ULLONG_MAX_def outs.simps
          alike_def view_def joined_snoc marked_lit unbegun_def calm_def upd)
  next
    case False
    then show ?thesis
      using s st sel m m' cl cl'
      by (simp add: exec_switch_def exec_s_body_identity_def assert_then_def core_ok_def ULLONG_MAX_def outs.simps
          DATA_observer alike_def view_def joined_snoc marked_lit unbegun_def calm_def upd Suc_diff_le)
  qed
qed

text \<open>So all cases of the switch stay in step, but for a byte that a case goes on after.\<close>

lemma outs_all:
  assumes "in_step d d' l l'" "stay (p_state l) (cur l) (parser l) \<noteq> None \<longrightarrow> pos l + 1 = length d \<and> pos l' + 1 = length d'"
    "unat (nread (parser l)) + 1 \<le> HTTP_MAX_HEADER_SIZE" "unat (nread (parser l')) + 1 \<le> HTTP_MAX_HEADER_SIZE"
    "length d < 2 ^ 64" "length d' < 2 ^ 64"
  shows "outs d d' (pos l) (pos l') (exec_switch observer d (cur l) l) (exec_switch observer d' (cur l') l')"
proof -
  have cur: "cur l' = cur l" using assms(1) by (simp add: in_step_def alike_def)
  consider "p_state l \<notin> bulk_states" | ps1 where "p_state l \<in> bulk_states" "stay (p_state l) (cur l) (parser l) = Some ps1"
    | "p_state l \<in> bulk_states" "stay (p_state l) (cur l) (parser l) = None" by blast
  then show ?thesis
  proof cases
    case 1
    then show ?thesis using locked_all assms(1) unfolding locked_def cur by blast
  next
    case 2
    then show ?thesis using outs_end [OF assms(1) 2] assms(2,3,4) by simp
  next
    case 3
    have "p_state l \<noteq> s_body_identity_eof" using 3(2) by (auto simp: stay_def)
    then consider "p_state l = s_header_field" | "p_state l = s_header_value" | "p_state l \<in> {s_body_identity, s_chunk_data}"
      using 3(1) by (auto simp: bulk_states_def)
    then show ?thesis
    proof cases
      case 1
      then show ?thesis using outs_stop_field [OF assms(1)] 3(2) cur by simp
    next
      case 2
      then show ?thesis using outs_stop_value [OF assms(1)] 3(2) cur by simp
    next
      case 3
      then show ?thesis using outs_stop_body [OF assms(1) refl] \<open>stay _ _ _ = None\<close> assms(5,6) cur by simp
    qed
  qed
qed

text \<open>The header bytes counted by such a step.\<close>

lemma stop_kept:
  assumes "switch_ok d U l" "d ! pos l = cur l" "stay (p_state l) (cur l) (parser l) = None" "p_state l \<in> bulk_states"
  shows "kept (nread (parser l)) (cur l) (exec_switch observer d c l)"
proof -
  have ok: "http_errno (parser l) = HPE_OK" "core_ok (p_state l) (parser l)" "unat (nread (parser l)) \<le> HTTP_MAX_HEADER_SIZE"
    using assms(1) by (simp_all add: switch_ok_def bounds_ok_def)
  have dr: "drop (pos l) d = cur l # drop (Suc (pos l)) d"
    using assms(1,2) by (simp add: switch_ok_def Cons_nth_drop_Suc [symmetric])
  have "p_state l \<noteq> s_body_identity_eof" using assms(3) by (auto simp: stay_def)
  then consider "p_state l = s_header_field" | "p_state l = s_header_value" | "p_state l \<in> {s_body_identity, s_chunk_data}"
    using assms(4) by (auto simp: bulk_states_def)
  then show ?thesis
  proof cases
    case 1
    then have "TOKEN (cur l) = NUL"
      using ok(2) assms(3) header_field_step_names [of "parser l" "cur l" "TOKEN (cur l)"]
      by (auto simp: stay_def core_ok_def split: if_splits)
    then show ?thesis
      using 1 ok dr by (simp add: exec_s_header_field_def COUNT_none kept_defs)
  next
    case 2
    then have ends: "cur l = CR \<or> cur l = LF \<or> header_value_step (cur l) (header_state (parser l)) (parser l) = Value_bad_length"
      using ok(2) assms(3) header_value_step_state(1) [of "header_state (parser l)" "cur l" "parser l"]
      by (auto simp: stay_def core_ok_def split: if_splits value_step.splits)
    then show ?thesis
      using 2 ok dr by (elim disjE) (simp_all add: exec_s_header_value_def COUNT_none kept_defs)
  next
    case 3
    then show ?thesis
      using ok by (auto simp: exec_s_body_identity_def exec_s_chunk_data_def consume_body_def kept_defs)
  qed
qed

lemma step_kept:
  assumes "switch_ok d U l" "marked l" "d ! pos l = cur l"
    "stay (p_state l) (cur l) (parser l) \<noteq> None \<longrightarrow> pos l + 1 = length d"
    "unat (nread (parser l)) + 1 \<le> HTTP_MAX_HEADER_SIZE"
  shows "exec_switch observer d c l = Break l1 \<Longrightarrow> unat (nread (parser l1)) \<le> unat (nread (parser l)) + 1"
    "exec_switch observer d c l = Reexecute l1 \<Longrightarrow> unat (nread (parser l1)) \<le> unat (nread (parser l)) \<and> cur l1 = cur l"
proof -
  have ok: "http_errno (parser l) = HPE_OK" using assms(1) by (simp add: switch_ok_def)
  have no: "kept (nread (parser l)) (cur l) (exec_switch observer d c l)" if "stay (p_state l) (cur l) (parser l) = None"
    using stop_kept [OF assms(1,3) that] exec_switch_kept [OF _ ok order_refl] by blast
  have yes: "exec_switch observer d c l = Break (after_one ps1 l)" "nread ps1 = nread (parser l)"
    if "stay (p_state l) (cur l) (parser l) = Some ps1" for ps1
    using stay_end [OF assms(1,2) refl _ _ assms(5)] that assms(3,4) stay_frame(1) [OF that] by simp_all
  have counted: "unat (nread (counted (p_state l) ps1)) \<le> unat (nread (parser l)) + 1" if "nread ps1 = nread (parser l)" for ps1
    using that assms(5) unat_plus_if' [of "nread (parser l)" 1] by (auto simp: counted_def HTTP_MAX_HEADER_SIZE_def split: if_splits)
  show "exec_switch observer d c l = Break l1 \<Longrightarrow> unat (nread (parser l1)) \<le> unat (nread (parser l)) + 1"
    using no yes counted by (cases "stay (p_state l) (cur l) (parser l)") (auto simp: word_le_nat_alt)
  show "exec_switch observer d c l = Reexecute l1 \<Longrightarrow> unat (nread (parser l1)) \<le> unat (nread (parser l)) \<and> cur l1 = cur l"
    using no yes by (cases "stay (p_state l) (cur l) (parser l)") (auto simp: word_le_nat_alt)
qed

end
