(* ===== verification/Parser_Fragments.thy ===== *)
theory Parser_Fragments
  imports Parser_Last_Byte
begin

text \<open>
  How a stream is cut into buffers does not matter: one call of \<open>http_parser_execute\<close> on all
  bytes, and one call per portion, show an application the same.
\<close>

section \<open>Portion by portion\<close>

text \<open>
  A caller that goes on with the next portion unless the parser has an error or has left HTTP
  (the end of a message with an upgrade), and adds up the counts.
\<close>

definition and_then ::
  "event list result option \<Rightarrow> (http_parser \<Rightarrow> event list \<Rightarrow> event list result option) \<Rightarrow> event list result option" where
  "and_then r k =
     (case r of
        Some (Returned n ps es) \<Rightarrow>
          if http_errno ps = HPE_OK \<and> calm ps es
          then (case k ps es of
                  Some (Returned n' ps' es') \<Rightarrow> Some (Returned (n + n') ps' es')
                | r' \<Rightarrow> r')
          else r
      | _ \<Rightarrow> r)"

fun deliver :: "byte list list \<Rightarrow> http_parser \<Rightarrow> event list \<Rightarrow> event list result option" where
  "deliver [] ps es = Some (Returned 0 ps es)"
| "deliver (d # ds) ps es = and_then (http_parser_execute observer d ps es) (deliver ds)"

definition bytewise :: "byte list \<Rightarrow> byte list list" where
  "bytewise d = map (\<lambda>c. [c]) d"

lemma bytewise_simps [simp]:
  "bytewise [] = []" "bytewise (c # d) = [c] # bytewise d" "bytewise (d @ d') = bytewise d @ bytewise d'"
  by (simp_all add: bytewise_def)

text \<open>
  Results of a call that began at \<open>p\<close> bytes of another's input: an error may leave data unseen
  that the other has shown. \<open>B\<close> bounds the header bytes counted.
\<close>

fun is_data :: "event \<Rightarrow> bool" where
  "is_data (Data f bs) = True"
| "is_data e = False"

definition only_data :: "event list \<Rightarrow> bool" where
  "only_data es = list_all is_data es"

definition same_end :: "nat \<Rightarrow> http_parser \<Rightarrow> event list \<Rightarrow> http_parser \<Rightarrow> event list \<Rightarrow> bool" where
  "same_end B ps es ps' es' \<longleftrightarrow>
     psim ps ps' \<and> state ps' = state ps
     \<and> (if http_errno ps = HPE_OK
        then joined es = joined es' \<and> calm ps es = calm ps' es'
          \<and> (calm ps es \<longrightarrow> unat (nread ps) \<le> B \<and> unat (nread ps') \<le> B)
        else \<exists>es1. only_data es1 \<and> joined (es @ es1) = joined es')"

definition agree :: "nat \<Rightarrow> nat \<Rightarrow> event list result option \<Rightarrow> event list result option \<Rightarrow> bool" where
  "agree B p r r' \<longleftrightarrow>
     (\<exists>n ps es ps' es'. r = Some (Returned (p + n) ps es) \<and> r' = Some (Returned n ps' es') \<and> same_end B ps es ps' es')"

lemma agree_and_then:
  assumes "agree B (Suc p) r (k ps es)" "http_errno ps = HPE_OK" "calm ps es"
  shows "agree B p r (and_then (Some (Returned 1 ps es)) k)"
  using assms unfolding agree_def and_then_def by auto

lemma agree_same:
  assumes "same_result r0 r" "agree B p r r'"
  shows "agree B p r0 r'"
proof -
  have "same_end B ps es ps' es'" if "same_end B (ps\<lparr>nread := x\<rparr>) es ps' es'" "http_errno ps \<noteq> HPE_OK" for ps es ps' es' x
    using that by (simp add: same_end_def)
  with assms show ?thesis unfolding same_result_def agree_def by auto
qed

lemma agree_error:
  assumes "same_end B ps es ps' es'" "http_errno ps \<noteq> HPE_OK"
  shows "agree B p (Some (Returned p ps es)) (and_then (Some (Returned 0 ps' es')) k)"
  using assms psim_sel(10) [of ps ps'] unfolding agree_def and_then_def by (auto simp: same_end_def)

section \<open>The end of a buffer\<close>

lemma one_mark:
  assumes "marks_ok s n mk"
  obtains "mk = (\<lambda>_. None)" | f m where "m \<le> n" "s \<in> mark_states f" "mk = (\<lambda>_. None)(f := Some m)"
proof (cases "\<exists>f. mk f \<noteq> None")
  case True
  then obtain f m where m: "mk f = Some m" by auto
  then have "m \<le> n" "s \<in> mark_states f" using assms by (simp_all add: marks_ok_def)
  with marks_ok_one [OF assms _ m] show thesis using that(2) by blast
qed (auto intro: that(1))

lemma exec_finish_view:
  assumes "marks_ok (p_state l) (pos l) (marks l)" "pos l = length d" "http_errno (parser l) = HPE_OK" "calm (parser l) (user l)"
  obtains es where "exec_finish observer d l = Returned (length d) ((parser l)\<lparr>state := p_state l\<rparr>) es"
    "joined es = view d l" "calm (parser l) es"
proof -
  have "\<exists>es. exec_finish observer d l = Returned (length d) ((parser l)\<lparr>state := p_state l\<rparr>) es
      \<and> joined es = view d l \<and> calm (parser l) es"
  proof (rule one_mark [OF assms(1)])
    assume "marks l = (\<lambda>_. None)"
    then show ?thesis
      using assms(2-4)
      by (cases l) (simp add: exec_finish_def assert_then_def CALLBACK_DATA_NOADVANCE_def DATA_observer RETURN_def
        outcome_result_def view_def)
  next
    fix f m assume "marks l = (\<lambda>_. None)(f := Some m)"
    then show ?thesis
      using assms(2-4)
      by (cases l; cases f) (simp_all add: exec_finish_def assert_then_def CALLBACK_DATA_NOADVANCE_def DATA_observer RETURN_def
        outcome_result_def view_def calm_def)
  qed
  then show thesis using that by blast
qed

section \<open>The next byte\<close>

lemma view_initial [simp]: "view d (initial_locals ps u) = joined u"
proof -
  have "joined (u @ pending d 0 (initial_marks (state ps))) = joined u"
    by (cases "state ps") (simp_all add: initial_marks_def pending_def all_data_for_def joined_append byte_range_def)
  then show ?thesis by (simp add: view_def initial_locals_def)
qed

lemma marked_initial [simp]: "marked (initial_locals ps u)"
  unfolding marked_def
proof (intro allI impI)
  fix f assume "f \<noteq> FOR_body" "p_state (initial_locals ps u) \<in> mark_states f"
  then show "marks (initial_locals ps u) f \<noteq> None"
    by (cases f) (auto simp: initial_locals_def initial_marks_def)
qed

lemma marks_ok_initial: "marks_ok s 0 (initial_marks s)"
  by (auto simp: marks_ok_def initial_marks_def split: if_splits)

text \<open>What a parser and events between two calls have in common with locals.\<close>

definition between :: "byte list \<Rightarrow> event list locals \<Rightarrow> http_parser \<Rightarrow> event list \<Rightarrow> bool" where
  "between d l ps' es' \<longleftrightarrow>
     p_state l = state ps' \<and> psim (parser l) ps' \<and> view d l = joined es' \<and> marked l
     \<and> calm (parser l) (user l) \<and> calm ps' es'
     \<and> core_ok (state ps') ps' \<and> chunk_nread 0 (state ps') ps' \<and> bounds_ok ps'"

lemma count_one:
  assumes "unat (nread (parser l)) + 1 \<le> HTTP_MAX_HEADER_SIZE"
  shows "count_header_byte k l =
    k (l\<lparr>parser := if PARSING_HEADER (p_state l) then (parser l)\<lparr>nread := nread (parser l) + 1\<rparr> else parser l\<rparr>)"
  using COUNT_fits [of l 1 k] assms by (simp add: count_header_byte_def)

text \<open>The first byte of a call.\<close>

lemma enter:
  assumes "http_errno ps = HPE_OK" "core_ok (state ps) ps" "chunk_nread 0 (state ps) ps" "bounds_ok ps"
    "unat (nread ps) + 1 \<le> HTTP_MAX_HEADER_SIZE" "d \<noteq> []"
  obtains l where "http_parser_execute observer d ps es = exec_loop observer d True l"
    "switch_ok d (\<lambda>_. True) l" "pos l = 0" "cur l = d ! 0" "unat (nread (parser l)) \<le> unat (nread ps) + 1"
    "p_state l = state ps" "psim (parser l) ps" "upgrade (parser l) = upgrade ps" "user l = es" "view d l = joined es" "marked l"
proof -
  let ?i = "(initial_locals ps es)\<lparr>cur := d ! 0\<rparr>"
  define l where "l = ?i\<lparr>parser := if PARSING_HEADER (state ps) then ps\<lparr>nread := nread ps + 1\<rparr> else ps\<rparr>"
  have "count_header_byte Reexecute ?i = Reexecute l"
    using count_one [of ?i Reexecute] assms(5) by (simp add: l_def initial_locals_def)
  then have "http_parser_execute observer d ps es = exec_loop observer d True l"
    unfolding http_parser_execute_def using assms(1,6) by (subst exec_loop.simps) (simp add: initial_locals_def)
  moreover have "switch_ok d (\<lambda>_. True) l"
    using assms marks_ok_initial [of "state ps"]
    by (auto simp: switch_ok_def l_def initial_locals_def chunk_nread_def bounds_ok_def nread_plus_one PARSING_HEADER_iff)
  moreover have "view d l = view d (initial_locals ps es)" by (rule view_cong) (simp_all add: l_def)
  moreover have "marked l" using marked_initial [of ps es] by (simp add: marked_def l_def)
  moreover have "pos l = 0" "cur l = d ! 0" "unat (nread (parser l)) \<le> unat (nread ps) + 1"
    "p_state l = state ps" "psim (parser l) ps" "upgrade (parser l) = upgrade ps" "user l = es"
    using nread_plus_one [of "nread ps"] assms(5) by (simp_all add: l_def initial_locals_def)
  ultimately show thesis using that [of l] by simp
qed

lemma next_byte:
  assumes "between d l ps' es'" "switch_ok d (\<lambda>_. True) l" "d ! pos l = cur l" "unat (nread ps') + 1 \<le> HTTP_MAX_HEADER_SIZE"
  obtains l' where "http_parser_execute observer [cur l] ps' es' = exec_loop observer [cur l] True l'"
    "in_step d [cur l] l l'" "pos l' = 0" "unat (nread (parser l')) \<le> unat (nread ps') + 1"
proof -
  have b: "p_state l = state ps'" "psim (parser l) ps'" "view d l = joined es'" "marked l"
     "calm (parser l) (user l)" "calm ps' es'"
     "core_ok (state ps') ps'" "chunk_nread 0 (state ps') ps'" "bounds_ok ps'" "http_errno ps' = HPE_OK"
    using assms(1,2) psim_sel(10) by (auto simp: between_def switch_ok_def)
  from enter [OF b(10,7-9) assms(4), of "[cur l]" es'] obtain l' where
    l': "http_parser_execute observer [cur l] ps' es' = exec_loop observer [cur l] True l'"
    "switch_ok [cur l] (\<lambda>_. True) l'" "pos l' = 0" "cur l' = cur l" "unat (nread (parser l')) \<le> unat (nread ps') + 1"
    "p_state l' = state ps'" "psim (parser l') ps'" "upgrade (parser l') = upgrade ps'" "user l' = es'"
    "view [cur l] l' = joined es'" "marked l'" by auto
  have "psim (parser l) (parser l')" using b(2) l'(7) by (simp add: psim_def)
  then have "in_step d [cur l] l l'"
    using b l' assms(2,3) by (simp add: in_step_def alike_def calm_def)
  then show thesis using that l' by blast
qed

lemma between_cur [simp]: "between d (l\<lparr>cur := c\<rparr>) = between d l"
  by (simp add: between_def marked_def fun_eq_iff)

text \<open>The end of a buffer of one byte.\<close>

lemma after_byte:
  assumes "break_ok [c] (\<lambda>_. True) 0 l1" "pos l1 = 0" "alike d [c] l2 (l1\<lparr>pos := 1\<rparr>)" "marked l2"
  obtains ps es where "exec_loop observer [c] False (l1\<lparr>pos := 1\<rparr>) = Some (Returned 1 ps es)"
    "between d l2 ps es" "nread ps = nread (parser l1)" "http_errno ps = HPE_OK" "calm ps es"
proof -
  let ?l = "l1\<lparr>pos := 1\<rparr>"
  have ok: "http_errno (parser l1) = HPE_OK" "marks_ok (p_state l1) 0 (marks l1)" "core_ok (p_state l1) (parser l1)"
    "chunk_nread 0 (p_state l1) (parser l1)" "bounds_ok (parser l1)"
    using assms(1,2) by (simp_all add: break_ok_def)
  have al: "p_state l1 = p_state l2" "psim (parser l2) (parser l1)" "view d l2 = view [c] ?l"
    "calm (parser l2) (user l2)" "calm (parser l1) (user l1)"
    using assms(3) by (simp_all add: alike_def)
  have "marks_ok (p_state ?l) (pos ?l) (marks ?l)" using ok(2) by (auto simp: marks_ok_def)
  from exec_finish_view [OF this, of "[c]"] ok(1) al(5) obtain es where
    es: "exec_finish observer [c] ?l = Returned 1 ((parser l1)\<lparr>state := p_state l1\<rparr>) es" "joined es = view [c] ?l"
      "calm (parser l1) es" by auto
  have "exec_loop observer [c] False ?l = Some (Returned 1 ((parser l1)\<lparr>state := p_state l1\<rparr>) es)"
    using es(1) by (subst exec_loop.simps) simp
  moreover have "between d l2 ((parser l1)\<lparr>state := p_state l1\<rparr>) es"
    using al es assms(4) ok by (simp add: between_def calm_def)
  ultimately show thesis using that es(3) ok(1) by (simp add: calm_def)
qed

text \<open>From one byte to the next in the longer buffer.\<close>

lemma next_in_buffer:
  assumes "break_ok d (\<lambda>_. True) n l1" "pos l1 + 1 < length d" "unat (nread (parser l1)) + 1 \<le> HTTP_MAX_HEADER_SIZE"
    "between d (l1\<lparr>pos := pos l1 + 1\<rparr>) ps es"
  obtains l2 where "exec_loop observer d False (l1\<lparr>pos := pos l1 + 1\<rparr>) = exec_loop observer d True l2"
    "switch_ok d (\<lambda>_. True) l2" "pos l2 = pos l1 + 1" "d ! pos l2 = cur l2" "between d l2 ps es"
    "unat (nread (parser l2)) \<le> unat (nread (parser l1)) + 1"
proof -
  have ok: "http_errno (parser l1) = HPE_OK" "marks_ok (p_state l1) (pos l1) (marks l1)" "core_ok (p_state l1) (parser l1)"
    "chunk_nread 0 (p_state l1) (parser l1)" "bounds_ok (parser l1)"
    using assms(1) by (simp_all add: break_ok_def)
  let ?h = "l1\<lparr>pos := pos l1 + 1, cur := d ! (pos l1 + 1)\<rparr>"
  define l2 where "l2 = ?h\<lparr>parser := if PARSING_HEADER (p_state l1) then (parser l1)\<lparr>nread := nread (parser l1) + 1\<rparr> else parser l1\<rparr>"
  have "count_header_byte Reexecute ?h = Reexecute l2"
    using count_one [of ?h Reexecute] assms(3) by (simp add: l2_def)
  then have "exec_loop observer d False (l1\<lparr>pos := pos l1 + 1\<rparr>) = exec_loop observer d True l2"
    using assms(2) by (subst exec_loop.simps) simp
  moreover have "switch_ok d (\<lambda>_. True) l2"
    using ok assms(2,3) marks_ok_mono [OF ok(2), of "pos l1 + 1"]
    by (auto simp: switch_ok_def l2_def chunk_nread_def bounds_ok_def nread_plus_one PARSING_HEADER_iff)
  moreover have "between d l2 ps es"
  proof -
    have "view d l2 = view d (l1\<lparr>pos := pos l1 + 1\<rparr>)" by (rule view_cong) (simp_all add: l2_def)
    moreover have "marked l2 = marked (l1\<lparr>pos := pos l1 + 1\<rparr>)" by (simp add: marked_def l2_def)
    ultimately show ?thesis using assms(4) by (simp add: between_def calm_def l2_def)
  qed
  moreover have "unat (nread (parser l2)) \<le> unat (nread (parser l1)) + 1"
    using assms(3) nread_plus_one [of "nread (parser l1)"] by (simp add: l2_def)
  moreover have "pos l2 = pos l1 + 1" "d ! pos l2 = cur l2" by (simp_all add: l2_def)
  ultimately show thesis using that [of l2] by blast
qed

section \<open>One call and one call per byte\<close>

lemma rank_le': "rank s \<le> 3"
  by (simp add: rank.simps)

lemma observer_good:
  "length d < 2 ^ 64 \<Longrightarrow> switch_ok d (\<lambda>_. True) l \<Longrightarrow>
     outcome_ok d (\<lambda>_. True) (pos l) (p_state l) (exec_switch observer d c l)"
  using parser_client.switch_good [OF client_ok_parser_client [OF observer_ok]] by blast

lemma core_ok_psim: "psim ps ps' \<Longrightarrow> core_ok s ps = core_ok s ps'"
  unfolding psim_iff by auto

lemma bounds_ok_psim: "psim ps ps' \<Longrightarrow> bounds_ok ps' \<Longrightarrow> unat (nread ps) \<le> HTTP_MAX_HEADER_SIZE \<Longrightarrow> bounds_ok ps"
  using psim_sel [of ps ps'] by (simp add: bounds_ok_def)

text \<open>A byte that a case goes on after: what holds at the next one.\<close>

lemma stay_step:
  assumes step: "in_step d [cur l] l l'" and zero: "pos l' = 0" and len: "length d < 2 ^ 64"
    and stay: "stay (p_state l) (cur l) (parser l) = Some ps1" and more: "pos l + 1 < length d"
    and n: "unat (nread (parser l)) + 1 \<le> HTTP_MAX_HEADER_SIZE" "unat (nread (parser l')) + 1 \<le> HTTP_MAX_HEADER_SIZE"
  obtains ps es where "exec_loop observer [cur l] True l' = Some (Returned 1 ps es)" "http_errno ps = HPE_OK" "calm ps es"
    "unat (nread ps) \<le> unat (nread (parser l')) + 1"
    "between d (onward d ps1 l) ps es" "switch_ok d (\<lambda>_. True) (onward d ps1 l)" "d ! pos (onward d ps1 l) = cur (onward d ps1 l)"
    "unat (nread (parser (onward d ps1 l))) \<le> unat (nread (parser l)) + 1"
proof -
  have st: "p_state l' = p_state l" "psim (parser l) (parser l')" "cur l' = cur l"
    "switch_ok d (\<lambda>_. True) l" "switch_ok [cur l] (\<lambda>_. True) l'" "marked l" "marked l'" "d ! pos l = cur l"
    using step by (auto simp: in_step_def alike_def)
  have bulk: "p_state l \<in> bulk_states" using stay by (auto simp: stay_def bulk_states_def split: state.splits)
  obtain ps1' where ps1': "stay (p_state l) (cur l) (parser l') = Some ps1'" "psim ps1 ps1'"
    using stay_psim(2) [OF st(2) stay] by blast
  let ?l1 = "after_one ps1' l'" and ?l2 = "(after_one ps1 l)\<lparr>pos := pos l + 1\<rparr>"
  have single: "exec_switch observer [cur l] (cur l') l' = Break ?l1"
    using stay_end [OF st(5,7) st(1), of ps1'] ps1' zero n by simp
  then have brk: "break_ok [cur l] (\<lambda>_. True) 0 ?l1"
    using observer_good [OF _ st(5), of "cur l'"] zero by simp
  have al: "alike d [cur l] ?l2 (?l1\<lparr>pos := 1\<rparr>)"
    using alike_after_one [OF step bulk stay ps1'] zero by simp
  have "marked ?l2" using marked_after_one(2) [OF st(6), of ps1] by (auto simp: marked_def)
  from after_byte [OF brk _ al this] zero obtain ps es where
    out: "exec_loop observer [cur l] False (?l1\<lparr>pos := 1\<rparr>) = Some (Returned 1 ps es)"
    "between d ?l2 ps es" "nread ps = nread (parser ?l1)" "http_errno ps = HPE_OK" "calm ps es" by auto
  have count: "unat (nread (counted s q)) \<le> unat (nread q) + 1" if "unat (nread q) + 1 \<le> HTTP_MAX_HEADER_SIZE" for s q
    using nread_plus_one [OF that] by (simp add: counted_def)
  have nread: "nread ps1 = nread (parser l)" "nread ps1' = nread (parser l')"
    using stay_frame(1) [OF stay] stay_frame(1) [OF ps1'(1)] by simp_all
  have onw: "onward d ps1 l = ?l2\<lparr>cur := d ! (pos l + 1)\<rparr>" by (simp add: onward_def)
  have "exec_loop observer [cur l] True l' = Some (Returned 1 ps es)"
    using single out(1) zero by (simp add: exec_loop_switch loop_on_def)
  moreover have "unat (nread ps) \<le> unat (nread (parser l')) + 1"
    using out(3) count [of ps1' "p_state l"] n(2) nread(2) st(1) by simp
  moreover have "between d (onward d ps1 l) ps es" unfolding onw using out(2) by simp
  moreover have nr: "unat (nread (parser (onward d ps1 l))) \<le> unat (nread (parser l)) + 1"
    unfolding onw using count [of ps1 "p_state l"] n(1) nread(1) by simp
  moreover have "switch_ok d (\<lambda>_. True) (onward d ps1 l)"
  proof -
    have "psim (counted (p_state l) ps1) (counted (p_state l) ps1')" using ps1'(2) by simp
    from core_ok_psim [OF this, of "p_state l"] bounds_ok_psim [OF this]
    have "core_ok (p_state l) (counted (p_state l) ps1)" "bounds_ok (counted (p_state l) ps1)"
      using brk st(1) nr n(1) onw by (simp_all add: break_ok_def)
    moreover have "http_errno ps1 = HPE_OK" using stay_frame(2) [OF stay] st(4) by (simp add: switch_ok_def)
    moreover have "marks_ok (p_state l) (pos l + 1) (marks (MARK (bulk_data (p_state l)) l))"
      using MARK_ok [of "p_state l" l "bulk_data (p_state l)"] bulk_mark_states [OF bulk] st(4)
      by (auto simp: switch_ok_def intro: marks_ok_mono)
    moreover have "p_state l \<noteq> s_chunk_size_start" using bulk by (auto simp: bulk_states_def)
    ultimately show ?thesis using more by (simp add: onw switch_ok_def)
  qed
  moreover have "d ! pos (onward d ps1 l) = cur (onward d ps1 l)" by (simp add: onward_def)
  ultimately show thesis using that out(4,5) by blast
qed

text \<open>The other bytes: the outcome of the case, and the buffer of one byte ends.\<close>

lemma break_step:
  assumes step: "in_step d [cur l] l l'" and zero: "pos l' = 0" and len: "length d < 2 ^ 64"
    and R: "exec_switch observer d (cur l) l = Break l1" "exec_switch observer [cur l] (cur l') l' = Break l1'"
    and outs: "outs d [cur l] (pos l) 0 (Break l1) (Break l1')"
  obtains ps es where "exec_loop observer [cur l] True l' = Some (Returned 1 ps es)" "http_errno ps = HPE_OK" "calm ps es"
    "nread ps = nread (parser l1')" "break_ok d (\<lambda>_. True) (pos l) l1" "pos l1 = pos l"
    "between d (l1\<lparr>pos := pos l1 + 1\<rparr>) ps es"
proof -
  have st: "switch_ok d (\<lambda>_. True) l" "switch_ok [cur l] (\<lambda>_. True) l'" using step by (auto simp: in_step_def)
  have o: "pos l1 = pos l" "pos l1' = 0" "alike d [cur l] (l1\<lparr>pos := pos l + 1\<rparr>) (l1'\<lparr>pos := 1\<rparr>)" "marked l1"
    using outs by (simp_all add: outs.simps)
  have brk: "break_ok d (\<lambda>_. True) (pos l) l1" "break_ok [cur l] (\<lambda>_. True) 0 l1'"
    using observer_good [OF len st(1), of "cur l"] observer_good [OF _ st(2), of "cur l'"] R zero by simp_all
  have "marked (l1\<lparr>pos := pos l + 1\<rparr>)" using o(4) by (simp add: marked_def)
  from after_byte [OF brk(2) o(2,3) this] obtain ps es where
    out: "exec_loop observer [cur l] False (l1'\<lparr>pos := 1\<rparr>) = Some (Returned 1 ps es)"
    "between d (l1\<lparr>pos := pos l + 1\<rparr>) ps es" "nread ps = nread (parser l1')" "http_errno ps = HPE_OK" "calm ps es" by blast
  moreover have "exec_loop observer [cur l] True l' = Some (Returned 1 ps es)"
    using R(2) out(1) o(2) by (simp add: exec_loop_switch loop_on_def)
  ultimately show thesis using that o(1) brk(1) by simp
qed

text \<open>At the end of the longer buffer.\<close>

lemma end_step:
  assumes "break_ok d (\<lambda>_. True) n l1" "pos l1 + 1 = length d" "between d (l1\<lparr>pos := pos l1 + 1\<rparr>) ps es"
    "unat (nread (parser l1)) \<le> B" "unat (nread ps) \<le> B"
  shows "agree B (Suc (pos l1)) (exec_loop observer d False (l1\<lparr>pos := pos l1 + 1\<rparr>)) (Some (Returned 0 ps es))"
proof -
  let ?h = "l1\<lparr>pos := pos l1 + 1\<rparr>"
  have ok: "marks_ok (p_state ?h) (pos ?h) (marks ?h)" "http_errno (parser ?h) = HPE_OK"
    using assms(1) by (auto simp: break_ok_def intro: marks_ok_mono)
  have b: "p_state ?h = state ps" "psim (parser ?h) ps" "view d ?h = joined es" "calm (parser ?h) (user ?h)" "calm ps es"
    using assms(3) by (simp_all add: between_def)
  have "pos ?h = length d" using assms(2) by simp
  from exec_finish_view [OF ok(1) this ok(2) b(4)] obtain es1 where
    fin: "exec_finish observer d ?h = Returned (length d) ((parser ?h)\<lparr>state := p_state ?h\<rparr>) es1"
    "joined es1 = view d ?h" "calm (parser ?h) es1" by blast
  have "exec_loop observer d False ?h = Some (Returned (Suc (pos l1)) ((parser l1)\<lparr>state := state ps\<rparr>) es1)"
    using fin(1) b(1) assms(2) by (subst exec_loop.simps) simp
  moreover have "same_end B ((parser l1)\<lparr>state := state ps\<rparr>) es1 ps es"
    using b fin ok(2) assms(4,5) by (simp add: same_end_def calm_def)
  ultimately show ?thesis unfolding agree_def by auto
qed

lemma bytewise_drop: "i < length d \<Longrightarrow> bytewise (drop i d) = [d ! i] # bytewise (drop (Suc i) d)"
  by (simp add: Cons_nth_drop_Suc [symmetric])

lemma pending_Data: "only_data (pending d p mk)"
  by (simp add: only_data_def pending_def all_data_for_def split: option.split)

lemma pending_zero: "joined (u @ pending d 0 mk) = joined u"
  by (simp add: pending_def all_data_for_def joined_append byte_range_def split: option.split)

lemma outs_cases:
  assumes "outs d d' p p' r r'"
  obtains (Break) l l' where "r = Break l" "r' = Break l'" | (Reexecute) l l' where "r = Reexecute l" "r' = Reexecute l'"
    | (Error) l l' where "r = Goto_error l" "r' = Goto_error l'"
    | (Return) n ps es n' ps' es' where "r = Return n ps es" "r' = Return n' ps' es'"
  using assms by (cases r; cases r') (simp_all add: outs.simps)

lemma error_step:
  assumes "outs d d' (pos l) 0 (Goto_error l1) (Goto_error l1')"
  shows "agree B (pos l) (Some (error_label l1)) (and_then (Some (error_label l1')) k)"
proof -
  have o: "pos l1 = pos l" "pos l1' = 0" "p_state l1' = p_state l1" "psim (parser l1) (parser l1')" "view d l1 = view d' l1'"
    using assms by (simp_all add: outs.simps)
  let ?e = "\<lambda>ps. if http_errno ps = HPE_OK then ps\<lparr>http_errno := HPE_UNKNOWN\<rparr> else ps"
  have lab: "error_label l1 = Returned (pos l) ((?e (parser l1))\<lparr>state := p_state l1\<rparr>) (user l1)"
    "error_label l1' = Returned 0 ((?e (parser l1'))\<lparr>state := p_state l1\<rparr>) (user l1')"
    using o by (simp_all add: error_label_def Let_def)
  have "psim (?e (parser l1)) (?e (parser l1'))" using o(4) psim_sel(10) [OF o(4)] by (simp add: psim_update)
  moreover have "joined (user l1 @ pending d (pos l) (marks l1)) = joined (user l1')"
    using o(1,2,5) by (simp add: view_def pending_zero)
  ultimately have "same_end B ((?e (parser l1))\<lparr>state := p_state l1\<rparr>) (user l1) ((?e (parser l1'))\<lparr>state := p_state l1\<rparr>) (user l1')"
    using pending_Data [of d "pos l" "marks l1"] by (auto simp: same_end_def)
  then show ?thesis unfolding lab by (rule agree_error) simp
qed

lemma run_bytewise:
  assumes "in_step d [cur l] l l'" "pos l' = 0" "length d < 2 ^ 64" "B \<le> HTTP_MAX_HEADER_SIZE"
    "unat (nread (parser l)) + 2 * (length d - pos l) \<le> B + 1"
    "unat (nread (parser l')) + 2 * (length d - pos l) \<le> B + 1"
  shows "agree B (pos l) (exec_loop observer d True l)
    (and_then (exec_loop observer [cur l] True l') (deliver (bytewise (drop (Suc (pos l)) d))))"
  using assms
proof (induction "(length d - pos l) * 10 + rank (p_state l)" arbitrary: l l' rule: less_induct)
  case less
  let ?rest = "deliver (bytewise (drop (Suc (pos l)) d))"
  have st: "switch_ok d (\<lambda>_. True) l" "switch_ok [cur l] (\<lambda>_. True) l'" "marked l" "marked l'" "d ! pos l = cur l"
    "[cur l] ! pos l' = cur l'" "p_state l' = p_state l" "cur l' = cur l" "psim (parser l) (parser l')"
    using less.prems(1,2) by (auto simp: in_step_def alike_def)
  have pos: "pos l < length d" using st(1) by (simp add: switch_ok_def)
  have n: "unat (nread (parser l)) + 1 \<le> B" "unat (nread (parser l')) + 1 \<le> B" using less.prems(5,6) pos by simp_all
  then have n1: "unat (nread (parser l)) + 1 \<le> HTTP_MAX_HEADER_SIZE" "unat (nread (parser l')) + 1 \<le> HTTP_MAX_HEADER_SIZE"
    using less.prems(4) by simp_all
  text \<open>Once the buffers of one byte have come to the next byte, the induction hypothesis holds there.\<close>
  have onwards: "agree B (Suc (pos l)) (exec_loop observer d True l2) (?rest ps es)"
    if l2: "switch_ok d (\<lambda>_. True) l2" "pos l2 = Suc (pos l)" "d ! pos l2 = cur l2" "between d l2 ps es"
      and n2: "unat (nread (parser l2)) \<le> unat (nread (parser l)) + 2" "unat (nread ps) \<le> unat (nread (parser l')) + 1" for l2 ps es
  proof -
    have pos2: "Suc (pos l) < length d" using l2(1,2) by (simp add: switch_ok_def)
    have "unat (nread ps) + 1 \<le> HTTP_MAX_HEADER_SIZE" using n2(2) less.prems(4,6) pos2 by simp
    from next_byte [OF l2(4,1,3) this] obtain l2' where
      l2': "http_parser_execute observer [cur l2] ps es = exec_loop observer [cur l2] True l2'"
      "in_step d [cur l2] l2 l2'" "pos l2' = 0" "unat (nread (parser l2')) \<le> unat (nread ps) + 1" by blast
    have "agree B (pos l2) (exec_loop observer d True l2)
      (and_then (exec_loop observer [cur l2] True l2') (deliver (bytewise (drop (Suc (pos l2)) d))))"
      using less.prems(3-6) n2 l2(2) l2' pos2 rank_le' [of "p_state l2"] by (intro less.hyps) auto
    then show ?thesis using l2(2,3) l2'(1) pos2 by (simp add: bytewise_drop)
  qed
  show ?case
  proof (cases "stay (p_state l) (cur l) (parser l) \<noteq> None \<and> pos l + 1 < length d")
    case True
    then obtain ps1 where stay: "stay (p_state l) (cur l) (parser l) = Some ps1" and more: "pos l + 1 < length d" by blast
    from stay_step [OF less.prems(1-3) stay more n1] obtain ps es where
      out: "exec_loop observer [cur l] True l' = Some (Returned 1 ps es)" "http_errno ps = HPE_OK" "calm ps es"
      "unat (nread ps) \<le> unat (nread (parser l')) + 1"
      "between d (onward d ps1 l) ps es" "switch_ok d (\<lambda>_. True) (onward d ps1 l)" "d ! pos (onward d ps1 l) = cur (onward d ps1 l)"
      "unat (nread (parser (onward d ps1 l))) \<le> unat (nread (parser l)) + 1" by blast
    have "agree B (Suc (pos l)) (exec_loop observer d True (onward d ps1 l)) (?rest ps es)"
      using out(4-8) by (intro onwards) (simp_all add: onward_def)
    then have "agree B (pos l) (exec_loop observer d True (onward d ps1 l)) (and_then (exec_loop observer [cur l] True l') ?rest)"
      unfolding out(1) using out(2,3) by (rule agree_and_then)
    moreover have "same_result (exec_loop observer d True l) (exec_loop observer d True (onward d ps1 l))"
      using stay st(5) more less.prems(3,4,5) by (intro stay_on [OF st(1,3)]) simp_all
    ultimately show ?thesis by (rule agree_same [rotated])
  next
    case False
    then have last: "stay (p_state l) (cur l) (parser l) \<noteq> None \<longrightarrow> pos l + 1 = length d" using pos by auto
    have outs: "outs d [cur l] (pos l) 0 (exec_switch observer d (cur l) l) (exec_switch observer [cur l] (cur l') l')"
      using outs_all [OF less.prems(1)] last n1 less.prems(2,3) by simp
    have go: "exec_loop observer d True l = loop_on d (exec_switch observer d (cur l) l)"
      "exec_loop observer [cur l] True l' = loop_on [cur l] (exec_switch observer [cur l] (cur l') l')"
      by (rule exec_loop_switch)+
    have last': "stay (p_state l') (cur l') (parser l') \<noteq> None \<longrightarrow> pos l' + 1 = length [cur l]"
      using less.prems(2) by simp
    note kept = step_kept [OF st(1,3,5) last n1(1), where c = "cur l"]
    note kept' = step_kept [OF st(2,4,6) last' n1(2), where c = "cur l'"]
    note good = observer_good [OF less.prems(3) st(1), of "cur l"]
    have good': "outcome_ok [cur l] (\<lambda>_. True) 0 (p_state l) (exec_switch observer [cur l] (cur l') l')"
      using observer_good [OF _ st(2), of "cur l'"] less.prems(2) st(7) by simp
    from outs show ?thesis
    proof (cases rule: outs_cases)
      case (Break l1 l1')
      then have R: "exec_switch observer d (cur l) l = Break l1" "exec_switch observer [cur l] (cur l') l' = Break l1'"
        and o: "outs d [cur l] (pos l) 0 (Break l1) (Break l1')" using outs by simp_all
      from break_step [OF less.prems(1-3) R o] obtain ps es where
        out: "exec_loop observer [cur l] True l' = Some (Returned 1 ps es)" "http_errno ps = HPE_OK" "calm ps es"
        "nread ps = nread (parser l1')" "break_ok d (\<lambda>_. True) (pos l) l1" "pos l1 = pos l"
        "between d (l1\<lparr>pos := pos l1 + 1\<rparr>) ps es" by blast
      note nk = kept(1) [OF R(1)] kept'(1) [OF R(2)]
      have "agree B (Suc (pos l)) (exec_loop observer d False (l1\<lparr>pos := pos l1 + 1\<rparr>)) (?rest ps es)"
      proof (cases "Suc (pos l) = length d")
        case True
        then show ?thesis
          using end_step [OF out(5) _ out(7), of B] out(4,6) nk n by simp
      next
        case False
        then have "pos l1 + 1 < length d" "unat (nread (parser l1)) + 1 \<le> HTTP_MAX_HEADER_SIZE"
          using pos out(6) nk less.prems(4,5) by simp_all
        from next_in_buffer [OF out(5) this out(7)] obtain l2 where
          l2: "exec_loop observer d False (l1\<lparr>pos := pos l1 + 1\<rparr>) = exec_loop observer d True l2"
          "switch_ok d (\<lambda>_. True) l2" "pos l2 = pos l1 + 1" "d ! pos l2 = cur l2" "between d l2 ps es"
          "unat (nread (parser l2)) \<le> unat (nread (parser l1)) + 1" by blast
        show ?thesis unfolding l2(1) using l2 out(4,6) nk by (intro onwards) simp_all
      qed
      moreover have "exec_loop observer d True l = exec_loop observer d False (l1\<lparr>pos := pos l1 + 1\<rparr>)"
        using go(1) R(1) by (simp add: loop_on_def)
      ultimately have "agree B (Suc (pos l)) (exec_loop observer d True l) (?rest ps es)" by simp
      then show ?thesis unfolding out(1) using out(2,3) by (rule agree_and_then)
    next
      case (Reexecute l1 l1')
      then have R: "exec_switch observer d (cur l) l = Reexecute l1" "exec_switch observer [cur l] (cur l') l' = Reexecute l1'"
        and o: "outs d [cur l] (pos l) 0 (Reexecute l1) (Reexecute l1')" using outs by simp_all
      have cur: "cur l1 = cur l" "cur l1' = cur l" using kept(2) [OF R(1)] kept'(2) [OF R(2)] st(8) by simp_all
      have al: "pos l1 = pos l" "pos l1' = 0" "alike d [cur l] l1 l1'" "marked l1" "marked l1'" using o by (simp_all add: outs.simps)
      have sw: "switch_ok d (\<lambda>_. True) l1" "rank (p_state l1) < rank (p_state l)" "switch_ok [cur l] (\<lambda>_. True) l1'"
        using good good' R by (simp_all add: reexecute_ok_def)
      have "in_step d [cur l1] l1 l1'" using al sw cur st(5) by (simp add: in_step_def)
      then have "agree B (pos l1) (exec_loop observer d True l1)
          (and_then (exec_loop observer [cur l1] True l1') (deliver (bytewise (drop (Suc (pos l1)) d))))"
        using kept(2) [OF R(1)] kept'(2) [OF R(2)] less.prems(3-6) al(1,2) sw(2) by (intro less.hyps) simp_all
      then show ?thesis using go R al(1) cur by (simp add: loop_on_def)
    next
      case (Error l1 l1')
      then show ?thesis using go outs error_step [of d "[cur l]" l l1 l1' B ?rest] by (simp add: loop_on_def)
    next
      case (Return m ps es m' ps' es')
      then show ?thesis using go outs by (auto simp: loop_on_def outs.simps agree_def and_then_def same_end_def)
    qed
  qed
qed

text \<open>A call on all bytes, and a call per byte from a parser and events that have it all in common.\<close>

lemma execute_bytewise:
  assumes ps: "http_errno ps = HPE_OK" "parser_ok ps" "parser_ok ps'" "psim ps ps'" "state ps' = state ps"
    and es: "joined es = joined es'" "calm ps es" "calm ps' es'"
    and d: "d \<noteq> []" "length d < 2 ^ 64" and B: "B \<le> HTTP_MAX_HEADER_SIZE"
      "unat (nread ps) + 2 * length d \<le> B" "unat (nread ps') + 2 * length d \<le> B"
  shows "agree B 0 (http_parser_execute observer d ps es) (deliver (bytewise d) ps' es')"
proof -
  have e': "http_errno ps' = HPE_OK" using psim_sel(10) [OF ps(4)] ps(1) by simp
  have ok: "core_ok (state ps) ps" "chunk_nread 0 (state ps) ps" "bounds_ok ps"
    "core_ok (state ps') ps'" "chunk_nread 0 (state ps') ps'" "bounds_ok ps'"
    using ps(1-3) e' by (simp_all add: parser_ok_def)
  have len: "0 < length d" using d(1) by simp
  have "unat (nread ps) + 1 \<le> HTTP_MAX_HEADER_SIZE" using B len by linarith
  from enter [OF ps(1) ok(1-3) this d(1)] obtain l where
    l: "http_parser_execute observer d ps es = exec_loop observer d True l"
    "switch_ok d (\<lambda>_. True) l" "pos l = 0" "cur l = d ! 0" "unat (nread (parser l)) \<le> unat (nread ps) + 1"
    "p_state l = state ps" "psim (parser l) ps" "upgrade (parser l) = upgrade ps" "user l = es" "view d l = joined es" "marked l"
    by blast
  have "psim (parser l) ps'" using l(7) ps(4) by (simp add: psim_def)
  then have b: "between d l ps' es'" using l ps(5) es ok by (simp add: between_def calm_def)
  have at: "d ! pos l = cur l" using l(3,4) by simp
  have "unat (nread ps') + 1 \<le> HTTP_MAX_HEADER_SIZE" using B len by linarith
  from next_byte [OF b l(2) at this] obtain l' where
    l': "http_parser_execute observer [cur l] ps' es' = exec_loop observer [cur l] True l'"
    "in_step d [cur l] l l'" "pos l' = 0" "unat (nread (parser l')) \<le> unat (nread ps') + 1" by blast
  have "agree B (pos l) (exec_loop observer d True l)
    (and_then (exec_loop observer [cur l] True l') (deliver (bytewise (drop (Suc (pos l)) d))))"
    using run_bytewise [OF l'(2,3) d(2) B(1)] B(2,3) l(3,5) l'(4) by simp
  then show ?thesis
    using bytewise_drop [of 0 d] len l(1,3,4) l'(1) by simp
qed

section \<open>Any portions\<close>

lemma same_end_mono: "same_end B ps es ps' es' \<Longrightarrow> B \<le> C \<Longrightarrow> same_end C ps es ps' es'"
  by (auto simp: same_end_def split: if_splits)

lemma deliver_append:
  assumes "http_errno ps = HPE_OK" "calm ps es"
  shows "deliver (ds @ ds') ps es = and_then (deliver ds ps es) (deliver ds')"
  using assms
proof (induction ds arbitrary: ps es)
  case Nil
  then show ?case by (auto simp: and_then_def split: option.split result.split)
next
  case (Cons d ds)
  then show ?case by (auto simp: and_then_def split: option.split result.split)
qed

lemma deliver_ok:
  assumes "parser_ok ps" "\<forall>d \<in> set ds. length d < 2 ^ 64"
  shows "\<exists>n ps' es'. deliver ds ps es = Some (Returned n ps' es') \<and> parser_ok ps'"
  using assms
proof (induction ds arbitrary: ps es)
  case (Cons d ds)
  have "done_ok d (\<lambda>_. True) (http_parser_execute observer d ps es)"
    using client_execute_ok [OF observer_ok] Cons.prems by simp
  then obtain n ps1 es1 where "http_parser_execute observer d ps es = Some (Returned n ps1 es1)" "parser_ok ps1"
    by (auto simp: done_ok_def)
  then show ?case using Cons.IH [of ps1 es1] Cons.prems(2) by (auto simp: and_then_def)
qed simp

lemma deliver_bytewise:
  assumes "http_errno ps = HPE_OK" "parser_ok ps" "parser_ok ps'" "psim ps ps'" "state ps' = state ps"
    and "joined es = joined es'" "calm ps es" "calm ps' es'"
    and "[] \<notin> set ds" "B \<le> HTTP_MAX_HEADER_SIZE"
      "unat (nread ps) + 2 * length (concat ds) \<le> B" "unat (nread ps') + 2 * length (concat ds) \<le> B"
  shows "agree B 0 (deliver ds ps es) (deliver (bytewise (concat ds)) ps' es')"
  using assms
proof (induction ds arbitrary: ps ps' es es')
  case Nil
  then show ?case by (auto simp: agree_def same_end_def)
next
  case (Cons d ds)
  let ?k = "2 * length (concat ds)"
  have e': "http_errno ps' = HPE_OK" using psim_sel(10) [OF Cons.prems(4)] Cons.prems(1) by simp
  have d: "d \<noteq> []" using Cons.prems(9) by auto
  have len: "length d < 2 ^ 64" using Cons.prems(10,11) by (simp add: HTTP_MAX_HEADER_SIZE_def)
  have "agree (B - ?k) 0 (http_parser_execute observer d ps es) (deliver (bytewise d) ps' es')"
    using Cons.prems d len by (intro execute_bytewise) simp_all
  then obtain n ps1 es1 ps1' es1' where
    out: "http_parser_execute observer d ps es = Some (Returned n ps1 es1)" "deliver (bytewise d) ps' es' = Some (Returned n ps1' es1')"
    and same: "same_end (B - ?k) ps1 es1 ps1' es1'" by (auto simp: agree_def)
  have split: "deliver (bytewise (concat (d # ds))) ps' es' =
      and_then (Some (Returned n ps1' es1')) (deliver (bytewise (concat ds)))"
    using deliver_append [OF e' Cons.prems(8), of "bytewise d"] out(2) by simp
  show ?case
  proof (cases "http_errno ps1 = HPE_OK \<and> calm ps1 es1")
    case True
    have s: "psim ps1 ps1'" "state ps1' = state ps1" "joined es1 = joined es1'" "calm ps1' es1'"
      "unat (nread ps1) \<le> B - ?k" "unat (nread ps1') \<le> B - ?k"
      using same True by (simp_all add: same_end_def)
    have "parser_ok ps1"
      using client_execute_ok [OF observer_ok len Cons.prems(2), of es] out(1) by (auto simp: done_ok_def)
    moreover have "parser_ok ps1'"
      using deliver_ok [OF Cons.prems(3), of "bytewise d" es'] out(2) by (auto simp: bytewise_def)
    ultimately have "agree B 0 (deliver ds ps1 es1) (deliver (bytewise (concat ds)) ps1' es1')"
      using Cons.prems(9-12) True s by (intro Cons.IH) simp_all
    then show ?thesis
      using out(1) split True s psim_sel(10) [OF s(1)] by (auto simp: agree_def and_then_def)
  next
    case False
    moreover have "http_errno ps1' = http_errno ps1" "http_errno ps1 = HPE_OK \<Longrightarrow> calm ps1' es1' = calm ps1 es1"
      using same psim_sel(10) [of ps1 ps1'] by (auto simp: same_end_def)
    ultimately show ?thesis
      using out(1) split same_end_mono [OF same, of B] by (auto simp: agree_def and_then_def)
  qed
qed

text \<open>Two ways to deliver that agree with a third.\<close>

lemma agree_both:
  assumes "agree B 0 r1 r0" "agree B 0 r2 r0"
  obtains n ps1 es1 ps2 es2 where "r1 = Some (Returned n ps1 es1)" "r2 = Some (Returned n ps2 es2)"
    "ps2 = ps1\<lparr>nread := nread ps2\<rparr>" "http_errno ps1 = HPE_OK \<Longrightarrow> joined es1 = joined es2"
    "http_errno ps1 \<noteq> HPE_OK \<Longrightarrow>
      \<exists>lost1 lost2. only_data lost1 \<and> only_data lost2 \<and> joined (es1 @ lost1) = joined (es2 @ lost2)"
proof -
  obtain n ps1 es1 ps2 es2 ps0 es0 where
    out: "r1 = Some (Returned n ps1 es1)" "r2 = Some (Returned n ps2 es2)"
    and same: "same_end B ps1 es1 ps0 es0" "same_end B ps2 es2 ps0 es0"
    using assms by (auto simp: agree_def)
  have ps: "psim ps1 ps2" "state ps2 = state ps1" using same by (simp_all add: same_end_def psim_def)
  then have "ps2 = ps1\<lparr>nread := nread ps2\<rparr>" by (cases ps1; cases ps2) (simp add: psim_def)
  moreover have e: "http_errno ps2 = http_errno ps1" by (rule psim_sel(10) [OF ps(1)])
  have "joined es1 = joined es2" if "http_errno ps1 = HPE_OK"
    using same that e by (simp add: same_end_def)
  moreover have "\<exists>lost1 lost2. only_data lost1 \<and> only_data lost2 \<and> joined (es1 @ lost1) = joined (es2 @ lost2)"
    if "http_errno ps1 \<noteq> HPE_OK"
    using same that e by (auto simp: same_end_def) metis
  ultimately show thesis using that out by blast
qed

lemma portions_alike:
  assumes "parser_ok ps" and "http_errno ps = HPE_OK" and "calm ps es"
    and "concat ds = concat ds'" and "[] \<notin> set ds" and "[] \<notin> set ds'"
    and "unat (nread ps) + 2 * length (concat ds) \<le> HTTP_MAX_HEADER_SIZE"
  shows "\<exists>n ps1 es1 ps2 es2.
      deliver ds ps es = Some (Returned n ps1 es1) \<and> deliver ds' ps es = Some (Returned n ps2 es2)
      \<and> ps2 = ps1\<lparr>nread := nread ps2\<rparr>
      \<and> (if http_errno ps1 = HPE_OK then joined es1 = joined es2
         else \<exists>lost1 lost2. only_data lost1 \<and> only_data lost2
           \<and> joined (es1 @ lost1) = joined (es2 @ lost2))"
proof -
  let ?B = HTTP_MAX_HEADER_SIZE
  have "agree ?B 0 (deliver ds ps es) (deliver (bytewise (concat ds)) ps es)"
    "agree ?B 0 (deliver ds' ps es) (deliver (bytewise (concat ds)) ps es)"
    using deliver_bytewise [OF assms(2,1,1) psim_refl refl refl assms(3,3), of ds ?B]
      deliver_bytewise [OF assms(2,1,1) psim_refl refl refl assms(3,3), of ds' ?B] assms(4-7) by simp_all
  from agree_both [OF this] show ?thesis by metis
qed

text \<open>The portions of what one call reads without an error.\<close>

lemma delivered_as_one:
  assumes "parser_ok ps" "http_errno ps = HPE_OK" "calm ps es" "[] \<notin> set ds" "concat ds \<noteq> []"
    and "unat (nread ps) + 2 * length (concat ds) \<le> HTTP_MAX_HEADER_SIZE"
    and one: "http_parser_execute observer (concat ds) ps es = Some (Returned n ps1 es1)" "http_errno ps1 = HPE_OK"
  obtains ps2 es2 where "deliver ds ps es = Some (Returned n ps2 es2)" "http_errno ps2 = HPE_OK" "state ps2 = state ps1"
    "joined es2 = joined es1"
proof -
  have "deliver [concat ds] ps es = Some (Returned n ps1 es1)" using one(1) by (simp add: and_then_def)
  with portions_alike [OF assms(1-3) _ assms(4) _ assms(6), of "[concat ds]"] assms(5)
  obtain ps2 es2 where out: "deliver ds ps es = Some (Returned n ps2 es2)" "ps1 = ps2\<lparr>nread := nread ps1\<rparr>"
    "if http_errno ps2 = HPE_OK then joined es2 = joined es1
         else \<exists>lost1 lost2. only_data lost1 \<and> only_data lost2 \<and> joined (es2 @ lost1) = joined (es1 @ lost2)"
    by (auto simp del: deliver.simps)
  have "http_errno ps1 = http_errno ps2" "state ps1 = state ps2" by (subst out(2), simp)+
  with out(1,3) one(2) show thesis by (intro that [of ps2 es2]) simp_all
qed

text \<open>
  C3. Independence of the portions, for streams of up to 40 KiB (the bound: the header bytes counted
  so far and twice the length of the stream are at most \<open>HTTP_MAX_HEADER_SIZE\<close>, 80 KiB; a cut inside a
  header name or value counts its bytes twice, so beyond the bound the cutting can decide whether the
  limit is reached. A connection of this server reads at most 2048 bytes). Take two ways to cut the same
  stream into non-empty buffers. Both sequences of calls read the same number of bytes, and the parsers
  that they leave differ at most in \<open>nread\<close>; in particular one ends in an error exactly when the other
  does, and in the same one. Without an error an application is shown the same: the same callbacks in
  the same order with the same data, up to the places where the data of one callback is cut. In an
  error this holds up to data at the end that one of them has shown and the other, having met the
  error in the same buffer, has not.
\<close>

theorem portions_do_not_matter:
  assumes "parser_ok ps" and "http_errno ps = HPE_OK" and "calm ps es"
    and "concat ds = concat ds'" and "[] \<notin> set ds" and "[] \<notin> set ds'"
    and "unat (nread ps) + 2 * length (concat ds) \<le> HTTP_MAX_HEADER_SIZE"
  shows "\<exists>n ps1 es1 ps2 es2.
      deliver ds ps es = Some (Returned n ps1 es1) \<and> deliver ds' ps es = Some (Returned n ps2 es2)
      \<and> ps2 = ps1\<lparr>nread := nread ps2\<rparr>
      \<and> (if http_errno ps1 = HPE_OK then joined es1 = joined es2
         else \<exists>lost1 lost2. only_data lost1 \<and> only_data lost2
           \<and> joined (es1 @ lost1) = joined (es2 @ lost2))"
  using assms by (rule portions_alike)

lemma portions_do_not_matter_witness:
  "\<exists>n ps1 es1 ps2 es2.
     deliver [''GET /inde'', ''x HT'', ''TP/1.1'' @ [CR], [LF] @ ''Ho'', ''st: x''] (http_parser_init blank_parser HTTP_REQUEST) []
       = Some (Returned n ps1 es1)
     \<and> deliver [''GET /index HTTP/1.1'' @ [CR, LF] @ ''Host: x''] (http_parser_init blank_parser HTTP_REQUEST) []
       = Some (Returned n ps2 es2)
     \<and> ps2 = ps1\<lparr>nread := nread ps2\<rparr>
     \<and> (if http_errno ps1 = HPE_OK then joined es1 = joined es2
        else \<exists>lost1 lost2. only_data lost1 \<and> only_data lost2
          \<and> joined (es1 @ lost1) = joined (es2 @ lost2))"
proof -
  let ?ps = "http_parser_init blank_parser HTTP_REQUEST"
  have "http_errno ?ps = HPE_OK" "calm ?ps []" "unat (nread ?ps) = 0"
    by (simp_all add: http_parser_init_def calm_def)
  then show ?thesis
    by (intro portions_do_not_matter init_parser_ok) (simp_all add: HTTP_MAX_HEADER_SIZE_def)
qed

end
