(* ===== verification/Request_Portions.thy ===== *)
theory Request_Portions
  imports Parser_Chunked Parser_Fragments
begin

text \<open>
  Well-formed requests that come in any portions: what \<open>Parser_Message\<close> shows for one buffer and
  \<open>Parser_Fragments\<close> for the cutting of a stream, together.
\<close>

lemma requests_delivered:
  assumes "parser_ok ps" and "idle ps" and "state ps = s_start_req" and "calm ps es"
    and "list_all request_ok rs" and "concat ds = concat (map request_text rs)" and "[] \<notin> set ds"
    and "2 * length (concat ds) \<le> HTTP_MAX_HEADER_SIZE"
  shows "\<exists>ps' es'. deliver ds ps es = Some (Returned (length (concat ds)) ps' es')
    \<and> http_errno ps' = HPE_OK \<and> state ps' = s_start_req
    \<and> joined es' = joined (es @ concat (map request_events rs))"
proof (cases "concat ds = []")
  case True
  then have "ds = []" using assms(7) by (cases ds) auto
  moreover have "rs = []"
    using True assms(6) by (cases rs) (auto simp: request_text_def request_head_def)
  ultimately show ?thesis using assms(2,3) by (simp add: idle_def)
next
  case False
  let ?D = "concat ds"
  have len: "length (concat (map request_text rs)) < 2 ^ 64"
    using assms(6,8) by (simp add: HTTP_MAX_HEADER_SIZE_def)
  obtain ps1 where whole: "http_parser_execute observer ?D ps es = Some (Returned (length ?D) ps1 (es @ concat (map request_events rs)))"
    "idle ps1" "state ps1 = s_start_req"
    using requests_run [OF assms(2,3,5) len, of es] assms(6) by auto
  have "http_errno ps = HPE_OK" "unat (nread ps) + 2 * length ?D \<le> HTTP_MAX_HEADER_SIZE" "http_errno ps1 = HPE_OK"
    using assms(2,8) whole(2) by (simp_all add: idle_def)
  from delivered_as_one [OF assms(1) this(1) assms(4,7) False this(2) whole(1) this(3)] whole(3) show ?thesis by metis
qed

text \<open>
  C4. Requests in any portions, for up to 40 KiB of them (the stream as a whole, twice its length being
  at most \<open>HTTP_MAX_HEADER_SIZE\<close>: in portions a header byte may be counted twice, so a head of more
  than 40 KiB that is accepted in one buffer is refused when it comes byte by byte). Well-formed
  requests (as in the property on one buffer) that come one after another in such a stream, cut
  into non-empty portions in any way, are read to the end without an error, and an application is
  shown for each of them its beginning, URL, header names and values, end of headers, body and
  end, up to the cutting of data; at the end the parser waits for the next request.
\<close>

theorem requests_in_portions:
  assumes "parser_ok ps" and "idle ps" and "state ps = s_start_req" and "calm ps es"
    and "list_all request_ok rs" and "concat ds = concat (map request_text rs)" and "[] \<notin> set ds"
    and "2 * length (concat ds) \<le> HTTP_MAX_HEADER_SIZE"
  shows "\<exists>ps' es'. deliver ds ps es = Some (Returned (length (concat ds)) ps' es')
    \<and> http_errno ps' = HPE_OK \<and> state ps' = s_start_req
    \<and> joined es' = joined (es @ concat (map request_events rs))"
  using assms by (rule requests_delivered)

text \<open>The sample request, cut inside its URL and inside its body.\<close>

lemma requests_in_portions_witness:
  "\<exists>ps' es'. deliver [''PUT /a'', ''?b=1 HTTP/1.1'' @ CRLF @ ''Host: x y'' @ CRLF @ ''content-LENGTH: 12'' @ CRLF @ CRLF @ ''hell'',
      ''o, world''] (http_parser_init blank_parser HTTP_REQUEST) [] = Some (Returned 66 ps' es')
    \<and> http_errno ps' = HPE_OK \<and> state ps' = s_start_req
    \<and> joined es' = joined (request_events sample_request)"
proof -
  let ?ps = "http_parser_init blank_parser HTTP_REQUEST"
  let ?ds = "[''PUT /a'', ''?b=1 HTTP/1.1'' @ CRLF @ ''Host: x y'' @ CRLF @ ''content-LENGTH: 12'' @ CRLF @ CRLF @ ''hell'', ''o, world'']"
  have "idle ?ps" "state ?ps = s_start_req" "calm ?ps []"
    by (simp_all add: idle_def http_parser_init_def calm_def)
  moreover have "list_all request_ok [sample_request]" by (simp add: sample_request_ok)
  moreover have "concat ?ds = concat (map request_text [sample_request])"
    by (simp add: sample_request_def request_text_def request_head_def request_line_def header_line_def)
  moreover have "[] \<notin> set ?ds" "2 * length (concat ?ds) \<le> HTTP_MAX_HEADER_SIZE" "length (concat ?ds) = 66"
    by (simp_all add: HTTP_MAX_HEADER_SIZE_def)
  ultimately show ?thesis
    using requests_in_portions [OF init_parser_ok, of blank_parser HTTP_REQUEST "[]" "[sample_request]" ?ds] by (simp del: deliver.simps)
qed

text \<open>The same for a request with a chunked body.\<close>

lemma chunked_delivered:
  assumes "parser_ok ps" and "idle ps" and "state ps = s_start_req" and "calm ps es"
    and "chunked_ok r" and "concat ds = chunked_text r" and "[] \<notin> set ds"
    and "2 * length (concat ds) \<le> HTTP_MAX_HEADER_SIZE"
  shows "\<exists>ps' es'. deliver ds ps es = Some (Returned (length (concat ds)) ps' es')
    \<and> http_errno ps' = HPE_OK \<and> state ps' = s_start_req \<and> joined es' = joined (es @ chunked_events r)"
proof -
  have len: "length (chunked_text r) < 2 ^ 64" and some: "concat ds \<noteq> []"
    using assms(6,8) by (simp add: HTTP_MAX_HEADER_SIZE_def) (simp add: assms(6) chunked_text_def trailer_text_def)
  obtain ps1 where whole: "http_parser_execute observer (concat ds) ps es =
      Some (Returned (length (concat ds)) ps1 (es @ chunked_events r))" "http_errno ps1 = HPE_OK" "state ps1 = s_start_req"
    using chunked_run [OF assms(2,3,5) len, of es] assms(6) by auto
  have "http_errno ps = HPE_OK" "unat (nread ps) + 2 * length (concat ds) \<le> HTTP_MAX_HEADER_SIZE"
    using assms(2,8) by (simp_all add: idle_def)
  from delivered_as_one [OF assms(1) this(1) assms(4,7) some this(2) whole(1,2)] whole(3) show ?thesis by metis
qed

end
