(* ===== verification/Parser_Clients.thy ===== *)
theory Parser_Clients
  imports Parser_Message Parser_Lockstep
begin

text \<open>
  Two applications on the same bytes. As long as neither touches the parser, \<open>http_parser_execute\<close>
  makes the same calls of both: whatever relation the callbacks keep between the two applications'
  states holds after the call, and the parsers are equal.
\<close>

section \<open>Outcomes that correspond\<close>

abbreviation locals_at :: "http_parser \<Rightarrow> state \<Rightarrow> nat \<Rightarrow> byte \<Rightarrow> (data_for \<Rightarrow> nat option) \<Rightarrow> 'u \<Rightarrow> 'u locals" where
  "locals_at ps s p c mk u \<equiv> \<lparr>parser = ps, p_state = s, pos = p, cur = c, marks = mk, user = u\<rparr>"

text \<open>Parsers that are equal but for the field \<open>state\<close>, which is only written inside the function.\<close>

definition tsim :: "http_parser \<Rightarrow> http_parser \<Rightarrow> bool" where
  "tsim ps ps' \<longleftrightarrow> psim ps ps' \<and> nread ps' = nread ps"

definition lsim :: "('u \<Rightarrow> 'v \<Rightarrow> bool) \<Rightarrow> 'u locals \<Rightarrow> 'v locals \<Rightarrow> bool" where
  "lsim R l l' \<longleftrightarrow> p_state l' = p_state l \<and> pos l' = pos l \<and> cur l' = cur l \<and> marks l' = marks l
     \<and> tsim (parser l) (parser l') \<and> R (user l) (user l')"

fun osim :: "('u \<Rightarrow> 'v \<Rightarrow> bool) \<Rightarrow> 'u outcome \<Rightarrow> 'v outcome \<Rightarrow> bool" where
  "osim R (Break l) (Break l') \<longleftrightarrow> lsim R l l'"
| "osim R (Reexecute l) (Reexecute l') \<longleftrightarrow> lsim R l l'"
| "osim R (Goto_error l) (Goto_error l') \<longleftrightarrow> lsim R l l'"
| "osim R (Return n ps u) (Return n' ps' u') \<longleftrightarrow> n' = n \<and> ps' = ps \<and> R u u'"
| "osim R Fault Fault \<longleftrightarrow> True"
| "osim R r r' \<longleftrightarrow> False"

lemma tsim_iff: "tsim ps ps' \<longleftrightarrow> ps' = ps\<lparr>state := state ps'\<rparr>"
  by (cases ps; cases ps') (auto simp: tsim_def psim_def)

lemma tsim_refl [simp]: "tsim ps ps"
  by (simp add: tsim_def)

lemma tsim_free [simp]:
  "tsim (ps\<lparr>state := s\<rparr>) ps' \<longleftrightarrow> tsim ps ps'" "tsim ps (ps'\<lparr>state := s\<rparr>) \<longleftrightarrow> tsim ps ps'"
  by (simp_all add: tsim_def)

lemma tsim_psim: "tsim ps ps' \<Longrightarrow> psim ps ps'"
  by (simp add: tsim_def)

lemma tsim_sel: "tsim ps ps' \<Longrightarrow> nread ps' = nread ps"
  by (simp add: tsim_def)

lemma tsim_update:
  assumes "tsim ps ps'"
  shows "tsim (ps\<lparr>p_type := t\<rparr>) (ps'\<lparr>p_type := t\<rparr>)" "tsim (ps\<lparr>flags := f\<rparr>) (ps'\<lparr>flags := f\<rparr>)"
    "tsim (ps\<lparr>header_state := h\<rparr>) (ps'\<lparr>header_state := h\<rparr>)" "tsim (ps\<lparr>index := i\<rparr>) (ps'\<lparr>index := i\<rparr>)"
    "tsim (ps\<lparr>content_length := c\<rparr>) (ps'\<lparr>content_length := c\<rparr>)" "tsim (ps\<lparr>nread := n\<rparr>) (ps'\<lparr>nread := n\<rparr>)"
    "tsim (ps\<lparr>http_major := v\<rparr>) (ps'\<lparr>http_major := v\<rparr>)" "tsim (ps\<lparr>http_minor := v\<rparr>) (ps'\<lparr>http_minor := v\<rparr>)"
    "tsim (ps\<lparr>status_code := v\<rparr>) (ps'\<lparr>status_code := v\<rparr>)" "tsim (ps\<lparr>p_method := m\<rparr>) (ps'\<lparr>p_method := m\<rparr>)"
    "tsim (ps\<lparr>http_errno := e\<rparr>) (ps'\<lparr>http_errno := e\<rparr>)" "tsim (ps\<lparr>upgrade := u\<rparr>) (ps'\<lparr>upgrade := u\<rparr>)"
    "tsim (header_flag ps) (header_flag ps')" "tsim (set_flag f ps) (set_flag f ps')"
    "ps'\<lparr>state := s\<rparr> = ps\<lparr>state := s\<rparr>"
  using assms psim_update [OF tsim_psim [OF assms]] psim_fun [OF tsim_psim [OF assms]] psim_sel [OF tsim_psim [OF assms]]
  by (simp_all add: tsim_def header_flag_def set_flag_def split: header_states.split, cases ps, cases ps', simp add: psim_def)

lemmas tsim_rules = tsim_update tsim_sel psim_sel [OF tsim_psim] psim_fun(1,2) [OF tsim_psim]

lemma field_loop_tsim:
  "tsim ps ps' \<Longrightarrow> header_field_loop bs ps' n =
     map_option (\<lambda>(q, m, x). (q\<lparr>state := state ps'\<rparr>, m, x)) (header_field_loop bs ps n)"
proof -
  have step: "header_field_step ch c (ps\<lparr>state := s\<rparr>) = map_option (\<lambda>ps. ps\<lparr>state := s\<rparr>) (header_field_step ch c ps)" for ch c ps s
    by (cases "header_state ps") (simp_all add: header_field_step_def Let_def)
  have "header_field_loop bs (ps\<lparr>state := s\<rparr>) n = map_option (\<lambda>(q, m, x). (q\<lparr>state := s\<rparr>, m, x)) (header_field_loop bs ps n)" for s
    by (induction bs arbitrary: ps n) (simp_all add: Let_def step split: option.split)
  then show "tsim ps ps' \<Longrightarrow> ?thesis" unfolding tsim_iff by metis
qed

lemma value_loop_tsim:
  "tsim ps ps' \<Longrightarrow> header_value_loop bs h ps' n =
     map_option (\<lambda>(e, g, q, m). (e, g, q\<lparr>state := state ps'\<rparr>, m)) (header_value_loop bs h ps n)"
proof -
  have step: "header_value_step ch h (ps\<lparr>state := s\<rparr>) = (case header_value_step ch h ps of
      Value_next h' ps' \<Rightarrow> Value_next h' (ps'\<lparr>state := s\<rparr>) | v \<Rightarrow> v)" for ch h ps s
    by (cases h) (simp_all add: header_value_step_def set_flag_def Let_def)
  have "header_value_loop bs h (ps\<lparr>state := s\<rparr>) n =
      map_option (\<lambda>(e, g, q, m). (e, g, q\<lparr>state := s\<rparr>, m)) (header_value_loop bs h ps n)" for s
    by (induction bs h ps n rule: header_value_loop.induct) (simp_all add: step del: drop_Cons' split: value_step.split)
  then show "tsim ps ps' \<Longrightarrow> ?thesis" unfolding tsim_iff by metis
qed

definition mark_at :: "data_for \<Rightarrow> nat \<Rightarrow> (data_for \<Rightarrow> nat option) \<Rightarrow> data_for \<Rightarrow> nat option" where
  "mark_at f p mk = (if mk f = None then mk(f := Some p) else mk)"

lemma MARK_at: "MARK f (locals_at ps s p c mk u) = locals_at ps s p c (mark_at f p mk) u"
  by (simp add: MARK_def mark_at_def)

section \<open>One case of the switch\<close>

locale two_clients =
  one: passive_client cfg eff_data eff_notify eff_headers + two: passive_client cfg' eff_data' eff_notify' eff_headers'
  for cfg :: "'u http_parser_settings" and eff_data eff_notify eff_headers
    and cfg' :: "'v http_parser_settings" and eff_data' eff_notify' eff_headers' +
  fixes d :: "byte list" and R :: "'u \<Rightarrow> 'v \<Rightarrow> bool"
  assumes related_data: "R u v \<Longrightarrow> R (eff_data FOR m (byte_range d m n) u) (eff_data' FOR m (byte_range d m n) v)"
    and related_notify: "R u v \<Longrightarrow> R (eff_notify NFOR u) (eff_notify' NFOR v)"
    and related_headers: "R u v \<Longrightarrow> R (eff_headers u) (eff_headers' v)"
begin

lemma NOTIFY_sim:
  assumes "tsim ps ps'" "R u v"
    and k: "\<And>ps1 ps2 u v. tsim ps1 ps2 \<Longrightarrow> tsim ps ps1 \<Longrightarrow> R u v \<Longrightarrow>
      osim R (k (locals_at ps1 s p c mk u)) (k' (locals_at ps2 s p c mk v))"
  shows "osim R (CALLBACK_NOTIFY_at cfg FOR ER k (locals_at ps s p c mk u))
    (CALLBACK_NOTIFY_at cfg' FOR ER k' (locals_at ps' s p c mk v))"
proof (cases "http_errno ps = HPE_OK")
  case True
  let ?l = "locals_at ps s p c mk u" and ?l' = "locals_at ps' s p c mk v"
  have "http_errno ps' = HPE_OK" using True assms(1) by (simp add: tsim_rules)
  with True one.CALLBACK_NOTIFY_at_passive [of ?l FOR ER k] two.CALLBACK_NOTIFY_at_passive [of ?l' FOR ER k']
  obtain st st' where "CALLBACK_NOTIFY_at cfg FOR ER k ?l = k (locals_at (ps\<lparr>state := st\<rparr>) s p c mk (eff_notify FOR u))"
    "CALLBACK_NOTIFY_at cfg' FOR ER k' ?l' = k' (locals_at (ps'\<lparr>state := st'\<rparr>) s p c mk (eff_notify' FOR v))"
    by auto
  then show ?thesis using k [of "ps\<lparr>state := st\<rparr>" "ps'\<lparr>state := st'\<rparr>"] assms related_notify by simp
qed (use assms(1) in \<open>simp add: CALLBACK_NOTIFY_at_def assert_then_def tsim_rules\<close>)

lemma DATA_sim:
  assumes "tsim ps ps'" "R u v"
    and k: "\<And>ps1 ps2 u v. tsim ps1 ps2 \<Longrightarrow> tsim ps ps1 \<Longrightarrow> R u v \<Longrightarrow>
      osim R (k (locals_at ps1 s p c (mk(FOR := None)) u)) (k' (locals_at ps2 s p c (mk(FOR := None)) v))"
  shows "osim R (CALLBACK_DATA_at cfg d FOR LEN ER k (locals_at ps s p c mk u))
    (CALLBACK_DATA_at cfg' d FOR LEN ER k' (locals_at ps' s p c mk v))"
proof (cases "http_errno ps = HPE_OK")
  case True
  let ?l = "locals_at ps s p c mk u" and ?l' = "locals_at ps' s p c mk v"
  have ok: "http_errno ps' = HPE_OK" using True assms(1) by (simp add: tsim_rules)
  show ?thesis
  proof (cases "mk FOR")
    case None
    then have "mk(FOR := None) = mk" by auto
    then show ?thesis using True ok None k [of ps ps' u v] assms by (simp add: CALLBACK_DATA_at_def assert_then_def)
  next
    case (Some m)
    with True ok one.CALLBACK_DATA_at_passive [of ?l FOR m d LEN ER k] two.CALLBACK_DATA_at_passive [of ?l' FOR m d LEN ER k']
    obtain st st' where "CALLBACK_DATA_at cfg d FOR LEN ER k ?l = k (locals_at (ps\<lparr>state := st\<rparr>) s p c (mk(FOR := None))
        (eff_data FOR m (byte_range d m (LEN m)) u))"
      "CALLBACK_DATA_at cfg' d FOR LEN ER k' ?l' = k' (locals_at (ps'\<lparr>state := st'\<rparr>) s p c (mk(FOR := None))
        (eff_data' FOR m (byte_range d m (LEN m)) v))"
      by auto
    then show ?thesis using k [of "ps\<lparr>state := st\<rparr>" "ps'\<lparr>state := st'\<rparr>"] assms related_data by simp
  qed
qed (use assms(1) in \<open>simp add: CALLBACK_DATA_at_def assert_then_def tsim_rules\<close>)

lemmas sim_defs = NOTIFY_sim DATA_sim CALLBACK_NOTIFY_def CALLBACK_NOTIFY_NOADVANCE_def CALLBACK_DATA_def
  CALLBACK_DATA_NOADVANCE_def exec_switch_def set_errno_goto_error_def STRICT_CHECK_def assert_then_def RETURN_def Let_def
  lsim_def tsim_rules MARK_at COUNT_HEADER_SIZE_def

lemma sim_response:
  assumes "tsim ps ps'" "R u v"
    and "s \<in> {s_dead, s_start_req_or_res, s_res_or_resp_H, s_start_res, s_res_H, s_res_HT, s_res_HTT, s_res_HTTP,
      s_res_first_http_major, s_res_http_major, s_res_first_http_minor, s_res_http_minor,
      s_res_first_status_code, s_res_status_code, s_res_status_start, s_res_line_almost_done, s_res_status}"
  shows "osim R (exec_switch cfg d c (locals_at ps s p c mk u)) (exec_switch cfg' d c (locals_at ps' s p c mk v))"
  using assms
  by (elim insertE emptyE; simp add: sim_defs exec_s_dead_def exec_s_start_req_or_res_def
    exec_s_res_or_resp_H_def exec_s_start_res_def exec_s_res_H_def exec_s_res_HT_def exec_s_res_HTT_def
    exec_s_res_HTTP_def exec_s_res_first_http_major_def exec_s_res_http_major_def
    exec_s_res_first_http_minor_def exec_s_res_http_minor_def exec_s_res_first_status_code_def
    exec_s_res_status_code_def exec_s_res_status_start_def exec_s_res_line_almost_done_def exec_s_res_status_def
    more_http_major_def more_http_minor_def)

lemma sim_request:
  assumes "tsim ps ps'" "R u v"
    and "s \<in> {s_start_req, s_req_method, s_req_spaces_before_url, s_req_http_start, s_req_http_H, s_req_http_HT,
      s_req_http_HTT, s_req_http_HTTP, s_req_first_http_major, s_req_http_major, s_req_first_http_minor,
      s_req_http_minor, s_req_line_almost_done}"
  shows "osim R (exec_switch cfg d c (locals_at ps s p c mk u)) (exec_switch cfg' d c (locals_at ps' s p c mk v))"
  using assms
  by (elim insertE emptyE; simp add: sim_defs exec_s_start_req_def exec_s_req_method_def exec_s_req_spaces_before_url_def
    exec_s_req_http_start_def exec_s_req_http_H_def exec_s_req_http_HT_def exec_s_req_http_HTT_def
    exec_s_req_http_HTTP_def exec_s_req_first_http_major_def exec_s_req_http_major_def
    exec_s_req_first_http_minor_def exec_s_req_http_minor_def exec_s_req_line_almost_done_def
    more_http_major_def more_http_minor_def split: option.split)

lemma sim_url:
  assumes "tsim ps ps'" "R u v" and "s \<in> mark_states FOR_url"
  shows "osim R (exec_switch cfg d c (locals_at ps s p c mk u)) (exec_switch cfg' d c (locals_at ps' s p c mk v))"
  using assms(1,2)
  by (simp add: exec_switch_url [OF assms(3)] sim_defs exec_s_req_schema_def exec_s_req_url_def url_default_def
    del: exec_switch_def mark_states.simps)

lemma sim_header_start:
  assumes "tsim ps ps'" "R u v"
    and "s \<in> {s_header_field_start, s_header_value_discard_ws, s_header_value_start, s_header_almost_done,
      s_header_value_lws, s_header_value_discard_ws_almost_done, s_header_value_discard_lws}"
  shows "osim R (exec_switch cfg d c (locals_at ps s p c mk u)) (exec_switch cfg' d c (locals_at ps' s p c mk v))"
  using assms
  by (elim insertE emptyE; simp add: sim_defs exec_s_header_field_start_def exec_s_header_value_discard_ws_def
    exec_s_header_value_start_def exec_s_header_almost_done_def exec_s_header_value_lws_def
    exec_s_header_value_discard_ws_almost_done_def exec_s_header_value_discard_lws_def split: header_states.split)

lemma sim_field:
  assumes "tsim ps ps'" "R u v"
  shows "osim R (exec_switch cfg d c (locals_at ps s_header_field p c mk u))
    (exec_switch cfg' d c (locals_at ps' s_header_field p c mk v))"
proof (cases "header_field_loop (drop p d) ps 0")
  case None
  with field_loop_tsim [OF assms(1), of "drop p d" 0] show ?thesis by (simp add: exec_switch_def exec_s_header_field_def)
next
  case (Some r)
  then obtain q n stop where "header_field_loop (drop p d) ps 0 = Some (q, n, stop)" by (cases r) simp
  with field_loop_tsim [OF assms(1), of "drop p d" 0] assms show ?thesis
    by (simp add: sim_defs exec_s_header_field_def split: option.split)
qed

lemma sim_value:
  assumes "tsim ps ps'" "R u v"
  shows "osim R (exec_switch cfg d c (locals_at ps s_header_value p c mk u))
    (exec_switch cfg' d c (locals_at ps' s_header_value p c mk v))"
proof (cases "header_value_loop (drop p d) (header_state ps) ps 0")
  case None
  with value_loop_tsim [OF assms(1), of "drop p d" "header_state ps" 0] assms(1) show ?thesis
    by (simp add: exec_switch_def exec_s_header_value_def tsim_rules)
next
  case (Some r)
  then obtain e h q n where "header_value_loop (drop p d) (header_state ps) ps 0 = Some (e, h, q, n)" by (cases r) simp
  with value_loop_tsim [OF assms(1), of "drop p d" "header_state ps" 0] assms show ?thesis
    by (cases e) (simp_all add: sim_defs exec_s_header_value_def)
qed

lemma HEADERS_sim:
  assumes "tsim ps ps'" "R u v"
  shows "osim R (exec_switch cfg d c (locals_at ps s_headers_almost_done p c mk u))
    (exec_switch cfg' d c (locals_at ps' s_headers_almost_done p c mk v))"
proof -
  have h: "on_headers_complete cfg = Some f \<Longrightarrow> f q w = (0, q, eff_headers w)"
    "on_headers_complete cfg = None \<Longrightarrow> eff_headers w = w" for f q w
    using one.headers_Some one.headers_None by blast+
  have h': "on_headers_complete cfg' = Some f \<Longrightarrow> f q w = (0, q, eff_headers' w)"
    "on_headers_complete cfg' = None \<Longrightarrow> eff_headers' w = w" for f q w
    using two.headers_Some two.headers_None by blast+
  have r: "R (eff_headers u) (eff_headers' v)" using related_headers assms(2) .
  show ?thesis
    using assms r
    by (cases "on_headers_complete cfg"; cases "on_headers_complete cfg'")
      (simp_all add: sim_defs exec_s_headers_almost_done_def h h')
qed

lemma sim_body:
  assumes "tsim ps ps'" "R u v"
    and "s \<in> {s_headers_done, s_message_done, s_body_identity, s_body_identity_eof}"
  shows "osim R (exec_switch cfg d c (locals_at ps s p c mk u)) (exec_switch cfg' d c (locals_at ps' s p c mk v))"
  using assms
  by (elim insertE emptyE; simp add: sim_defs exec_s_headers_done_def exec_s_message_done_def exec_s_body_identity_def
    exec_s_body_identity_eof_def consume_body_def body_to_read_def word_gt_0)

lemma sim_chunk:
  assumes "tsim ps ps'" "R u v"
    and "s \<in> {s_chunk_size_start, s_chunk_size, s_chunk_parameters, s_chunk_size_almost_done, s_chunk_data,
      s_chunk_data_almost_done, s_chunk_data_done}"
  shows "osim R (exec_switch cfg d c (locals_at ps s p c mk u)) (exec_switch cfg' d c (locals_at ps' s p c mk v))"
  using assms
  by (elim insertE emptyE; simp add: sim_defs exec_s_chunk_size_start_def exec_s_chunk_size_def
    exec_s_chunk_parameters_def exec_s_chunk_size_almost_done_def exec_s_chunk_data_def
    exec_s_chunk_data_almost_done_def exec_s_chunk_data_done_def consume_body_def body_to_read_def)

lemma switch_sim:
  assumes "lsim R l l'"
  shows "osim R (exec_switch cfg d (cur l) l) (exec_switch cfg' d (cur l) l')"
proof -
  obtain ps s p c mk u where l: "l = locals_at ps s p c mk u" by (cases l) simp
  with assms obtain ps' v where l': "l' = locals_at ps' s p c mk v" "tsim ps ps'" "R u v"
    by (cases l') (auto simp: lsim_def)
  have "osim R (exec_switch cfg d c (locals_at ps s p c mk u)) (exec_switch cfg' d c (locals_at ps' s p c mk v))"
  proof (cases "s \<in> mark_states FOR_url")
    case False
    note sims = sim_response [OF l'(2,3)] sim_request [OF l'(2,3)] sim_header_start [OF l'(2,3)] sim_body [OF l'(2,3)]
      sim_chunk [OF l'(2,3)]
    show ?thesis
      by (insert False, cases s; (rule sims; simp; fail)?)
        (simp_all add: sim_field [OF l'(2,3)] sim_value [OF l'(2,3)] HEADERS_sim [OF l'(2,3)])
  qed (rule sim_url [OF l'(2,3)])
  then show ?thesis by (simp add: l l'(1))
qed

end

section \<open>The loop and the call\<close>

fun rsim :: "('u \<Rightarrow> 'v \<Rightarrow> bool) \<Rightarrow> 'u result \<Rightarrow> 'v result \<Rightarrow> bool" where
  "rsim R (Returned n ps u) (Returned n' ps' u') \<longleftrightarrow> n' = n \<and> ps' = ps \<and> R u u'"
| "rsim R Faulted Faulted \<longleftrightarrow> True"
| "rsim R r r' \<longleftrightarrow> False"

lemma error_label_sim: "lsim R l l' \<Longrightarrow> rsim R (error_label l) (error_label l')"
  by (auto simp: error_label_def lsim_def tsim_rules Let_def)

lemma osim_cases:
  assumes "osim R r r'"
  obtains (Break) l l' where "r = Break l" "r' = Break l'" "lsim R l l'"
    | (Reexecute) l l' where "r = Reexecute l" "r' = Reexecute l'" "lsim R l l'"
    | (Goto_error) l l' where "r = Goto_error l" "r' = Goto_error l'" "lsim R l l'"
    | (Return) n ps u u' where "r = Return n ps u" "r' = Return n ps u'" "R u u'" | (Fault) "r = Fault" "r' = Fault"
  using assms by (cases "(R, r, r')" rule: osim.cases) auto

lemma result_sim: "osim R r r' \<Longrightarrow> rsim R (outcome_result r) (outcome_result r')"
  by (cases "(R, r, r')" rule: osim.cases) (simp_all add: outcome_result_def error_label_sim)

context two_clients
begin

lemma finish_sim:
  assumes "lsim R l l'"
  shows "rsim R (exec_finish cfg d l) (exec_finish cfg' d l')"
proof -
  obtain ps s p c mk u where l: "l = locals_at ps s p c mk u" by (cases l) simp
  with assms obtain ps' v where "l' = locals_at ps' s p c mk v" "tsim ps ps'" "R u v"
    by (cases l') (auto simp: lsim_def)
  then show ?thesis
    unfolding exec_finish_def l by (intro result_sim) (simp add: sim_defs)
qed

lemma loop_sim:
  assumes "exec_loop cfg d re l = Some r" "lsim R l l'"
  shows "\<exists>r'. exec_loop cfg' d re l' = Some r' \<and> rsim R r r'"
proof -
  let ?P = "\<lambda>cfg0 d0 re l r. cfg0 = cfg \<longrightarrow> d0 = d \<longrightarrow>
    (\<forall>l'. lsim R l l' \<longrightarrow> (\<exists>r'. exec_loop cfg' d re l' = Some r' \<and> rsim R r r'))"
  have "?P cfg d re l r"
  proof (rule exec_loop.raw_induct [where P = ?P, OF _ assms(1)], intro impI allI)
    fix f cfg0 d0 re l r and l' :: "'v locals"
    assume IH: "\<And>cfg0 d0 re l r. f cfg0 d0 re l = Some r \<Longrightarrow> ?P cfg0 d0 re l r"
      and eq: "cfg0 = cfg" "d0 = d" and l': "lsim R l l'"
      and step: "(if re then case exec_switch cfg0 d0 (cur l) l of
          Break l' \<Rightarrow> f cfg0 d0 False (l'\<lparr>pos := pos l' + 1\<rparr>)
        | Reexecute l' \<Rightarrow> f cfg0 d0 True l'
        | Goto_error l' \<Rightarrow> Some (error_label l')
        | Return n ps u \<Rightarrow> Some (Returned n ps u)
        | Fault \<Rightarrow> Some Faulted
      else if pos l = length d0 then Some (exec_finish cfg0 d0 l)
      else if length d0 < pos l then Some Faulted
      else case count_header_byte Reexecute (l\<lparr>cur := d0 ! pos l\<rparr>) of
          Reexecute l' \<Rightarrow> f cfg0 d0 True l'
        | out \<Rightarrow> Some (outcome_result out)) = Some r"
    have onward: "\<exists>r'. exec_loop cfg' d re l' = Some r' \<and> rsim R r r'" if "f cfg d re l = Some r" "lsim R l l'" for re l l'
      using IH [OF that(1)] that(2) by blast
    have same: "cur l' = cur l" "pos l' = pos l" using l' by (simp_all add: lsim_def)
    show "\<exists>r'. exec_loop cfg' d re l' = Some r' \<and> rsim R r r'"
    proof (cases re)
      case True
      have go: "exec_loop cfg' d True l' = (case exec_switch cfg' d (cur l) l' of
          Break l' \<Rightarrow> exec_loop cfg' d False (l'\<lparr>pos := pos l' + 1\<rparr>)
        | Reexecute l' \<Rightarrow> exec_loop cfg' d True l'
        | Goto_error l' \<Rightarrow> Some (error_label l')
        | Return n ps u \<Rightarrow> Some (Returned n ps u)
        | Fault \<Rightarrow> Some Faulted)"
        using same by (subst exec_loop.simps) simp
      from switch_sim [OF l'] show ?thesis
      proof (cases rule: osim_cases)
        case (Break l1 l1')
        then have "lsim R (l1\<lparr>pos := pos l1 + 1\<rparr>) (l1'\<lparr>pos := pos l1' + 1\<rparr>)" by (simp add: lsim_def)
        with onward [OF _ this, of False] Break step True eq show ?thesis by (simp add: go)
      qed (use step True eq onward in \<open>auto simp: go error_label_sim\<close>)
    next
      case False
      have count: "osim R (count_header_byte Reexecute (l\<lparr>cur := d ! pos l\<rparr>)) (count_header_byte Reexecute (l'\<lparr>cur := d ! pos l\<rparr>))"
        using l' by (cases l; cases l'; clarsimp simp: lsim_def) (simp add: sim_defs count_header_byte_def)
      have go: "exec_loop cfg' d False l' = (if pos l = length d then Some (exec_finish cfg' d l')
        else if length d < pos l then Some Faulted
        else case count_header_byte Reexecute (l'\<lparr>cur := d ! pos l\<rparr>) of
          Reexecute l' \<Rightarrow> exec_loop cfg' d True l'
        | out \<Rightarrow> Some (outcome_result out))"
        using same by (subst exec_loop.simps) simp
      show ?thesis
      proof (cases "pos l < length d")
        case True
        from count show ?thesis
        proof (cases rule: osim_cases)
          case (Reexecute l1 l1')
          with onward [OF _ Reexecute(3), of True] step False True eq show ?thesis by (simp add: go)
        qed (use step False True eq result_sim [OF count] in \<open>auto simp: go outcome_result_def\<close>)
      next
        case no_more: False
        with step False eq finish_sim [OF l'] show ?thesis by (auto simp: go split: if_splits)
      qed
    qed
  qed
  with assms(2) show ?thesis by blast
qed

text \<open>
  The call as a whole: if it returns for the one application, then for the other, at the same
  place, with the same parser, and with related states.
\<close>

lemma execute_sim:
  assumes "http_parser_execute cfg d ps u = Some (Returned n ps' u')" "R u v" "d \<noteq> []"
  shows "\<exists>v'. http_parser_execute cfg' d ps v = Some (Returned n ps' v') \<and> R u' v'"
proof (cases "http_errno ps = HPE_OK")
  case True
  then have "exec_loop cfg d False (initial_locals ps u) = Some (Returned n ps' u')"
    using assms(1,3) by (simp add: http_parser_execute_def)
  moreover have "lsim R (initial_locals ps u) (initial_locals ps v)"
    using assms(2) by (simp add: lsim_def initial_locals_def)
  ultimately obtain r' where "exec_loop cfg' d False (initial_locals ps v) = Some r'" "rsim R (Returned n ps' u') r'"
    using loop_sim by blast
  then show ?thesis using True assms(3) by (cases r') (auto simp: http_parser_execute_def)
qed (use assms in \<open>auto simp: http_parser_execute_def\<close>)

end

end
