(* ===== verification/Body_Events.thy ===== *)
theory Body_Events
  imports Parser_Clients Parser_Fragments
begin

text \<open>
  How one call of \<open>http_parser_execute\<close> shows a body: never as an empty part, and never as two
  parts in a row, since after a part the buffer ends, or the message or the chunk does.
\<close>

section \<open>Events in which a body is in one part\<close>

fun is_body :: "event \<Rightarrow> bool" where
  "is_body (Data FOR_body bs) = True"
| "is_body e = False"

definition ends :: "event \<Rightarrow> bool" where
  "ends e \<longleftrightarrow> e = Notify FOR_message_complete \<or> e = Notify FOR_chunk_complete"

fun tidy :: "event list \<Rightarrow> bool" where
  "tidy [] = True"
| "tidy (e # es) = ((is_body e \<longrightarrow> e \<noteq> Data FOR_body [] \<and> (es = [] \<or> ends (hd es))) \<and> tidy es)"

definition body_last :: "event list \<Rightarrow> bool" where
  "body_last es \<longleftrightarrow> es \<noteq> [] \<and> is_body (last es)"

lemma tidy_snoc: "tidy (es @ [e]) \<longleftrightarrow> tidy es \<and> e \<noteq> Data FOR_body [] \<and> (body_last es \<longrightarrow> ends e)"
  by (induction es) (auto simp: body_last_def)

text \<open>While the switch runs, the last event is part of a body only where that part has just ended.\<close>

definition settled :: "state \<Rightarrow> event list \<Rightarrow> bool" where
  "settled s es \<longleftrightarrow> tidy es \<and> (body_last es \<longrightarrow> s \<in> {s_message_done, s_chunk_data_done})"

definition quiet :: "event list \<Rightarrow> bool" where
  "quiet es \<longleftrightarrow> tidy es \<and> \<not> body_last es"

lemma quiet_snoc [simp]:
  "quiet es \<Longrightarrow> quiet (es @ [Notify F])" "quiet es \<Longrightarrow> quiet (es @ [Headers_complete])"
  "quiet es \<Longrightarrow> f \<noteq> FOR_body \<Longrightarrow> quiet (es @ [Data f bs])"
proof -
  have "is_body (Data f bs) = (f = FOR_body)" by (cases f) simp_all
  then show "quiet es \<Longrightarrow> f \<noteq> FOR_body \<Longrightarrow> quiet (es @ [Data f bs])"
    by (auto simp: quiet_def tidy_snoc body_last_def)
qed (auto simp: quiet_def tidy_snoc body_last_def)

lemma settled_snoc:
  "settled s es \<Longrightarrow> F \<in> {FOR_message_complete, FOR_chunk_complete} \<Longrightarrow> quiet (es @ [Notify F])"
  by (auto simp: settled_def quiet_def tidy_snoc body_last_def ends_def)

lemma quiet_settled [simp]: "quiet es \<Longrightarrow> settled s es" "quiet es \<Longrightarrow> tidy es"
  by (simp_all add: quiet_def settled_def)

lemma settled_quiet: "settled s es \<Longrightarrow> s \<notin> {s_message_done, s_chunk_data_done} \<Longrightarrow> quiet es"
  by (auto simp: quiet_def settled_def)

fun tidy_out :: "event list outcome \<Rightarrow> bool" where
  "tidy_out (Break l) \<longleftrightarrow> settled (p_state l) (user l)"
| "tidy_out (Reexecute l) \<longleftrightarrow> settled (p_state l) (user l) \<and> p_state l \<notin> mark_states FOR_body"
| "tidy_out (Goto_error l) \<longleftrightarrow> tidy (user l)"
| "tidy_out (Return n ps es) \<longleftrightarrow> tidy es"
| "tidy_out Fault \<longleftrightarrow> True"

lemma tidy_DATA:
  "http_errno (parser l) = HPE_OK \<Longrightarrow> quiet (user l) \<Longrightarrow> FOR \<noteq> FOR_body \<Longrightarrow>
    (\<And>l'. quiet (user l') \<Longrightarrow> p_state l' = p_state l \<Longrightarrow> tidy_out (k l')) \<Longrightarrow>
    tidy_out (CALLBACK_DATA_at observer d FOR LEN ER k l)"
  by (simp add: DATA_observer split: option.split)

lemma tidy_NOTIFY:
  "http_errno (parser l) = HPE_OK \<Longrightarrow> quiet (user l) \<Longrightarrow>
    (\<And>l'. quiet (user l') \<Longrightarrow> p_state l' = p_state l \<Longrightarrow> tidy_out (k l')) \<Longrightarrow>
    tidy_out (CALLBACK_NOTIFY_at observer FOR ER k l)"
  by (simp add: NOTIFY_observer)

lemmas tidy_defs = tidy_DATA tidy_NOTIFY CALLBACK_NOTIFY_def CALLBACK_NOTIFY_NOADVANCE_def CALLBACK_DATA_def
  CALLBACK_DATA_NOADVANCE_def exec_switch_def set_errno_goto_error_def STRICT_CHECK_def assert_then_def RETURN_def Let_def
  COUNT_HEADER_SIZE_def

lemma MARK_keeps [simp]: "user (MARK f l) = user l" "p_state (MARK f l) = p_state l"
  by (simp_all add: MARK_def)

lemma tidy_quiet_switch:
  assumes "p_state l \<notin> {s_header_field, s_header_value, s_body_identity, s_chunk_data_almost_done,
    s_message_done, s_chunk_data_done}"
    "http_errno (parser l) = HPE_OK" "quiet (user l)"
  shows "tidy_out (exec_switch observer d c l)"
proof (cases "p_state l \<in> mark_states FOR_url")
  case True
  then show ?thesis
    using assms(2,3) by (simp add: exec_switch_url exec_s_req_schema_def exec_s_req_url_def url_default_def tidy_defs
        del: exec_switch_def mark_states.simps)
next
  case False
  then show ?thesis
    using assms
    by (cases "p_state l", simp_all add: tidy_defs note_event_def
        exec_s_dead_def exec_s_start_req_or_res_def exec_s_res_or_resp_H_def exec_s_start_res_def exec_s_res_H_def
        exec_s_res_HT_def exec_s_res_HTT_def exec_s_res_HTTP_def exec_s_res_first_http_major_def
        exec_s_res_http_major_def exec_s_res_first_http_minor_def exec_s_res_http_minor_def
        exec_s_res_first_status_code_def exec_s_res_status_code_def exec_s_res_status_start_def
        exec_s_res_status_def exec_s_res_line_almost_done_def more_http_major_def more_http_minor_def
        exec_s_start_req_def exec_s_req_method_def exec_s_req_spaces_before_url_def
        exec_s_req_http_start_def exec_s_req_http_H_def exec_s_req_http_HT_def exec_s_req_http_HTT_def
        exec_s_req_http_HTTP_def exec_s_req_first_http_major_def exec_s_req_http_major_def
        exec_s_req_first_http_minor_def exec_s_req_http_minor_def exec_s_req_line_almost_done_def
        exec_s_header_field_start_def exec_s_header_value_discard_ws_def exec_s_header_value_start_def
        exec_s_header_almost_done_def exec_s_header_value_lws_def exec_s_header_value_discard_ws_almost_done_def
        exec_s_header_value_discard_lws_def exec_s_headers_almost_done_def exec_s_headers_done_def
        exec_s_body_identity_eof_def exec_s_chunk_size_start_def exec_s_chunk_size_def exec_s_chunk_parameters_def
        exec_s_chunk_size_almost_done_def exec_s_chunk_data_def consume_body_def
        split: header_states.split option.split)
qed

lemma byte_range_nonempty: "m < length d \<Longrightarrow> 0 < n \<Longrightarrow> byte_range d m n \<noteq> []"
  by (simp add: byte_range_def)

lemma body_shown: "quiet es \<Longrightarrow> bs \<noteq> [] \<Longrightarrow> s \<in> {s_message_done, s_chunk_data_done} \<Longrightarrow> settled s (es @ [Data FOR_body bs])"
  by (auto simp: settled_def quiet_def tidy_snoc)

lemma field_loop_errno: "header_field_loop bs ps n = Some (q, m, x) \<Longrightarrow> http_errno q = http_errno ps"
proof (induction bs arbitrary: ps n)
  case (Cons c bs)
  have "header_field_step c (TOKEN c) ps = Some ps' \<Longrightarrow> http_errno ps' = http_errno ps" for ps'
    by (cases "header_state ps") (auto simp: header_field_step_def Let_def split: if_splits)
  with Cons show ?case by (auto simp: Let_def split: if_splits option.splits)
qed simp

lemma value_loop_errno: "header_value_loop bs h ps n = Some (e, g, q, m) \<Longrightarrow> http_errno q = http_errno ps"
proof (induction bs h ps n rule: header_value_loop.induct)
  case (2 c rest h ps n)
  have step: "header_value_step c h ps = Value_next h' ps' \<Longrightarrow> http_errno ps' = http_errno ps" for h' ps'
    by (cases h) (auto simp: header_value_step_def set_flag_def Let_def split: if_splits)
  show ?case
  proof (cases "c = CR \<or> c = LF")
    case True
    then show ?thesis using 2(3) by (auto split: if_splits)
  next
    case False
    show ?thesis
    proof (cases "header_value_step c h ps")
      case (Value_next h1 ps1)
      with 2(3) False have "header_value_loop rest h1 ps1 (n + 1) = Some (e, g, q, m)" by simp
      with 2(1) Value_next False step [OF Value_next] show ?thesis by metis
    next
      case Value_skip
      with 2(3) False have "header_value_loop (drop (general_skip (c # rest)) (c # rest)) h ps (n + general_skip (c # rest)) =
          Some (e, g, q, m)" by (simp del: drop_Cons')
      with 2(2) Value_skip False show ?thesis by metis
    qed (use 2(3) False in simp_all)
  qed
qed simp

lemma tidy_switch:
  assumes l: "p_state l = s" "http_errno (parser l) = HPE_OK" "pos l < length d" "settled s (user l)"
    and mark: "\<And>m. marks l FOR_body = Some m \<Longrightarrow> m < pos l"
  shows "tidy_out (exec_switch observer d c l)"
proof -
  obtain ps p c' mk es where lit: "l = lit ps s p c' mk es" "http_errno ps = HPE_OK" "p < length d" "settled s es"
    "mk FOR_body = Some m \<Longrightarrow> m < p" for m
    using assms by (cases l) auto
  consider "s \<notin> {s_header_field, s_header_value, s_body_identity, s_chunk_data_almost_done, s_message_done, s_chunk_data_done}"
    | "s = s_header_field" | "s = s_header_value" | "s = s_body_identity" | "s = s_chunk_data_almost_done"
    | "s = s_message_done" | "s = s_chunk_data_done" by blast
  then show ?thesis
  proof cases
    case 1
    then show ?thesis using l settled_quiet [of s "user l"] by (intro tidy_quiet_switch) auto
  next
    case 2
    then have "quiet es" using settled_quiet [OF lit(4)] by simp
    then show ?thesis using 2 lit(1,2)
      by (auto simp: exec_s_header_field_def tidy_defs field_loop_errno split: option.split)
  next
    case 3
    then have "quiet es" using settled_quiet [OF lit(4)] by simp
    then show ?thesis using 3 lit(1,2)
      by (auto simp: exec_s_header_value_def tidy_defs value_loop_errno split: option.split value_end.split)
  next
    case 4
    then have "quiet es" using settled_quiet [OF lit(4)] by simp
    then show ?thesis using 4 lit(1,2,3) lit(5)
      by (auto simp: exec_switch_def exec_s_body_identity_def assert_then_def consume_body_def Let_def MARK_def
        DATA_observer body_shown byte_range_nonempty split: option.split)
  next
    case 5
    then have "quiet es" using settled_quiet [OF lit(4)] by simp
    then show ?thesis using 5 lit(1,2,3) lit(5)
      by (auto simp: exec_switch_def exec_s_chunk_data_almost_done_def assert_then_def STRICT_CHECK_def
        set_errno_goto_error_def CALLBACK_DATA_def
        DATA_observer body_shown byte_range_nonempty split: option.split)
  next
    case 6
    then show ?thesis using lit(1,2,4)
      by (auto simp: exec_switch_def exec_s_message_done_def CALLBACK_NOTIFY_def NOTIFY_observer RETURN_def settled_snoc)
  next
    case 7
    have "tidy es" using lit(4) by (simp add: settled_def)
    then show ?thesis using 7 lit(1,2,4)
      by (auto simp: exec_switch_def exec_s_chunk_data_done_def CALLBACK_NOTIFY_def NOTIFY_observer settled_snoc
        assert_then_def STRICT_CHECK_def set_errno_goto_error_def)
  qed
qed

section \<open>One call\<close>

fun tidy_result :: "event list result \<Rightarrow> bool" where
  "tidy_result (Returned n ps es) \<longleftrightarrow> tidy es"
| "tidy_result Faulted \<longleftrightarrow> True"

lemma tidy_outcome_result: "tidy_out r \<Longrightarrow> tidy_result (outcome_result r)"
  by (cases r) (simp_all add: outcome_result_def error_label_def Let_def)

lemma tidy_finish:
  assumes l: "http_errno (parser l) = HPE_OK" "pos l = length d" "settled (p_state l) (user l)"
    "marks_ok (p_state l) (pos l) (marks l)" and mark: "\<And>m. marks l FOR_body = Some m \<Longrightarrow> m < pos l"
  shows "tidy_result (exec_finish observer d l)"
  using l(4)
proof (rule one_mark)
  assume "marks l = (\<lambda>_. None)"
  with l show ?thesis
    by (cases l) (simp add: exec_finish_def assert_then_def CALLBACK_DATA_NOADVANCE_def DATA_observer RETURN_def
      outcome_result_def settled_def)
next
  fix f m assume m: "m \<le> pos l" "p_state l \<in> mark_states f" "marks l = (\<lambda>_. None)(f := Some m)"
  then have "p_state l \<notin> {s_message_done, s_chunk_data_done}" by (cases f) auto
  then have quiet: "quiet (user l)" using l(3) settled_quiet by blast
  have "tidy (user l @ [Data f (byte_range d m (pos l - m))])"
  proof (cases "f = FOR_body")
    case True
    then have "m < pos l" using m(3) mark by simp
    then have "byte_range d m (pos l - m) \<noteq> []" using l(2) by (simp add: byte_range_nonempty)
    then show ?thesis using quiet by (auto simp: quiet_def tidy_snoc)
  next
    case False
    then show ?thesis using quiet_snoc(3) [OF quiet] by simp
  qed
  then show ?thesis
    using m l
    by (cases l; cases f) (simp_all add: exec_finish_def assert_then_def CALLBACK_DATA_NOADVANCE_def DATA_observer
      RETURN_def outcome_result_def)
qed

text \<open>The locals at the loop head and at the switch.\<close>

definition tidy_locals :: "byte list \<Rightarrow> bool \<Rightarrow> event list locals \<Rightarrow> bool" where
  "tidy_locals d re l \<longleftrightarrow> settled (p_state l) (user l) \<and> (\<forall>m. marks l FOR_body = Some m \<longrightarrow> m < pos l)
     \<and> (if re then switch_ok d (\<lambda>_. True) l
        else callable_in (\<lambda>_. True) l \<and> pos l \<le> length d \<and> marks_ok (p_state l) (pos l) (marks l))"

lemma tidy_after_switch:
  assumes "tidy_locals d True l" "length d < 2 ^ 64"
  shows "exec_switch observer d (cur l) l = Break l1 \<Longrightarrow> tidy_locals d False (l1\<lparr>pos := pos l1 + 1\<rparr>)"
    "exec_switch observer d (cur l) l = Reexecute l1 \<Longrightarrow> tidy_locals d True l1"
    "tidy_result (outcome_result (exec_switch observer d (cur l) l))"
proof -
  have l: "switch_ok d (\<lambda>_. True) l" "settled (p_state l) (user l)" "\<And>m. marks l FOR_body = Some m \<Longrightarrow> m < pos l"
    using assms(1) by (simp_all add: tidy_locals_def)
  then have out: "tidy_out (exec_switch observer d (cur l) l)"
    by (intro tidy_switch) (simp_all add: switch_ok_def)
  have good: "outcome_ok d (\<lambda>_. True) (pos l) (p_state l) (exec_switch observer d (cur l) l)"
    using observer_good [OF assms(2) l(1)] .
  show "exec_switch observer d (cur l) l = Break l1 \<Longrightarrow> tidy_locals d False (l1\<lparr>pos := pos l1 + 1\<rparr>)"
    using out good by (auto simp: tidy_locals_def break_ok_def callable_in_def marks_ok_def less_Suc_eq_le le_SucI)
  show "exec_switch observer d (cur l) l = Reexecute l1 \<Longrightarrow> tidy_locals d True l1"
  proof -
    assume "exec_switch observer d (cur l) l = Reexecute l1"
    then have l1: "settled (p_state l1) (user l1)" "p_state l1 \<notin> mark_states FOR_body" "switch_ok d (\<lambda>_. True) l1"
      using out good by (simp_all add: reexecute_ok_def del: mark_states.simps)
    then have "marks l1 FOR_body = None"
      by (cases "marks l1 FOR_body") (simp_all add: switch_ok_def marks_ok_def del: mark_states.simps)
    with l1 show ?thesis by (simp add: tidy_locals_def)
  qed
  show "tidy_result (outcome_result (exec_switch observer d (cur l) l))" using out by (rule tidy_outcome_result)
qed

lemma tidy_loop:
  assumes "exec_loop observer d re l = Some r" "length d < 2 ^ 64" "tidy_locals d re l"
  shows "tidy_result r"
proof -
  let ?P = "\<lambda>cfg d re l r. cfg = observer \<longrightarrow> length d < 2 ^ 64 \<longrightarrow> tidy_locals d re l \<longrightarrow> tidy_result r"
  have "?P observer d re l r"
  proof (rule exec_loop.raw_induct [where P = ?P, OF _ assms(1)], intro impI)
    fix f cfg and d :: "byte list" and re l r
    assume IH: "\<And>cfg d re l r. f cfg d re l = Some r \<Longrightarrow> ?P cfg d re l r"
      and cfg: "cfg = observer" and d: "length d < 2 ^ 64" and l: "tidy_locals d re l"
      and step: "(if re then case exec_switch cfg d (cur l) l of
          Break l' \<Rightarrow> f cfg d False (l'\<lparr>pos := pos l' + 1\<rparr>)
        | Reexecute l' \<Rightarrow> f cfg d True l'
        | Goto_error l' \<Rightarrow> Some (error_label l')
        | Return n ps u \<Rightarrow> Some (Returned n ps u)
        | Fault \<Rightarrow> Some Faulted
      else if pos l = length d then Some (exec_finish cfg d l)
      else if length d < pos l then Some Faulted
      else case count_header_byte Reexecute (l\<lparr>cur := d ! pos l\<rparr>) of
          Reexecute l' \<Rightarrow> f cfg d True l'
        | out \<Rightarrow> Some (outcome_result out)) = Some r"
    have onward: "tidy_result r" if "f cfg d re l = Some r" "tidy_locals d re l" for re l
      using IH [OF that(1)] cfg d that(2) by blast
    show "tidy_result r"
    proof (cases re)
      case True
      note after = tidy_after_switch [OF l [unfolded True [THEN eqTrueI]] d]
      show ?thesis
        using step cfg onward after True
        by (cases "exec_switch observer d (cur l) l") (auto simp: outcome_result_def)
    next
      case False
      then have l: "settled (p_state l) (user l)" "\<And>m. marks l FOR_body = Some m \<Longrightarrow> m < pos l"
        "callable_in (\<lambda>_. True) l" "pos l \<le> length d" "marks_ok (p_state l) (pos l) (marks l)"
        using l by (simp_all add: tidy_locals_def)
      show ?thesis
      proof (cases "pos l = length d")
        case True
        then show ?thesis
          using step False cfg l tidy_finish [of l d] by (auto simp: callable_in_def)
      next
        case more: False
        let ?l = "l\<lparr>cur := d ! pos l\<rparr>"
        have same: "settled (p_state l1) (user l1) \<and> marks l1 = marks l" if "count_header_byte Reexecute ?l = Reexecute l1" for l1
          using that l(1) by (auto simp: count_header_byte_def COUNT_HEADER_SIZE_def set_errno_goto_error_def Let_def split: if_splits)
        have "count_header_byte Reexecute ?l = Reexecute l1 \<Longrightarrow> tidy_locals d True l1" for l1
          using l more same [of l1] parser_client.count_header_byte_ok [OF client_ok_parser_client [OF observer_ok d], of l "d ! pos l"]
          by (auto simp: tidy_locals_def)
        moreover have "tidy_result (outcome_result (count_header_byte Reexecute ?l))"
          using l(1) by (auto simp: count_header_byte_def COUNT_HEADER_SIZE_def set_errno_goto_error_def Let_def
              settled_def outcome_result_def error_label_def)
        ultimately show ?thesis
          using step False cfg onward more l(4) by (cases "count_header_byte Reexecute ?l") (auto simp: outcome_result_def)
      qed
    qed
  qed
  with assms(2,3) show ?thesis by blast
qed

interpretation appended: two_clients observer "\<lambda>FOR m bs es. es @ [Data FOR bs]" "\<lambda>FOR es. es @ [Notify FOR]"
    "\<lambda>es. es @ [Headers_complete]" observer "\<lambda>FOR m bs es. es @ [Data FOR bs]" "\<lambda>FOR es. es @ [Notify FOR]"
    "\<lambda>es. es @ [Headers_complete]" d "\<lambda>es es'. es = es0 @ es'" for d es0
  by unfold_locales auto

lemma execute_tidy:
  assumes "http_parser_execute observer d ps es = Some (Returned n ps' es')" "parser_ok ps" "d \<noteq> []" "length d < 2 ^ 64"
  shows "\<exists>xs. es' = es @ xs \<and> tidy xs"
proof -
  from appended.execute_sim [OF assms(1) _ assms(3), of es "[]"] obtain xs where
    xs: "http_parser_execute observer d ps [] = Some (Returned n ps' xs)" "es' = es @ xs" by auto
  have "tidy xs"
  proof (cases "http_errno ps = HPE_OK")
    case True
    then have "tidy_locals d False (initial_locals ps [])"
      using assms(2) marks_ok_initial [of "state ps"]
      by (auto simp: tidy_locals_def settled_def body_last_def callable_in_def parser_ok_def initial_locals_def initial_marks_def)
    with xs(1) True assms(3) tidy_loop [OF _ assms(4), of False "initial_locals ps []"] show ?thesis
      by (auto simp: http_parser_execute_def)
  qed (use xs(1) in \<open>simp add: http_parser_execute_def\<close>)
  with xs(2) show ?thesis by blast
qed

section \<open>The body in a list of events\<close>

text \<open>What is shown of a body up to the end of the message, and the last part of it.\<close>

fun shown_body :: "event list \<Rightarrow> byte list" where
  "shown_body [] = []"
| "shown_body (Data FOR_body bs # es) = bs @ shown_body es"
| "shown_body (Notify FOR_message_complete # es) = []"
| "shown_body (e # es) = shown_body es"

fun last_part :: "byte list \<Rightarrow> event list \<Rightarrow> byte list" where
  "last_part b [] = b"
| "last_part b (Data FOR_body bs # es) = last_part bs es"
| "last_part b (Notify FOR_message_complete # es) = b"
| "last_part b (e # es) = last_part b es"

definition completes :: "event list \<Rightarrow> nat" where
  "completes es = count_list es (Notify FOR_message_complete)"

lemma completes_append [simp]: "completes (xs @ ys) = completes xs + completes ys"
  by (simp add: completes_def)

lemma completes_simps [simp]:
  "completes [] = 0" "completes (Notify FOR_message_complete # es) = Suc (completes es)"
  "F \<noteq> FOR_message_complete \<Longrightarrow> completes (Notify F # es) = completes es" "completes (Data f bs # es) = completes es"
  "completes (Headers_complete # es) = completes es"
  by (simp_all add: completes_def)

lemma before_complete:
  "completes xs = 0 \<Longrightarrow> shown_body (xs @ ys) = shown_body xs @ shown_body ys"
  "completes xs = 0 \<Longrightarrow> last_part b (xs @ ys) = last_part (last_part b xs) ys"
  "completes xs \<noteq> 0 \<Longrightarrow> shown_body (xs @ ys) = shown_body xs"
  "completes xs \<noteq> 0 \<Longrightarrow> last_part b (xs @ ys) = last_part b xs"
  subgoal by (induction xs rule: shown_body.induct) simp_all
  subgoal by (induction b xs rule: last_part.induct) simp_all
  subgoal by (induction xs rule: shown_body.induct) simp_all
  subgoal by (induction b xs rule: last_part.induct) simp_all
  done

lemma last_part_tidy:
  "tidy es \<Longrightarrow> Notify FOR_chunk_complete \<notin> set es \<Longrightarrow> last_part b es = (if shown_body es = [] then b else shown_body es)"
proof (induction b es rule: last_part.induct)
  case (2 b bs es)
  then show ?case by (cases es) (auto simp: ends_def)
qed auto

lemma last_part_none: "Data FOR_body [] \<notin> set es \<Longrightarrow> shown_body es = [] \<Longrightarrow> last_part b es = b"
  by (induction b es rule: last_part.induct) auto

lemma tidy_no_empty: "tidy es \<Longrightarrow> Data FOR_body [] \<notin> set es"
  by (induction es) auto

text \<open>None of this depends on where data is cut.\<close>

lemma shown_snoc:
  "shown_body (es @ [Data FOR_body bs]) = shown_body es @ (if completes es = 0 then bs else [])"
  "\<not> is_body e \<Longrightarrow> shown_body (es @ [e]) = shown_body es"
proof -
  have "\<not> is_body e \<Longrightarrow> shown_body [e] = []" by (cases e rule: is_body.cases; cases e) (auto split: notify_for.split, metis (full_types) notify_for.exhaust shown_body.simps)
  then show "\<not> is_body e \<Longrightarrow> shown_body (es @ [e]) = shown_body es"
    by (cases "completes es = 0") (simp_all add: before_complete)
  show "shown_body (es @ [Data FOR_body bs]) = shown_body es @ (if completes es = 0 then bs else [])"
    by (cases "completes es = 0") (simp_all add: before_complete)
qed

lemma add_event_keeps:
  "shown_body (add_event es e) = shown_body (es @ [e])" "completes (add_event es e) = completes (es @ [e])"
  "Notify F \<in> set (add_event es e) \<longleftrightarrow> Notify F \<in> set (es @ [e])"
proof -
  have "shown_body (add_event es e) = shown_body (es @ [e]) \<and> completes (add_event es e) = completes (es @ [e])
    \<and> (Notify F \<in> set (add_event es e) \<longleftrightarrow> Notify F \<in> set (es @ [e]))"
  proof (cases e)
    case (Data f bs)
    show ?thesis
    proof (cases "bs \<noteq> [] \<and> (\<exists>ys a. es = ys @ [Data f a])")
      case True
      then obtain ys a where "es = ys @ [Data f a]" "bs \<noteq> []" by blast
      then show ?thesis using Data
        by (cases f; cases "completes ys = 0") (simp_all add: before_complete shown_snoc)
    next
      case False
      then have "bs = [] \<or> add_event es e = es @ [e]" using Data by (cases es rule: rev_cases) auto
      then show ?thesis using Data by (cases f) (auto simp: shown_snoc)
    qed
  qed simp_all
  then show "shown_body (add_event es e) = shown_body (es @ [e])" "completes (add_event es e) = completes (es @ [e])"
    "Notify F \<in> set (add_event es e) \<longleftrightarrow> Notify F \<in> set (es @ [e])" by simp_all
qed

lemma joined_body:
  "shown_body (joined es) = shown_body es" "completes (joined es) = completes es"
  "Notify F \<in> set (joined es) \<longleftrightarrow> Notify F \<in> set es"
proof -
  have "shown_body (joined es) = shown_body es \<and> completes (joined es) = completes es
    \<and> (Notify F \<in> set (joined es) \<longleftrightarrow> Notify F \<in> set es)"
  proof (induction es rule: rev_induct)
    case (snoc e es)
    then show ?case
      by (cases "is_body e"; cases e rule: is_body.cases) (simp_all add: joined_snoc add_event_keeps shown_snoc del: add_event.simps)
  qed (simp add: joined_def)
  then show "shown_body (joined es) = shown_body es" "completes (joined es) = completes es"
    "Notify F \<in> set (joined es) \<longleftrightarrow> Notify F \<in> set es" by simp_all
qed

end
