(* ===== verification/Session_Portions.thy ===== *)
theory Session_Portions
  imports Body_Reads Request_Portions Body_Events
begin

text \<open>
  A request that comes in any portions, read by read: what the connection makes of it. The
  connection is followed along an observer of the same bytes (\<open>Parser_Clients\<close>), for which it is
  known what it is shown (\<open>Request_Portions\<close>) and in how many parts (\<open>Body_Events\<close>).
\<close>

section \<open>A connection and an observer of the same bytes\<close>

text \<open>
  Before the message is complete, the connection holds the last part of the body it was shown;
  once it is, it has answered to that part.
\<close>

definition answered :: "'j jsoncpp \<Rightarrow> 'j \<Rightarrow> 's \<Rightarrow> ('j, 's) session \<Rightarrow> bool" where
  "answered J root srv s \<longleftrightarrow>
     s_outbox s = [reply_text (js_write J root)] \<and> s_server s = srv \<and> s_process s \<and> \<not> s_fault s"

definition collecting :: "'j jsoncpp \<Rightarrow> 's \<Rightarrow> nat \<Rightarrow> event list \<Rightarrow> ('j, 's) session \<Rightarrow> bool" where
  "collecting J srv n es s \<longleftrightarrow>
     s_response s = response_new (js_null J) \<and> s_server s = srv \<and> s_outbox s = [] \<and> \<not> s_process s \<and> \<not> s_fault s
     \<and> (\<forall>b. req_body (s_request s) = Some b \<longrightarrow> req_len (s_request s) = 0 \<or> b + req_len (s_request s) \<le> s_pos s + n)
     \<and> request_body s = last_part [] es"

definition follows :: "'j jsoncpp \<Rightarrow> ('j, 's) message_handler \<Rightarrow> 's \<Rightarrow> nat \<Rightarrow> byte list \<Rightarrow> event list \<Rightarrow> ('j, 's) session \<Rightarrow> bool" where
  "follows J h srv p d es s \<longleftrightarrow>
     length (s_data s) = max_length \<and> s_pos s = p \<and> p + length d \<le> max_length
     \<and> byte_range (s_data s) (s_pos s) (length d) = d \<and> \<not> s_reading s \<and> \<not> s_closed s
     \<and> (completes es = 0 \<longrightarrow> collecting J srv (length d) es s)
     \<and> (completes es = 1 \<longrightarrow> (\<forall>root srv'. h (last_part [] es) (js_null J) srv = Some (root, srv') \<longrightarrow> answered J root srv' s))"

lemma last_part_snoc:
  "completes es = 0 \<Longrightarrow> last_part b (es @ [Data FOR_body bs]) = bs"
  "FOR \<noteq> FOR_body \<Longrightarrow> last_part b (es @ [Data FOR bs]) = last_part b es"
  "last_part b (es @ [Notify F]) = last_part b es" "last_part b (es @ [Headers_complete]) = last_part b es"
  "completes es \<noteq> 0 \<Longrightarrow> last_part b (es @ [e]) = last_part b es"
proof -
  have one: "FOR \<noteq> FOR_body \<Longrightarrow> last_part c [Data FOR bs] = c" "last_part c [Notify F] = c" for c
    by (cases FOR; simp) (cases F; simp)
  show "completes es = 0 \<Longrightarrow> last_part b (es @ [Data FOR_body bs]) = bs" by (simp add: before_complete)
  show "FOR \<noteq> FOR_body \<Longrightarrow> last_part b (es @ [Data FOR bs]) = last_part b es"
    by (cases "completes es = 0") (simp_all add: before_complete one)
  show "last_part b (es @ [Notify F]) = last_part b es" "last_part b (es @ [Headers_complete]) = last_part b es"
    by (cases "completes es = 0"; simp add: before_complete one)+
qed (simp add: before_complete)

lemma shown_bytes:
  assumes "byte_range data p (length d) = d" "p + length d \<le> length data"
  shows "byte_range data (p + m) (length (byte_range d m n)) = byte_range d m n"
proof -
  have "byte_range d m n = take (min n (length d - m)) (drop (p + m) data)"
  proof -
    have "drop m d = drop m (take (length d) (drop p data))" using assms(1) by (simp add: byte_range_def)
    then show ?thesis by (simp add: byte_range_def drop_take add.commute)
  qed
  moreover have "length (byte_range d m n) = min n (length d - m)" by (simp add: byte_range_def min.commute)
  ultimately show ?thesis by (simp add: byte_range_def)
qed

lemma follows_data:
  assumes "follows J h srv p d es s"
  shows "follows J h srv p d (es @ [Data FOR (byte_range d m n)]) (session_data FOR m (byte_range d m n) s)"
proof (cases "FOR = FOR_body")
  case False
  then show ?thesis using assms by (auto simp: follows_def collecting_def session_data_def last_part_snoc)
next
  case True
  let ?bs = "byte_range d m n" and ?s = "session_data FOR m (byte_range d m n) s"
  have s: "s_pos s + length d \<le> length (s_data s)" "byte_range (s_data s) (s_pos s) (length d) = d"
    using assms by (auto simp: follows_def)
  have "request_body ?s = ?bs"
    using shown_bytes [OF s(2,1)] True by (simp add: session_data_def session_on_body_def request_body_def)
  moreover have "m + length ?bs \<le> length d \<or> ?bs = []" by (auto simp: byte_range_def)
  ultimately show ?thesis
    using assms True
    by (cases "completes es = 0")
      (auto simp: follows_def collecting_def session_data_def session_on_body_def last_part_snoc answered_def request_body_def)
qed


lemma follows_notify:
  assumes "follows J h srv p d es s"
  shows "follows J h srv p d (es @ [Notify F]) (session_notify J h F s)"
proof (cases "F = FOR_message_complete")
  case False
  then show ?thesis using assms by (auto simp: follows_def collecting_def session_notify_def last_part_snoc)
next
  case complete: True
  have frame: "s_data (session_notify J h F s) = s_data s" "s_pos (session_notify J h F s) = s_pos s"
    "s_reading (session_notify J h F s) = s_reading s" "s_closed (session_notify J h F s) = s_closed s"
    using complete by (auto simp: session_notify_def session_on_message_complete_def do_write_def Let_def split: option.split)
  show ?thesis
  proof (cases "completes es = 0")
    case True
    then have s: "s_response s = response_new (js_null J)" "s_server s = srv" "s_outbox s = []" "\<not> s_fault s"
      "request_body s = last_part [] es" using assms by (simp_all add: follows_def collecting_def)
    have "answered J root srv' (session_notify J h F s)" if h: "h (last_part [] es) (js_null J) srv = Some (root, srv')" for root srv'
    proof -
      obtain res where res: "response_end (js_write J) ((response_new (js_null J))\<lparr>res_root := root\<rparr>) =
          Some (reply_text (js_write J root), res)"
        using response_end_fresh [where writer = "js_write J" and null = "js_null J" and root = root] by auto
      have "res_root (response_new (js_null J)) = js_null J" by (simp add: response_new_def)
      then have "session_notify J h F s =
          s\<lparr>s_response := res, s_server := srv', s_process := True, s_outbox := s_outbox s @ [reply_text (js_write J root)]\<rparr>"
        using session_complete [of h s root srv' J "reply_text (js_write J root)" res] h res s complete by simp
      then show ?thesis using s by (simp add: answered_def)
    qed
    then show ?thesis using assms True frame complete by (auto simp: follows_def last_part_snoc)
  next
    case False
    then show ?thesis using assms frame complete by (auto simp: follows_def)
  qed
qed

interpretation followed: two_clients observer "\<lambda>FOR m bs es. es @ [Data FOR bs]" "\<lambda>FOR es. es @ [Notify FOR]"
    "\<lambda>es. es @ [Headers_complete]" "session_settings J h" session_data "session_notify J h" "\<lambda>s. s" d "follows J h srv p d"
  for d and p and J :: "'j jsoncpp" and h :: "('j, 's) message_handler" and srv
proof unfold_locales
  show "follows J h srv p d (es @ [Headers_complete]) s" if "follows J h srv p d es s" for es s
    using that by (auto simp: follows_def collecting_def last_part_snoc)
qed (rule follows_data follows_notify, assumption)+

section \<open>Read by read\<close>

text \<open>Between two reads; the connection waits for more.\<close>

definition gathering :: "'j jsoncpp \<Rightarrow> 's \<Rightarrow> event list \<Rightarrow> ('j, 's) session \<Rightarrow> bool" where
  "gathering J srv es s \<longleftrightarrow>
     length (s_data s) = max_length \<and> s_pos s < max_length \<and> s_reading s \<and> \<not> s_closed s \<and> collecting J srv 0 es s"

lemma request_body_frame [simp]: "request_body (s\<lparr>s_pos := p, s_reading := b\<rparr>) = request_body s"
  by (simp add: request_body_def split: option.split)

lemma gathering_fill:
  assumes "gathering J srv es s" "s_pos s + length d \<le> max_length" "completes es = 0"
  shows "follows J h srv (s_pos s) d es (fill d s)"
proof -
  have len: "s_pos s + length d \<le> length (s_data s)" using assms by (simp add: gathering_def)
  have "byte_range (take (s_pos s) (s_data s) @ d @ drop (s_pos s + length d) (s_data s)) b n = byte_range (s_data s) b n"
    if "n = 0 \<or> b + n \<le> s_pos s" for b n
    using that len by (auto simp: byte_range_def drop_take)
  then have "request_body (fill d s) = request_body s"
    using assms(1) by (auto simp: gathering_def collecting_def request_body_def fill_def split: option.split)
  then show ?thesis
    using assms len by (auto simp: follows_def gathering_def collecting_def fill_def byte_range_def)
qed

text \<open>A read that does not complete the message, and the one that does.\<close>

lemma read_on:
  assumes s: "gathering J srv es s" "completes es = 0" and d: "d \<noteq> []" "s_pos s + length d < max_length"
    and out: "http_parser_execute observer d ps es = Some (Returned n ps' es')" "completes es' = 0"
  shows "\<exists>s'. onRead J h d (ps, s) = Some (ps', s') \<and> gathering J srv es' s' \<and> s_pos s' = s_pos s + length d"
proof -
  have "follows J h srv (s_pos s) d es (fill d s)" using gathering_fill [OF s(1) _ s(2)] d(2) by simp
  from followed.execute_sim [OF out(1) this d(1)] obtain s1 where
    "http_parser_execute (session_settings J h) d ps (fill d s) = Some (Returned n ps' s1)" "follows J h srv (s_pos s) d es' s1" by blast
  then show ?thesis
    using d(2) out(2)
    by (auto simp: onRead_def Let_def follows_def gathering_def collecting_def do_read_def)
qed

lemma read_last:
  assumes s: "gathering J srv es s" "completes es = 0" and d: "d \<noteq> []" "s_pos s + length d \<le> max_length"
    and out: "http_parser_execute observer d ps es = Some (Returned n ps' es')" "completes es' = 1"
    and h: "h (last_part [] es') (js_null J) srv = Some (root, srv')"
  shows "\<exists>s'. onRead J h d (ps, s) = Some (ps', s') \<and> answered J root srv' s' \<and> \<not> s_reading s' \<and> \<not> s_closed s'"
proof -
  have "follows J h srv (s_pos s) d es (fill d s)" using gathering_fill [OF s(1) d(2) s(2)] .
  from followed.execute_sim [OF out(1) this d(1)] obtain s1 where
    "http_parser_execute (session_settings J h) d ps (fill d s) = Some (Returned n ps' s1)" "follows J h srv (s_pos s) d es' s1" by blast
  then show ?thesis using out(2) h by (auto simp: onRead_def Let_def follows_def answered_def)
qed

text \<open>What \<open>deliver\<close> has delivered without an error and without the end of a message, the connection has read.\<close>

lemma no_complete_calm: "completes es = 0 \<Longrightarrow> calm ps es"
  by (cases es rule: rev_cases) (auto simp: calm_def)

lemma portion_length: "d \<in> set ds \<Longrightarrow> length d \<le> length (concat ds)"
  by (auto dest!: split_list)

lemma deliver_events:
  assumes "deliver ds ps es = Some (Returned n ps' es')" "parser_ok ps" "[] \<notin> set ds" "length (concat ds) < 2 ^ 64"
  shows "\<exists>xs. es' = es @ xs \<and> Data FOR_body [] \<notin> set xs"
  using assms
proof (induction ds arbitrary: ps es n)
  case (Cons d ds)
  have d: "d \<noteq> []" "length d < 2 ^ 64" using Cons.prems(3,4) by auto
  obtain n1 ps1 es1 where one: "http_parser_execute observer d ps es = Some (Returned n1 ps1 es1)" "parser_ok ps1"
    using client_execute_ok [OF observer_ok d(2) Cons.prems(2), of es] by (auto simp: done_ok_def)
  obtain xs where xs: "es1 = es @ xs" "Data FOR_body [] \<notin> set xs"
    using execute_tidy [OF one(1) Cons.prems(2) d] tidy_no_empty by blast
  show ?case
  proof (cases "http_errno ps1 = HPE_OK \<and> calm ps1 es1")
    case True
    with one(1) Cons.prems(1) obtain n2 where "deliver ds ps1 es1 = Some (Returned n2 ps' es')"
      by (auto simp: and_then_def split: option.splits result.splits)
    from Cons.IH [OF this one(2)] Cons.prems(3,4) xs show ?thesis by auto
  next
    case False
    with one(1) Cons.prems(1) xs show ?thesis by (auto simp: and_then_def)
  qed
qed simp

lemma deliver_Cons:
  assumes "deliver (d # ds) ps es = Some (Returned n ps' es')" "http_errno ps' = HPE_OK" "calm ps' es'"
    and "http_parser_execute observer d ps es = Some (Returned n1 ps1 es1)"
  obtains n2 where "deliver ds ps1 es1 = Some (Returned n2 ps' es')" "http_errno ps1 = HPE_OK"
proof -
  have "http_errno ps1 = HPE_OK \<and> calm ps1 es1" using assms by (auto simp: and_then_def split: if_splits)
  with assms(1,4) that show thesis by (auto simp: and_then_def split: option.splits result.splits)
qed

lemma reads_on:
  assumes "deliver pre ps es = Some (Returned n ps1 es1)" "parser_ok ps" "http_errno ps1 = HPE_OK" "completes es1 = 0"
    and "gathering J srv es s" "[] \<notin> set pre" "s_pos s + length (concat pre) < max_length"
  shows "\<exists>s1. reads J h pre (ps, s) = Some (ps1, s1) \<and> gathering J srv es1 s1 \<and> s_pos s1 = s_pos s + length (concat pre)"
  using assms
proof (induction pre arbitrary: ps es n s)
  case (Cons d pre)
  have d: "d \<noteq> []" "length d < 2 ^ 64" "s_pos s + length d < max_length" "length (concat pre) < 2 ^ 64"
    using Cons.prems(6,7) by (auto simp: max_length_def)
  obtain n1 ps2 es2 where one: "http_parser_execute observer d ps es = Some (Returned n1 ps2 es2)" "parser_ok ps2"
    using client_execute_ok [OF observer_ok d(2) Cons.prems(2), of es] by (auto simp: done_ok_def)
  obtain n2 where rest: "deliver pre ps2 es2 = Some (Returned n2 ps1 es1)"
    using deliver_Cons [OF Cons.prems(1,3) no_complete_calm [OF Cons.prems(4)] one(1)] .
  obtain xs ys where "es2 = es @ xs" "es1 = es2 @ ys"
    using execute_tidy [OF one(1) Cons.prems(2) d(1,2)] deliver_events [OF rest one(2) _ d(4)] Cons.prems(6) by auto
  then have "completes es = 0" "completes es2 = 0" using Cons.prems(4) by simp_all
  with read_on [OF Cons.prems(5) _ d(1,3) one(1), of h] obtain s2 where
    s2: "onRead J h d (ps, s) = Some (ps2, s2)" "gathering J srv es2 s2" "s_pos s2 = s_pos s + length d" by blast
  from Cons.IH [OF rest one(2) Cons.prems(3,4) s2(2)] Cons.prems(6,7) s2 show ?case by (auto simp: add.assoc)
qed simp

section \<open>What is shown of a request before its last portion\<close>

context passive_client
begin

text \<open>The head of a request without its last byte.\<close>

lemma execute_stem:
  assumes ps: "idle ps" "state ps = s_start_req" and r: "request_ok r"
  shows "\<exists>ps'. http_parser_execute cfg (butlast (request_head r)) ps u =
      Some (Returned (length (request_head r) - 1) ps'
        (lines_effect eff_data (length (request_line (msg_method r) (msg_url r))) (msg_headers r)
          (eff_data FOR_url (length (method_string (msg_method r)) + 1) (msg_url r) (eff_notify FOR_message_begin u))))
    \<and> http_errno ps' = HPE_OK"
proof -
  let ?d = "butlast (request_head r)"
  have d: "?d = request_line (msg_method r) (msg_url r) @ concat (map header_line (msg_headers r)) @ CR # []"
    by (simp add: request_head_def butlast_append)
  then have "?d \<noteq> []" by simp
  have "initial_locals ps u = here s_start_req 0 (\<lambda>_. None) ps u"
    using ps(2) by (simp add: initial_locals_def here_def initial_marks_def)
  with \<open>?d \<noteq> []\<close> ps have 1: "http_parser_execute cfg ?d ps u = go cfg ?d s_start_req 0 (\<lambda>_. None) ps u"
    by (simp add: http_parser_execute_def go_def idle_def)
  obtain st h idx where 2: "go cfg ?d s_start_req 0 (\<lambda>_. None) ps u = go cfg ?d s_headers_almost_done (length ?d) (\<lambda>_. None)
      (rq ps (msg_method r) (1, 1) (foldl header_length ULLONG_MAX (msg_headers r)) (upgrade ps)
        (length (request_head r) - 1) st h idx)
      (lines_effect eff_data (length (request_line (msg_method r) (msg_url r))) (msg_headers r)
        (eff_data FOR_url (length (method_string (msg_method r)) + 1) (msg_url r) (eff_notify FOR_message_begin u)))"
    using go_stem [OF _ ps(1) r, of 0 ?d "[]" u] unfolding drop_0 add_0 length_butlast using d by blast
  show ?thesis unfolding 1 2 by (subst go_end) simp_all
qed

end

lemma header_events_none: "completes (concat (map header_events hs)) = 0" "shown_body (concat (map header_events hs)) = []"
proof -
  show c: "completes (concat (map header_events hs)) = 0" for hs by (induction hs) (auto simp: header_events_def)
  show "shown_body (concat (map header_events hs)) = []"
    by (induction hs) (auto simp: header_events_def)
qed


text \<open>
  Of a request whose last portion is still to come, the message has not been completed, and of its
  body exactly the bytes that came have been shown.
\<close>

lemma pending_request:
  assumes ps: "idle ps" "state ps = s_start_req" "parser_ok ps" and r: "request_ok r"
    and pre: "concat pre @ d = request_text r" "d \<noteq> []" "[] \<notin> set pre" "2 * length (request_text r) \<le> HTTP_MAX_HEADER_SIZE"
  obtains n ps1 es1 where "deliver pre ps [] = Some (Returned n ps1 es1)" "http_errno ps1 = HPE_OK" "completes es1 = 0"
    "shown_body es1 = take (length (concat pre) - length (request_head r)) (msg_body r)"
proof -
  have ok: "http_errno ps = HPE_OK" "calm ps []" "unat (nread ps) = 0" using ps(1) by (simp_all add: idle_def calm_def)
  have fits: "length (concat pre) + length d = length (request_text r)" using arg_cong [OF pre(1), of length] by simp
  show thesis
  proof (cases "length (request_head r) \<le> length (concat pre)")
    case True
    define b where "b = take (length (concat pre) - length (request_head r)) (msg_body r)"
    have b: "concat pre = request_head r @ b"
      using arg_cong [OF pre(1), of "take (length (concat pre))"] True by (simp add: request_text_def b_def)
    have "length b < length (msg_body r)"
      using fits b pre(2) by (simp add: request_text_def length_greater_0_conv [symmetric] del: length_greater_0_conv)
    from observing.execute_head [OF ps(1,2) r this, of "[]"] obtain n ps' E where
      one: "http_parser_execute observer (concat pre) ps [] = Some (Returned n ps' E)" "http_errno ps' = HPE_OK"
      and E: "completes E = 0" "shown_body E = b"
      by (auto simp: b observed_lines in_body_def header_events_none before_complete split: if_splits)
    have "concat pre \<noteq> []" "unat (nread ps) + 2 * length (concat pre) \<le> HTTP_MAX_HEADER_SIZE"
      using b fits pre(4) ok(3) by (simp_all add: request_head_def)
    from delivered_as_one [OF ps(3) ok(1,2) pre(3) this one] obtain ps2 es2 where
      "deliver pre ps [] = Some (Returned n ps2 es2)" "http_errno ps2 = HPE_OK" "joined es2 = joined E" by metis
    moreover from this(3) have "completes es2 = 0" "shown_body es2 = b" using E joined_body(1,2) by metis+
    ultimately show thesis using that b_def by blast
  next
    case False
    define t where "t = drop (length (concat pre)) (butlast (request_head r))"
    define ds where "ds = pre @ (if t = [] then [] else [t])"
    have "concat pre = take (length (concat pre)) (request_head r)"
      using arg_cong [OF pre(1), of "take (length (concat pre))"] False by (simp add: request_text_def)
    also have "\<dots> = take (length (concat pre)) (butlast (request_head r))"
      using False by (simp add: take_butlast)
    finally have "concat pre @ t = butlast (request_head r)" unfolding t_def by (metis append_take_drop_id)
    then have stem: "concat ds = butlast (request_head r)" "[] \<notin> set ds"
      using pre(3) by (cases "t = []"; simp add: ds_def)+
    from observing.execute_stem [OF ps(1,2) r, of "[]"] obtain n ps' E where
      one: "http_parser_execute observer (concat ds) ps [] = Some (Returned n ps' E)" "http_errno ps' = HPE_OK"
      and E: "completes E = 0" "shown_body E = []"
      by (auto simp: stem observed_lines header_events_none)
    have "concat ds \<noteq> []" "unat (nread ps) + 2 * length (concat ds) \<le> HTTP_MAX_HEADER_SIZE"
      using stem(1) pre(4) ok(3) by (simp_all add: request_text_def request_head_def butlast_append)
    from delivered_as_one [OF ps(3) ok(1,2) stem(2) this one] obtain ps2 es2 where
      all: "deliver ds ps [] = Some (Returned n ps2 es2)" "http_errno ps2 = HPE_OK" "joined es2 = joined E" by metis
    then have es2: "completes es2 = 0" "shown_body es2 = []" using E joined_body(1,2) by metis+
    have "\<forall>d \<in> set pre. length d < 2 ^ 64"
      using fits pre(4) portion_length [of _ pre] by (fastforce simp: HTTP_MAX_HEADER_SIZE_def)
    then obtain n1 ps1 es1 where part: "deliver pre ps [] = Some (Returned n1 ps1 es1)" "parser_ok ps1"
      using deliver_ok [OF ps(3), of pre "[]"] by blast
    have "http_errno ps1 = HPE_OK \<and> (\<exists>xs. es2 = es1 @ xs)"
    proof (cases "t = [] \<or> \<not> (http_errno ps1 = HPE_OK \<and> calm ps1 es1)")
      case True
      then have "ps2 = ps1 \<and> es2 = es1"
        using all(1) part(1) ok(1,2) by (cases "t = []") (auto simp: ds_def deliver_append and_then_def)
      then show ?thesis using all(2) by simp
    next
      case more: False
      then obtain n2 where "deliver [t] ps1 es1 = Some (Returned n2 ps2 es2)"
        using all(1) part(1) ok(1,2) by (auto simp: ds_def deliver_append and_then_def split: option.splits result.splits)
      moreover have "length t < 2 ^ 64"
        using pre(4) by (simp add: t_def request_text_def HTTP_MAX_HEADER_SIZE_def)
      ultimately show ?thesis
        using deliver_events [of "[t]" ps1 es1 n2 ps2 es2] part(2) more by auto
    qed
    then have "http_errno ps1 = HPE_OK" "completes es1 = 0" "shown_body es1 = []"
      using es2 by (auto simp: before_complete)
    then show thesis using that part(1) False by simp
  qed
qed

lemma rest_after_take: "take k b @ x = b \<Longrightarrow> x = drop k b"
  using append_take_drop_id [of k b] by (metis same_append_eq)

text \<open>The whole request, whose last portion is \<open>d\<close>.\<close>

lemma complete_request:
  assumes ps: "idle ps" "state ps = s_start_req" "parser_ok ps" and r: "request_ok r"
    and pre: "concat pre @ d = request_text r" "d \<noteq> []" "[] \<notin> set pre" "2 * length (request_text r) \<le> HTTP_MAX_HEADER_SIZE"
  obtains n ps1 es1 n2 ps2 es2 where "deliver pre ps [] = Some (Returned n ps1 es1)" "http_errno ps1 = HPE_OK" "completes es1 = 0"
    "http_parser_execute observer d ps1 es1 = Some (Returned n2 ps2 es2)" "completes es2 = 1"
    "last_part [] es2 = drop (length (msg_body r) - length d) (msg_body r)"
proof -
  have ok: "http_errno ps = HPE_OK" "calm ps []" using ps(1) by (simp_all add: idle_def calm_def)
  have fits: "length (concat pre) + length d = length (request_head r) + length (msg_body r)"
    using arg_cong [OF pre(1), of length] by (simp add: request_text_def)
  have len: "length d < 2 ^ 64" "length (concat pre) < 2 ^ 64"
    using pre(1,4) by (auto simp: HTTP_MAX_HEADER_SIZE_def simp flip: pre(1))
  obtain n ps1 es1 where part: "deliver pre ps [] = Some (Returned n ps1 es1)" "http_errno ps1 = HPE_OK" "completes es1 = 0"
    "shown_body es1 = take (length (concat pre) - length (request_head r)) (msg_body r)"
    using pending_request [OF ps r pre] by blast
  have "parser_ok ps1" using deliver_ok [OF ps(3), of pre "[]"] part(1) len(2) portion_length [of _ pre] by fastforce
  obtain ps2 es2 where all: "deliver (pre @ [d]) ps [] = Some (Returned (length (request_text r)) ps2 es2)"
    "joined es2 = joined (request_events r)"
    using requests_delivered [OF ps(3,1,2) ok(2), of "[r]" "pre @ [d]"] r pre by auto
  then obtain n2 where step: "http_parser_execute observer d ps1 es1 = Some (Returned n2 ps2 es2)"
    using part(1,2) no_complete_calm [OF part(3)] ok
    by (auto simp: deliver_append and_then_def split: option.splits result.splits if_splits)
  obtain xs where xs: "es2 = es1 @ xs" "tidy xs" using execute_tidy [OF step \<open>parser_ok ps1\<close> pre(2) len(1)] by blast
  have events: "completes (request_events r) = 1" "shown_body (request_events r) = msg_body r"
    "Notify FOR_chunk_complete \<notin> set (request_events r)"
    by (simp_all add: request_events_def header_events_none before_complete)
      (auto simp: header_events_def)
  have es2: "completes es2 = 1" "shown_body es2 = msg_body r" "Notify FOR_chunk_complete \<notin> set es2"
    using events all(2) joined_body(1,2) [of es2] joined_body(1,2) [of "request_events r"]
      joined_body(3) [of FOR_chunk_complete es2] joined_body(3) [of FOR_chunk_complete "request_events r"] by simp_all
  have xs_body: "shown_body xs = drop (length (concat pre) - length (request_head r)) (msg_body r)"
    using es2(2) part(3,4) xs(1) by (intro rest_after_take) (simp add: before_complete)
  have "last_part [] es2 = last_part (last_part [] es1) xs" using part(3) xs(1) by (simp add: before_complete)
  also have "\<dots> = (if shown_body xs = [] then last_part [] es1 else shown_body xs)"
    using es2(3) xs by (simp add: last_part_tidy)
  also have "\<dots> = drop (length (msg_body r) - length d) (msg_body r)"
  proof (cases "shown_body xs = []")
    case True
    have "length (msg_body r) \<le> length (concat pre) - length (request_head r)" using True xs_body by simp
    moreover have "0 < length d" using pre(2) by simp
    ultimately have "length (msg_body r) = 0" using fits by linarith
    then have "msg_body r = []" by simp
    moreover have "last_part [] es1 = []"
      using deliver_events [OF part(1) ps(3) pre(3) len(2)] part(4) \<open>msg_body r = []\<close> by (auto intro: last_part_none)
    ultimately show ?thesis using True by simp
  next
    case False
    have "length (concat pre) - length (request_head r) = length (msg_body r) - length d"
    proof (cases "length (request_head r) \<le> length (concat pre)")
      case True
      then show ?thesis using fits by simp
    next
      case False
      then show ?thesis using fits by simp
    qed
    then show ?thesis using False xs_body by simp
  qed
  finally show thesis using that part(1-3) step es2(1) by blast
qed


section \<open>The connection\<close>

lemma start_gathering:
  assumes "length data = max_length"
  shows "gathering J srv [] (snd (session_start this_ptr (ps, session_new J data srv)))"
    "s_pos (snd (session_start this_ptr (ps, session_new J data srv))) = 0"
    "parser_ok (fst (session_start this_ptr (ps, session_new J data srv)))"
  using assms start_ok [OF assms, of this_ptr ps J srv]
  by (simp_all add: gathering_def collecting_def session_start_def session_new_def do_read_def max_length_def
      request_body_def request_new_def conn_ok_def)

lemma reads_answered:
  assumes "length data = max_length" and "request_ok r" and "concat (portions @ [last_one]) = request_text r"
    and "[] \<notin> set portions" and "last_one \<noteq> []" and "length (request_text r) \<le> max_length"
    and "h (drop (length (msg_body r) - length last_one) (msg_body r)) (js_null J) srv = Some (root, srv')"
  shows "\<exists>ps' s'. reads J h (portions @ [last_one]) (session_start this_ptr (ps, session_new J data srv)) = Some (ps', s')
    \<and> s_outbox s' = [reply_text (js_write J root)] \<and> s_server s' = srv'
    \<and> s_process s' \<and> \<not> s_reading s' \<and> \<not> s_closed s'"
proof -
  obtain ps0 s0 where start: "session_start this_ptr (ps, session_new J data srv) = (ps0, s0)"
    by (cases "session_start this_ptr (ps, session_new J data srv)")
  note ready = first_read_of [where data = data and this_ptr = this_ptr and ps = ps and J = J and srv = srv, unfolded start fst_conv snd_conv]
  note ready' = start_gathering [where this_ptr = this_ptr and ps = ps and J = J and srv = srv, OF assms(1), unfolded start fst_conv snd_conv]
  have bytes: "concat portions @ last_one = request_text r" "2 * length (request_text r) \<le> HTTP_MAX_HEADER_SIZE"
    using assms(3,6) by (simp_all add: max_length_def HTTP_MAX_HEADER_SIZE_def)
  have fits: "length (concat portions) + length last_one = length (request_text r)" using arg_cong [OF bytes(1), of length] by simp
  then have short: "length (concat portions) < max_length"
    using assms(5,6) by (simp add: length_greater_0_conv [symmetric] del: length_greater_0_conv)
  obtain n ps1 es1 n2 ps2 es2 where
    part: "deliver portions ps0 [] = Some (Returned n ps1 es1)" "http_errno ps1 = HPE_OK" "completes es1 = 0"
    and whole: "http_parser_execute observer last_one ps1 es1 = Some (Returned n2 ps2 es2)" "completes es2 = 1"
      "last_part [] es2 = drop (length (msg_body r) - length last_one) (msg_body r)"
    using complete_request [OF ready ready'(3) assms(2) bytes(1) assms(5,4) bytes(2)] by blast
  obtain s1 where s1: "reads J h portions (ps0, s0) = Some (ps1, s1)" "gathering J srv es1 s1" "s_pos s1 = length (concat portions)"
    using reads_on [OF part(1) ready'(3) part(2,3) ready'(1) assms(4)] ready'(2) short by auto
  obtain s2 where "onRead J h last_one (ps1, s1) = Some (ps2, s2)" "answered J root srv' s2" "\<not> s_reading s2" "\<not> s_closed s2"
    using read_last [OF s1(2) part(3) assms(5) _ whole(1,2), of h root srv'] whole(3) assms(6,7) s1(3) fits by auto
  then show ?thesis by (simp add: start reads_append s1(1) answered_def)
qed

text \<open>
  C10. A request that comes in any number of reads, cut anywhere: the message handler is called
  once, when the last of them has come, and it is given that part of the body only which the last
  read brought (all of it, if the body does not reach back into an earlier read). Its answer is
  the only one, and the connection reads no further. So a body is handled in full exactly when
  the last read brings all of it.
\<close>

theorem session_reads_portions:
  assumes "length data = max_length" and "request_ok r" and "concat (portions @ [last_one]) = request_text r"
    and "[] \<notin> set portions" and "last_one \<noteq> []" and "length (request_text r) \<le> max_length"
    and "h (drop (length (msg_body r) - length last_one) (msg_body r)) (js_null J) srv = Some (root, srv')"
  shows "\<exists>ps' s'. reads J h (portions @ [last_one]) (session_start this_ptr (ps, session_new J data srv)) = Some (ps', s')
    \<and> s_outbox s' = [reply_text (js_write J root)] \<and> s_server s' = srv'
    \<and> s_process s' \<and> \<not> s_reading s' \<and> \<not> s_closed s'"
  using assms by (rule reads_answered)

text \<open>A request cut in the request line, in a header and in the body: the handler gets the end of the body.\<close>

lemma session_reads_portions_witness:
  "\<exists>ps' s'. reads (json_instance (\<lambda>_. None)) (\<lambda>body root srv. Some (JString body, body))
      [''PUT /a'', ''?b=1 HTTP/1.1'' @ CRLF @ ''Ho'', ''st: x y'' @ CRLF @ ''content-LENGTH: 12'' @ CRLF @ CRLF @ ''hello, '', ''world'']
      (session_start 0 (blank_parser, session_new (json_instance (\<lambda>_. None)) (replicate 2048 NUL) [])) = Some (ps', s')
    \<and> s_server s' = ''world''"
proof -
  let ?pre = "[''PUT /a'', ''?b=1 HTTP/1.1'' @ CRLF @ ''Ho'', ''st: x y'' @ CRLF @ ''content-LENGTH: 12'' @ CRLF @ CRLF @ ''hello, '']"
  have bytes: "request_text sample_request = concat (?pre @ [''world''])" "length (request_text sample_request) = 66"
    by (simp_all add: sample_request_def request_text_def request_head_def request_line_def header_line_def)
  then show ?thesis
    using session_reads_portions [where data = "replicate 2048 NUL" and r = sample_request and portions = ?pre
        and last_one = "''world''" and h = "\<lambda>body root srv. Some (JString body, body)"
        and J = "json_instance (\<lambda>_. None)" and srv = "[]" and this_ptr = 0 and ps = blank_parser
        and root = "JString ''world''" and srv' = "''world''"] sample_request_ok
    unfolding max_length_def by (simp add: sample_request_def) blast
qed

text \<open>The cuts all in the body: the first part of it comes with the headers, and only the last part is handled.\<close>

lemma last_part_is_handled:
  assumes "length data = max_length" and "request_ok r" and "msg_body r = first_part @ concat parts @ last_one"
    and "[] \<notin> set parts" and "last_one \<noteq> []" and "length (request_text r) \<le> max_length"
    and "h last_one (js_null J) srv = Some (root, srv')"
  shows "\<exists>ps' s'. reads J h ((request_head r @ first_part) # parts @ [last_one])
      (session_start this_ptr (ps, session_new J data srv)) = Some (ps', s')
    \<and> s_outbox s' = [reply_text (js_write J root)] \<and> s_server s' = srv'
    \<and> s_process s' \<and> \<not> s_reading s' \<and> \<not> s_closed s'"
proof -
  have "[] \<notin> set ((request_head r @ first_part) # parts)" using assms(4) by (simp add: request_head_def)
  moreover have "drop (length (msg_body r) - length last_one) (msg_body r) = last_one" using assms(3) by simp
  ultimately show ?thesis
    using reads_answered [OF assms(1,2), of "(request_head r @ first_part) # parts" last_one h J srv root srv' this_ptr ps]
      assms(3,5-7) by (simp add: request_text_def)
qed

text \<open>Half of the body with the headers and half after it: the handler gets the second half.\<close>

lemma last_part_is_handled_witness:
  "\<exists>ps' s'. reads (json_instance (\<lambda>_. None)) (\<lambda>body root srv. Some (JString body, body))
      [request_head sample_request @ ''hello, '', ''world'']
      (session_start 0 (blank_parser, session_new (json_instance (\<lambda>_. None)) (replicate 2048 NUL) [])) = Some (ps', s')
    \<and> s_server s' = ''world''"
proof -
  have "length (request_text sample_request) = 66"
    by (simp add: sample_request_def request_text_def request_head_def request_line_def header_line_def)
  then show ?thesis
    using last_part_is_handled [where data = "replicate 2048 NUL" and r = sample_request and first_part = "''hello, ''"
        and parts = "[]" and last_one = "''world''" and h = "\<lambda>body root srv. Some (JString body, body)"
        and J = "json_instance (\<lambda>_. None)" and srv = "[]" and this_ptr = 0 and ps = blank_parser
        and root = "JString ''world''" and srv' = "''world''"] sample_request_ok
    unfolding max_length_def by (simp add: sample_request_def) blast
qed

end
