(* ===== verification/Session_Chunked.thy ===== *)
theory Session_Chunked
  imports Session_Requests
begin

text \<open>
  A request with a chunked body in the first read of a connection: its callback is shown every
  chunk and remembers the last one.
\<close>

section \<open>What the connection remembers\<close>

text \<open>Where the data of the last of the chunks that begin at offset \<open>i\<close> is, and how long it is.\<close>

definition last_offset :: "nat \<Rightarrow> chunk list \<Rightarrow> nat" where
  "last_offset i cs =
     i + length (concat (map chunk_text (butlast cs))) + length (size_line (fst (last cs)) (fst (snd (last cs))))"

definition last_data :: "chunk list \<Rightarrow> byte list" where
  "last_data cs = (if cs = [] then [] else snd (snd (last cs)))"

definition with_last :: "nat \<Rightarrow> chunk list \<Rightarrow> ('j, 's) session \<Rightarrow> ('j, 's) session" where
  "with_last i cs s =
     (if cs = [] then s
      else s\<lparr>s_request := (s_request s)\<lparr>req_body := Some (s_pos s + last_offset i cs), req_len := length (last_data cs)\<rparr>\<rparr>)"

lemma session_quiet: "FOR \<noteq> FOR_message_complete \<Longrightarrow> session_notify J h FOR s = s"
  by (simp add: session_notify_def)

lemma with_last_step:
  "with_last (i + length (chunk_text (ds, ext, data))) cs (session_data FOR_body (i + length (size_line ds ext)) data s) =
     with_last i ((ds, ext, data) # cs) s"
  by (cases "cs = []") (simp_all add: with_last_def last_offset_def last_data_def session_data_def session_on_body_def add.assoc)

lemma session_chunks: "chunks_effect session_data (session_notify J h) i cs s = with_last i cs s"
proof (induction cs arbitrary: i s)
  case Nil
  show ?case by (simp add: with_last_def)
next
  case (Cons c cs)
  obtain ds ext data where c: "c = (ds, ext, data)" by (cases c)
  show ?case by (simp add: c session_quiet Cons.IH with_last_step)
qed

lemma session_chunked:
  "chunked_effect session_data (session_notify J h) (\<lambda>s. s) r s =
     session_notify J h FOR_message_complete (with_last (length (chunked_head r)) (ck_chunks r) s)"
  by (simp add: chunked_effect_def head_effect_def end_effect_def session_lines session_chunks session_quiet)
    (simp add: session_data_def session_quiet)

lemma last_chunk_at:
  assumes "cs \<noteq> []"
  shows "byte_range (head @ concat (map chunk_text cs) @ rest) (last_offset (length head) cs) (length (last_data cs)) = last_data cs"
proof -
  obtain cs' ds ext data where cs: "cs = cs' @ [(ds, ext, data)]"
    using assms by (metis append_butlast_last_id prod_cases3)
  then have "head @ concat (map chunk_text cs) @ rest =
      (head @ concat (map chunk_text cs') @ size_line ds ext) @ data @ [CR, LF] @ rest"
    by (simp add: chunk_text_def)
  moreover have "last_offset (length head) cs = length (head @ concat (map chunk_text cs') @ size_line ds ext)"
    by (simp add: cs last_offset_def)
  ultimately show ?thesis by (simp add: byte_range_def last_data_def cs chunk_text_def)
qed

section \<open>The answer\<close>

lemma start_chunked:
  assumes "length data = max_length" and "chunked_ok r" and "length (chunked_text r) \<le> max_length"
    and "h (last_data (ck_chunks r)) (js_null J) srv = Some (root, srv')"
  shows "\<exists>ps' s'. onRead J h (chunked_text r) (session_start this_ptr (ps, session_new J data srv)) = Some (ps', s')
    \<and> s_outbox s' = [reply_text (js_write J root)] \<and> s_server s' = srv'
    \<and> s_process s' \<and> \<not> s_reading s' \<and> \<not> s_closed s'"
proof -
  let ?ps = "(http_parser_init ps HTTP_REQUEST)\<lparr>p_data := this_ptr\<rparr>" and ?s = "do_read (session_new J data srv)"
  let ?s1 = "with_last (length (chunked_head r)) (ck_chunks r) (fill (chunked_text r) ?s)"
  have ps: "idle ?ps" "state ?ps = s_start_req" by (simp_all add: idle_def http_parser_init_def)
  have "length (chunked_text r) < 2 ^ 64" using assms(3) by (simp add: max_length_def)
  then obtain ps' where exec: "http_parser_execute (session_settings J h) (chunked_text r) ?ps (fill (chunked_text r) ?s) =
      Some (Returned (length (chunked_text r)) ps' (session_notify J h FOR_message_complete ?s1))"
    using serving_requests.execute_chunked [OF ps assms(2), of J h "fill (chunked_text r) ?s"] by (auto simp: session_chunked)
  obtain q where s1: "?s1 = (fill (chunked_text r) ?s)\<lparr>s_request := q\<rparr>"
    by (cases "ck_chunks r = []") (auto simp: with_last_def intro: that [of "s_request (fill (chunked_text r) ?s)"])
  have range: "byte_range (s_data (fill (chunked_text r) ?s)) (last_offset (length (chunked_head r)) (ck_chunks r))
      (length (last_data (ck_chunks r))) = last_data (ck_chunks r)" if "ck_chunks r \<noteq> []"
    using last_chunk_at [OF that, of "chunked_head r" "size_line (fst (ck_last r)) (snd (ck_last r)) @ trailer_text r
      @ drop (length (chunked_text r)) data"]
    by (simp add: fill_def do_read_def session_new_def chunked_text_def)
  have "request_body ?s1 = last_data (ck_chunks r)"
    using range by (auto simp: request_body_def with_last_def do_read_def session_new_def request_new_def fill_def last_data_def)
  from onRead_answered [OF refl exec [unfolded s1] this [unfolded s1] assms(4)] show ?thesis
    by (auto simp: session_start_def)
qed

text \<open>
  C11. Of a chunked body only the last chunk is handled. A connection that gets a well-formed
  request with a chunked body in its first read answers it once and reads no further; but its
  callback overwrites the place and the length of the body with every chunk, so the message
  handler is given the data of the last chunk (nothing, if there is none) and not the body.
\<close>

theorem session_handles_last_chunk:
  assumes "length data = max_length" and "chunked_ok r" and "length (chunked_text r) \<le> max_length"
    and "h (last_data (ck_chunks r)) (js_null J) srv = Some (root, srv')"
  shows "\<exists>ps' s'. onRead J h (chunked_text r) (session_start this_ptr (ps, session_new J data srv)) = Some (ps', s')
    \<and> s_outbox s' = [reply_text (js_write J root)] \<and> s_server s' = srv'
    \<and> s_process s' \<and> \<not> s_reading s' \<and> \<not> s_closed s'"
  using assms by (rule start_chunked)

text \<open>The chunks are hello, and warehouses; the handler gets warehouses.\<close>

lemma session_handles_last_chunk_witness:
  "\<exists>ps' s'. onRead (json_instance (\<lambda>_. None)) (\<lambda>body root srv. Some (JString body, body)) (chunked_text sample_chunked)
      (session_start 0 (blank_parser, session_new (json_instance (\<lambda>_. None)) (replicate 2048 NUL) [])) = Some (ps', s')
    \<and> s_server s' = ''warehouses''"
proof -
  have "length (chunked_text sample_chunked) = 106"
    by (simp add: sample_chunked_def chunked_text_def chunked_head_def ck_headers_def trailer_text_def request_line_def
        header_line_def chunk_text_def size_line_def)
  moreover have "last_data (ck_chunks sample_chunked) = ''warehouses''" by (simp add: last_data_def sample_chunked_def)
  ultimately show ?thesis
    using session_handles_last_chunk [where data = "replicate 2048 NUL" and r = sample_chunked
        and h = "\<lambda>body root srv. Some (JString body, body)" and J = "json_instance (\<lambda>_. None)" and srv = "[]"
        and this_ptr = 0 and ps = blank_parser and root = "JString ''warehouses''" and srv' = "''warehouses''"] sample_chunked_ok
    unfolding max_length_def by simp blast
qed

end
