(* ===== verification/Session_Pipeline.thy ===== *)
theory Session_Pipeline
  imports Session_Requests
begin

text \<open>
  Several requests in the first read of a connection: each of them is answered, but out of what
  the requests and answers before it have left in the request and in the response.
\<close>

section \<open>What the handler is given\<close>

text \<open>
  The bodies in turn, \<open>b\<close> before the first: a request without a body does not reset the place and the
  length that the callback recorded last. The JSON value goes from one answer to the next.
\<close>

fun handled :: "byte list \<Rightarrow> request_message list \<Rightarrow> byte list list" where
  "handled b [] = []"
| "handled b (r # rs) = (let b = if msg_body r = [] then b else msg_body r in b # handled b rs)"

fun handle_all :: "('j, 's) message_handler \<Rightarrow> byte list list \<Rightarrow> 'j \<Rightarrow> 's \<Rightarrow> ('j list \<times> 's) option" where
  "handle_all h [] root srv = Some ([], srv)"
| "handle_all h (b # bs) root srv =
     (case h b root srv of
        None \<Rightarrow> None
      | Some (root, srv) \<Rightarrow> map_option (\<lambda>(roots, srv). (root # roots, srv)) (handle_all h bs root srv))"

lemma response_end_again:
  assumes "sent n res"
  obtains res' where "response_end writer (res\<lparr>res_root := root\<rparr>) = Some (reply_with n (writer root), res')"
    "res_root res' = root" "sent n res'"
proof -
  let ?res = "res\<lparr>res_root := root, res_headers := res_headers res, res_body := writer root\<rparr>"
  have "map_find (res_headers res) ''Content-Length'' \<noteq> None" "res_status res = 200"
    using assms by (simp_all add: sent_def ci_equal_lower)
  moreover have "get_status_text 200 = Some ''OK''" by (simp add: get_status_text_def)
  ultimately have "response_end writer (res\<lparr>res_root := root\<rparr>) =
      Some (response_text 200 ''OK'' (res_headers res) (writer root), ?res)"
    by (auto simp: response_end_def Let_def)
  also have "response_text 200 ''OK'' (res_headers res) (writer root) = reply_with n (writer root)"
    using assms by (simp add: response_text_def int_string_def decimal_strings header_line_def reply_with_def sent_def)
  finally show thesis using assms by (intro that [of ?res]) (simp_all add: sent_def)
qed

section \<open>One request after another\<close>

text \<open>A connection in the middle of its first read, which has put out the answers \<open>outs\<close>.\<close>

definition piped :: "byte list \<Rightarrow> nat \<Rightarrow> byte list \<Rightarrow> 'j \<Rightarrow> 's \<Rightarrow> byte list list \<Rightarrow> ('j, 's) session \<Rightarrow> bool" where
  "piped data n b root srv outs s \<longleftrightarrow>
     s_data s = data \<and> s_pos s = 0 \<and> \<not> s_fault s \<and> \<not> s_reading s \<and> \<not> s_closed s \<and> s_process s
     \<and> s_outbox s = outs \<and> s_server s = srv \<and> request_body s = b \<and> res_root (s_response s) = root \<and> sent n (s_response s)"

lemma with_body_there:
  assumes "s_data s = pre @ request_text r @ rest" "s_pos s = 0"
  shows "request_body (with_body (length pre) r s) = (if msg_body r = [] then request_body s else msg_body r)"
  using assms by (simp add: with_body_def request_body_def byte_range_def request_text_def)

lemma with_body_else [simp]:
  "s_data (with_body i r s) = s_data s" "s_pos (with_body i r s) = s_pos s" "s_fault (with_body i r s) = s_fault s"
  "s_reading (with_body i r s) = s_reading s" "s_closed (with_body i r s) = s_closed s"
  "s_outbox (with_body i r s) = s_outbox s" "s_server (with_body i r s) = s_server s" "s_response (with_body i r s) = s_response s"
  by (simp_all add: with_body_def)

lemma piped_answer:
  assumes s: "s_data s = data" "s_pos s = 0" "\<not> s_fault s" "\<not> s_reading s" "\<not> s_closed s"
    and h: "h (request_body s) (res_root (s_response s)) (s_server s) = Some (root, srv)"
    and res: "response_end (js_write J) ((s_response s)\<lparr>res_root := root\<rparr>) = Some (txt, res)" "res_root res = root" "sent n res"
  shows "piped data n (request_body s) root srv (s_outbox s @ [txt]) (session_notify J h FOR_message_complete s)"
  using assms(1-5) res(2,3) by (simp add: session_complete [where h = h, OF h res(1)] piped_def request_body_def split: option.split)

lemma piped_request:
  assumes s: "piped data n b root srv outs s" and data: "data = pre @ request_text r @ rest"
    and h: "h (if msg_body r = [] then b else msg_body r) root srv = Some (root', srv')"
  shows "piped data n (if msg_body r = [] then b else msg_body r) root' srv' (outs @ [reply_with n (js_write J root')])
    (request_effect session_data (session_notify J h) (\<lambda>s. s) (length pre) r s)"
proof -
  let ?b = "if msg_body r = [] then b else msg_body r" and ?s = "with_body (length pre) r s"
  have s': "s_data s = data" "s_pos s = 0" "\<not> s_fault s" "\<not> s_reading s" "\<not> s_closed s" "s_outbox s = outs"
    "s_server s = srv" "request_body s = b" "res_root (s_response s) = root" "sent n (s_response s)"
    using s by (simp_all add: piped_def)
  have body: "request_body ?s = ?b" using with_body_there [of s pre r rest] s'(1,2,8) data by simp
  obtain res where res: "response_end (js_write J) ((s_response ?s)\<lparr>res_root := root'\<rparr>) = Some (reply_with n (js_write J root'), res)"
    "res_root res = root'" "sent n res"
    using response_end_again [OF s'(10), of "js_write J" root'] by auto
  have "h (request_body ?s) (res_root (s_response ?s)) (s_server ?s) = Some (root', srv')"
    unfolding body using h s'(7,9) by simp
  from piped_answer [where h = h, OF _ _ _ _ _ this res, of data] show ?thesis
    unfolding session_request body using s'(1-6) by simp
qed

lemma piped_requests:
  assumes "piped data n b root srv outs s" "data = pre @ concat (map request_text rs) @ rest"
    "handle_all h (handled b rs) root srv = Some (roots, srv')"
  shows "\<exists>b' root'. piped data n b' root' srv' (outs @ map (\<lambda>root. reply_with n (js_write J root)) roots)
    (requests_effect session_data (session_notify J h) (\<lambda>s. s) (length pre) rs s)"
  using assms
proof (induction rs arbitrary: b root srv outs s pre roots)
  case Nil
  then show ?case by auto
next
  case (Cons r rs)
  let ?b = "if msg_body r = [] then b else msg_body r"
  obtain root1 srv1 roots' where h: "h ?b root srv = Some (root1, srv1)" "roots = root1 # roots'"
    "handle_all h (handled ?b rs) root1 srv1 = Some (roots', srv')"
    using Cons.prems(3) by (auto simp: Let_def split: option.splits)
  have data: "data = pre @ request_text r @ concat (map request_text rs) @ rest"
    "data = (pre @ request_text r) @ concat (map request_text rs) @ rest" using Cons.prems(2) by simp_all
  from Cons.IH [OF piped_request [where h = h, OF Cons.prems(1) data(1) h(1)] data(2) h(3)] h(2) show ?case by (auto simp: add_ac)
qed

lemma first_request:
  assumes s: "s = fill bs (do_read (session_new J data srv))" and bs: "bs = request_text r @ rest"
    and h: "h (msg_body r) (js_null J) srv = Some (root, srv')"
  shows "piped (s_data s) (length (js_write J root)) (msg_body r) root srv' [reply_with (length (js_write J root)) (js_write J root)]
    (request_effect session_data (session_notify J h) (\<lambda>s. s) 0 r s)"
proof -
  have new: "s_data s = bs @ drop (length bs) data" "s_pos s = 0" "\<not> s_fault s" "\<not> s_reading s" "\<not> s_closed s" "s_outbox s = []"
    "s_server s = srv" "s_response s = response_new (js_null J)" "request_body s = []"
    using s by (simp_all add: fill_def do_read_def session_new_def request_body_def request_new_def)
  obtain res where "response_end (js_write J) ((response_new (js_null J))\<lparr>res_root := root\<rparr>) =
      Some (reply_with (length (js_write J root)) (js_write J root), res)"
    "res_root res = root" "sent (length (js_write J root)) res" by (rule response_end_first)
  moreover have "request_body (with_body 0 r s) = msg_body r"
    using with_body_there [of s "[]" r "rest @ drop (length bs) data"] new(1,2,9) bs by simp
  moreover have "res_root (response_new (js_null J)) = js_null J" by (simp add: response_new_def)
  ultimately show ?thesis
    unfolding session_request using piped_answer [of "with_body 0 r s" "s_data s" h root srv' J _ res "length (js_write J root)"] new h
    by simp
qed

section \<open>The answers\<close>

lemma start_pipeline:
  assumes "length data = max_length" and "list_all request_ok rs" and "rs \<noteq> []" and "set blanks \<subseteq> {CR, LF}"
    and "length (concat (map request_text rs) @ blanks) \<le> max_length"
    and "handle_all h (handled [] rs) (js_null J) srv = Some (roots, srv')"
  shows "\<exists>ps' s'. onRead J h (concat (map request_text rs) @ blanks) (session_start this_ptr (ps, session_new J data srv)) = Some (ps', s')
    \<and> s_outbox s' = map (\<lambda>root. reply_with (length (js_write J (hd roots))) (js_write J root)) roots
    \<and> s_server s' = srv' \<and> s_process s' \<and> \<not> s_reading s' \<and> \<not> s_closed s'"
proof -
  let ?ps = "(http_parser_init ps HTTP_REQUEST)\<lparr>p_data := this_ptr\<rparr>" and ?bs = "concat (map request_text rs) @ blanks"
  let ?s = "fill ?bs (do_read (session_new J data srv))"
  have ps: "idle ?ps" "state ?ps = s_start_req" by (simp_all add: idle_def http_parser_init_def)
  have small: "length ?bs < 2 ^ 64" "length blanks \<le> HTTP_MAX_HEADER_SIZE"
    using assms(5) by (simp_all add: max_length_def HTTP_MAX_HEADER_SIZE_def)
  obtain ps' where exec: "http_parser_execute (session_settings J h) ?bs ?ps ?s =
      Some (Returned (length ?bs) ps' (requests_effect session_data (session_notify J h) (\<lambda>s. s) 0 rs ?s))"
    using serving_requests.execute_requests [OF ps assms(2) refl small(1) assms(4) small(2), of J h ?s] by blast
  obtain r rs' where rs: "rs = r # rs'" using assms(3) by (cases rs) auto
  have body: "(if msg_body r = [] then [] else msg_body r) = msg_body r" by simp
  obtain root srv1 roots' where h: "h (msg_body r) (js_null J) srv = Some (root, srv1)" "roots = root # roots'"
    "handle_all h (handled (msg_body r) rs') root srv1 = Some (roots', srv')"
    using assms(6) unfolding rs handled.simps Let_def body by (auto split: option.splits)
  have data: "s_data ?s = request_text r @ concat (map request_text rs') @ blanks @ drop (length ?bs) data"
    by (simp add: rs fill_def do_read_def session_new_def)
  have "?bs = request_text r @ concat (map request_text rs') @ blanks" by (simp add: rs)
  from piped_requests [where h = h and J = J and pre = "request_text r", OF first_request [where h = h, OF refl this h(1)] data h(3)]
  obtain b' root' where "piped (s_data ?s) (length (js_write J root)) b' root' srv'
      (map (\<lambda>r. reply_with (length (js_write J root)) (js_write J r)) roots)
      (requests_effect session_data (session_notify J h) (\<lambda>s. s) 0 rs ?s)"
    by (auto simp: rs h(2))
  then show ?thesis
    unfolding session_start_def onRead_def by (auto simp: exec piped_def h(2) Let_def)
qed

text \<open>
  C12. Several requests in one read, one after another. The message handler is called for each of
  them in order, and each answer is written; but a request without a body gets the body of the
  request before it, every call finds the JSON value that the call before it left, and every
  answer declares the length of the first one's body, whatever its own is.
\<close>

theorem session_answers_pipeline:
  assumes "length data = max_length" and "list_all request_ok rs" and "rs \<noteq> []" and "set blanks \<subseteq> {CR, LF}"
    and "length (concat (map request_text rs) @ blanks) \<le> max_length"
    and "handle_all h (handled [] rs) (js_null J) srv = Some (roots, srv')"
  shows "\<exists>ps' s'. onRead J h (concat (map request_text rs) @ blanks) (session_start this_ptr (ps, session_new J data srv)) = Some (ps', s')
    \<and> s_outbox s' = map (\<lambda>root. reply_with (length (js_write J (hd roots))) (js_write J root)) roots
    \<and> s_server s' = srv' \<and> s_process s' \<and> \<not> s_reading s' \<and> \<not> s_closed s'"
  using assms by (rule start_pipeline)

text \<open>A request with a body, one without and one with a shorter body; the answers are the bodies.\<close>

definition sample_get :: request_message where
  "sample_get = \<lparr>msg_method = HTTP_GET, msg_url = ''/a'', msg_headers = [], msg_body = []\<rparr>"

definition sample_put :: request_message where
  "sample_put = \<lparr>msg_method = HTTP_PUT, msg_url = ''/a'', msg_headers = [(''Content-Length'', ''5'')], msg_body = ''hello''\<rparr>"

lemma sample_pipeline_ok: "list_all request_ok [sample_request, sample_get, sample_put]"
proof -
  have "request_url_ok ''/a''" by (simp add: request_url_ok_def parse_url_char_def byte_simps)
  moreover have "header_ok (''Content-Length'', ''5'')" "header_length cl (''Content-Length'', ''5'') = 5" for cl
    by (simp_all add: header_ok_def header_length_def TOKEN_def tokens_def name_class_def known_names_def plain_value_def
        decimal_def digit_val_def schar_def byte_simps)
  ultimately have "request_ok sample_get" "request_ok sample_put"
    by (simp_all add: sample_get_def sample_put_def request_ok_def request_head_def request_line_def
        header_line_def HTTP_MAX_HEADER_SIZE_def declared_length_def ULLONG_MAX_def Let_def)
  with sample_request_ok show ?thesis by simp
qed

lemma session_answers_pipeline_witness:
  "let J = (json_instance (\<lambda>_. None))\<lparr>js_write := \<lambda>v. case v of JString s \<Rightarrow> s | _ \<Rightarrow> []\<rparr>
   in \<exists>ps' s'. onRead J (\<lambda>body root srv. Some (JString body, srv @ [body]))
        (request_text sample_request @ request_text sample_get @ request_text sample_put)
        (session_start 0 (blank_parser, session_new J (replicate 2048 NUL) [])) = Some (ps', s')
      \<and> s_server s' = [''hello, world'', ''hello, world'', ''hello'']
      \<and> s_outbox s' = [reply_with 12 ''hello, world'', reply_with 12 ''hello, world'', reply_with 12 ''hello'']"
proof -
  define J where "J = (json_instance (\<lambda>_. None))\<lparr>js_write := \<lambda>v. case v of JString s \<Rightarrow> s | _ \<Rightarrow> []\<rparr>"
  let ?rs = "[sample_request, sample_get, sample_put]" and ?h = "\<lambda>body root srv. Some (JString body, srv @ [body])"
  have fits: "length (concat (map request_text ?rs) @ []) \<le> max_length"
    by (simp add: sample_request_def sample_get_def sample_put_def request_text_def request_head_def request_line_def
        header_line_def max_length_def)
  have "handled [] ?rs = [''hello, world'', ''hello, world'', ''hello'']"
    by (simp add: sample_request_def sample_get_def sample_put_def Let_def)
  then have answers: "handle_all ?h (handled [] ?rs) (js_null J) [] =
      Some ([JString ''hello, world'', JString ''hello, world'', JString ''hello''], [''hello, world'', ''hello, world'', ''hello''])"
    by simp
  have "js_write J (JString v) = v" for v by (simp add: J_def)
  with session_answers_pipeline [OF _ sample_pipeline_ok _ _ fits answers, of "replicate 2048 NUL" 0 blank_parser]
  show ?thesis unfolding Let_def J_def [symmetric] by (auto simp: max_length_def eval_nat_numeral)
qed

end
