(* ===== verification/Response_Read.thy ===== *)
theory Response_Read
  imports Parser_Message
begin

text \<open>
  Responses: what \<open>http_parser_execute\<close> makes of the text of a response, and that it reads back what
  \<open>response::end\<close> writes. The header lines and the body are those of \<open>Parser_Message\<close>.
\<close>

section \<open>The status line\<close>

definition ready_res :: "http_parser \<Rightarrow> bool" where
  "ready_res ps \<longleftrightarrow> p_type ps = HTTP_RESPONSE \<and> state ps = s_start_res \<and> http_errno ps = HPE_OK
     \<and> nread ps = 0 \<and> p_method ps \<noteq> HTTP_CONNECT"

lemma init_ready_res: "ready_res (http_parser_init ps HTTP_RESPONSE)"
  by (simp add: ready_res_def http_parser_init_def)

definition status_line :: "nat \<Rightarrow> byte list \<Rightarrow> byte list" where
  "status_line status reason = ''HTTP/1.1 '' @ decimal_string status @ '' '' @ reason @ CRLF"

lemma res_step:
  assumes "drop i d = c # rest" "k < HTTP_MAX_HEADER_SIZE"
    and "(s, c, v, s', v') \<in> {(s_res_H, CHR ''T'', v, s_res_HT, v), (s_res_HT, CHR ''T'', v, s_res_HTT, v),
      (s_res_HTT, CHR ''P'', v, s_res_HTTP, v), (s_res_HTTP, CHR ''/'', v, s_res_first_http_major, v),
      (s_res_first_http_major, CHR ''1'', v, s_res_http_major, (1, snd v)),
      (s_res_http_major, CHR ''.'', v, s_res_first_http_minor, v),
      (s_res_first_http_minor, CHR ''1'', v, s_res_http_minor, (fst v, 1)),
      (s_res_http_minor, CHR '' '', v, s_res_first_status_code, v),
      (s_res_status_code, CHR '' '', v, s_res_status_start, v),
      (s_res_line_almost_done, LF, v, s_header_field_start, v)}"
  shows "go cfg d s i mk (rq ps m v cl up k st h idx) u
    = go cfg d s' (Suc i) mk (rq ps m v' cl up (Suc k) st h idx) u"
proof -
  have "PARSING_HEADER s" using assms(3) by (auto simp: PARSING_HEADER_iff)
  moreover have "exec_switch cfg d c ((here s i mk (rq ps m v cl up (Suc k) st h idx) u)\<lparr>cur := c\<rparr>)
      = Break ((here s' i mk (rq ps m v' cl up (Suc k) st h idx) u)\<lparr>cur := c\<rparr>)"
    using assms(3)
    by (elim insertE emptyE) (simp_all add: step_simps exec_s_res_H_def exec_s_res_HT_def exec_s_res_HTT_def
        exec_s_res_HTTP_def exec_s_res_first_http_major_def exec_s_res_http_major_def exec_s_res_first_http_minor_def
        exec_s_res_http_minor_def exec_s_res_status_code_def exec_s_res_line_almost_done_def first_digit16_def
        schar_def IS_NUM_def digit_val_def)
  ultimately show ?thesis by (rule go_step [OF assms(1,2)])
qed

lemma go_res_version:
  assumes d: "drop i d = ''TTP/1.1 '' @ rest" and k: "k + 8 \<le> HTTP_MAX_HEADER_SIZE"
  shows "go cfg d s_res_H i mk (rq ps m v cl up k st h idx) u
    = go cfg d s_res_first_status_code (i + 8) mk (rq ps m (1, 1) cl up (k + 8) st h idx) u"
proof -
  have d1: "drop i d = CHR ''T'' # ''TP/1.1 '' @ rest" using d by simp
  note d2 = drop_Suc_at [OF d1, simplified] note d3 = drop_Suc_at [OF d2] note d4 = drop_Suc_at [OF d3]
  note d5 = drop_Suc_at [OF d4] note d6 = drop_Suc_at [OF d5] note d7 = drop_Suc_at [OF d6]
  note d8 = drop_Suc_at [OF d7]
  note step = res_step [where mk = mk and u = u and ps = ps and m = m and cl = cl and up = up
      and st = st and h = h and idx = idx]
  show ?thesis
    using step [OF d1, of "k + 0" s_res_H "v" s_res_HT "v" cfg]
      step [OF d2, of "k + 1" s_res_HT "v" s_res_HTT "v" cfg]
      step [OF d3, of "k + 2" s_res_HTT "v" s_res_HTTP "v" cfg]
      step [OF d4, of "k + 3" s_res_HTTP "v" s_res_first_http_major "v" cfg]
      step [OF d5, of "k + 4" s_res_first_http_major "v" s_res_http_major "(1, snd v)" cfg]
      step [OF d6, of "k + 5" s_res_http_major "(1, snd v)" s_res_first_http_minor "(1, snd v)" cfg]
      step [OF d7, of "k + 6" s_res_first_http_minor "(1, snd v)" s_res_http_minor "(1, 1)" cfg]
      step [OF d8, of "k + 7" s_res_http_minor "(1, 1)" s_res_first_status_code "(1, 1)" cfg] k
    by (simp add: eval_nat_numeral)
qed

text \<open>The status code, three digits.\<close>

lemma rq_status [simp]:
  "rq ps m v cl up k st h idx \<lparr>status_code := x\<rparr> = rq (ps\<lparr>status_code := x\<rparr>) m v cl up k st h idx"
  "status_code (rq ps m v cl up k st h idx) = status_code ps"
  by (simp_all add: rqf_def)

lemma go_first_digit:
  assumes "drop i d = digit a # rest" "a < 10" "k < HTTP_MAX_HEADER_SIZE"
  shows "go cfg d s_res_first_status_code i mk (rq ps m v cl up k st h idx) u
    = go cfg d s_res_status_code (Suc i) mk (rq (ps\<lparr>status_code := of_nat a\<rparr>) m v cl up (Suc k) st h idx) u"
  by (rule go_step [OF assms(1,3)])
    (simp_all add: exec_switch_def here_def exec_s_res_first_status_code_def first_digit16_def digit_num [OF assms(2)]
      PARSING_HEADER_iff)

lemma go_next_digit:
  assumes "drop i d = digit a # rest" "a < 10" "k < HTTP_MAX_HEADER_SIZE" "n * 10 + a \<le> 999"
  shows "go cfg d s_res_status_code i mk (rq (ps\<lparr>status_code := of_nat n\<rparr>) m v cl up k st h idx) u
    = go cfg d s_res_status_code (Suc i) mk (rq (ps\<lparr>status_code := of_nat (n * 10 + a)\<rparr>) m v cl up (Suc k) st h idx) u"
proof (rule go_step [OF assms(1,3)])
  have digit: "next_digit16 (of_nat n) (digit a) = of_nat (n * 10 + a)"
    by (simp add: next_digit16_def digit_num [OF assms(2)])
  have "unat (of_nat (n * 10 + a) :: uint16) = n * 10 + a"
    using assms(4) by (intro unat_of_nat_small) simp
  then have "\<not> (999 :: uint16) < of_nat (n * 10 + a)"
    using assms(4) by (simp only: word_less_nat_alt) simp
  then show "exec_switch cfg d (digit a) ((here s_res_status_code i mk
      (rq (ps\<lparr>status_code := of_nat n\<rparr>) m v cl up (Suc k) st h idx) u)\<lparr>cur := digit a\<rparr>) =
    Break ((here s_res_status_code i mk (rq (ps\<lparr>status_code := of_nat (n * 10 + a)\<rparr>) m v cl up (Suc k) st h idx) u)
      \<lparr>cur := digit a\<rparr>)"
    by (simp add: exec_switch_def here_def exec_s_res_status_code_def Let_def digit digit_num [OF assms(2)] del: of_nat_add of_nat_mult)
qed (simp add: PARSING_HEADER_iff)

lemma decimal_string_3:
  assumes "100 \<le> n" "n \<le> 999"
  shows "decimal_string n = [digit (n div 100), digit (n div 10 mod 10), digit (n mod 10)]"
proof -
  have "decimal_string n = decimal_string (n div 10) @ [digit (n mod 10)]"
    "decimal_string (n div 10) = decimal_string (n div 10 div 10) @ [digit (n div 10 mod 10)]"
    "decimal_string (n div 10 div 10) = [digit (n div 10 div 10)]"
    using assms by (subst decimal_string.simps, simp)+
  moreover have "n div 10 div 10 = n div 100" by (simp add: div_mult2_eq [symmetric])
  ultimately show ?thesis by simp
qed

lemma go_status_code:
  assumes d: "drop i d = decimal_string n @ rest" and n: "100 \<le> n" "n \<le> 999" and k: "k + 3 \<le> HTTP_MAX_HEADER_SIZE"
  shows "go cfg d s_res_first_status_code i mk (rq ps m v cl up k st h idx) u
    = go cfg d s_res_status_code (i + 3) mk (rq (ps\<lparr>status_code := of_nat n\<rparr>) m v cl up (k + 3) st h idx) u"
proof -
  let ?a = "n div 100" and ?b = "n div 10 mod 10" and ?c = "n mod 10"
  have d1: "drop i d = digit ?a # [digit ?b, digit ?c] @ rest" using d decimal_string_3 [OF n] by simp
  note d2 = drop_Suc_at [OF d1, simplified] note d3 = drop_Suc_at [OF d2]
  have q: "?a * 10 + ?b = n div 10" using div_mult_mod_eq [of "n div 10" 10] by (simp add: div_mult2_eq [symmetric])
  then have sum: "(?a * 10 + ?b) * 10 + ?c = n" "?a * 10 + ?b \<le> 999" "?b < 10" "?c < 10" and "?a < 10"
    using n div_mult_mod_eq [of n 10] by simp_all
  have len: "k < HTTP_MAX_HEADER_SIZE" "Suc k < HTTP_MAX_HEADER_SIZE" "Suc (Suc k) < HTTP_MAX_HEADER_SIZE"
    "(?a * 10 + ?b) * 10 + ?c \<le> 999" "i + 3 = Suc (Suc (Suc i))" "k + 3 = Suc (Suc (Suc k))"
    using k n sum(1) by simp_all
  show ?thesis
    unfolding len(5,6) go_first_digit [OF d1 \<open>?a < 10\<close> len(1)] go_next_digit [OF d2 sum(3) len(2) sum(2)]
      go_next_digit [OF d3 sum(4) len(3,4)]
    by (simp only: sum(1))
qed

text \<open>The reason, and the whole line.\<close>

definition reason_ok :: "byte list \<Rightarrow> bool" where
  "reason_ok reason \<longleftrightarrow> reason \<noteq> [] \<and> CR \<notin> set reason \<and> LF \<notin> set reason"

lemma go_reason_first:
  assumes "drop i d = c # rest" "k < HTTP_MAX_HEADER_SIZE" "c \<noteq> CR" "c \<noteq> LF"
  shows "go cfg d s_res_status_start i (\<lambda>_. None) (rq ps m v cl up k st h idx) u
    = go cfg d s_res_status (Suc i) ((\<lambda>_. None)(FOR_status := Some i)) (rq ps m v cl up (Suc k) st h 0) u"
  by (rule go_step [OF assms(1,2)])
    (use assms(3,4) in \<open>simp_all add: exec_switch_def here_def exec_s_res_status_start_def MARK_def PARSING_HEADER_iff\<close>)

lemma go_reason_rest:
  assumes "drop i d = cs @ rest" "CR \<notin> set cs" "LF \<notin> set cs" "k + length cs \<le> HTTP_MAX_HEADER_SIZE"
  shows "go cfg d s_res_status i mk (rq ps m v cl up k st h idx) u
    = go cfg d s_res_status (i + length cs) mk (rq ps m v cl up (k + length cs) st h idx) u"
  using assms
proof (induction cs arbitrary: i k)
  case Nil
  then show ?case by simp
next
  case (Cons c cs)
  have d: "drop i d = c # cs @ rest" using Cons.prems(1) by simp
  have "exec_switch cfg d c ((here s_res_status i mk (rq ps m v cl up (Suc k) st h idx) u)\<lparr>cur := c\<rparr>)
      = Break ((here s_res_status i mk (rq ps m v cl up (Suc k) st h idx) u)\<lparr>cur := c\<rparr>)"
    using Cons.prems(2,3) by (auto simp: exec_switch_def here_def exec_s_res_status_def)
  from go_step [OF d _ _ this] Cons.IH [OF drop_Suc_at [OF d], of "Suc k"] Cons.prems(2-4)
  show ?case by (simp add: PARSING_HEADER_iff)
qed

context passive_client
begin

lemma go_reason_end:
  assumes d: "drop i d = CR # rest" and k: "k < HTTP_MAX_HEADER_SIZE"
  shows "\<exists>st'. go cfg d s_res_status i ((\<lambda>_. None)(FOR_status := Some j)) (rq ps m v cl up k st h idx) u
    = go cfg d s_res_line_almost_done (Suc i) (\<lambda>_. None) (rq ps m v cl up (Suc k) st' h idx)
        (eff_data FOR_status j (byte_range d j (i - j)) u)"
proof -
  let ?l = "(here s_res_status i ((\<lambda>_. None)(FOR_status := Some j)) (rq ps m v cl up (Suc k) st h idx) u)\<lparr>cur := CR\<rparr>"
  have "exec_switch cfg d CR ?l =
      CALLBACK_DATA_at cfg d FOR_status (\<lambda>m. i - m) (Suc i) Break (?l\<lparr>p_state := s_res_line_almost_done\<rparr>)"
    by (simp add: exec_switch_def exec_s_res_status_def here_def CALLBACK_DATA_def)
  with CALLBACK_DATA_at_passive [of "?l\<lparr>p_state := s_res_line_almost_done\<rparr>" FOR_status j d "\<lambda>m. i - m" "Suc i" Break]
  obtain st' where "exec_switch cfg d CR ?l = Break ((here s_res_line_almost_done i (\<lambda>_. None)
      (rq ps m v cl up (Suc k) st' h idx) (eff_data FOR_status j (byte_range d j (i - j)) u))\<lparr>cur := CR\<rparr>)"
    by (auto simp: here_def)
  then show ?thesis
    by (intro exI [of _ st'] go_step [OF d k]) (auto simp: PARSING_HEADER_iff)
qed

lemma go_reason:
  assumes d: "drop i d = reason @ CR # LF # rest" and ok: "reason_ok reason"
    and k: "k + length reason + 2 \<le> HTTP_MAX_HEADER_SIZE"
  shows "\<exists>st'. go cfg d s_res_status_start i (\<lambda>_. None) (rq ps m v cl up k st h idx) u
    = go cfg d s_header_field_start (i + length reason + 2) (\<lambda>_. None)
        (rq ps m v cl up (k + length reason + 2) st' h 0) (eff_data FOR_status i reason u)"
proof -
  obtain c cs where r: "reason = c # cs" "c \<noteq> CR" "c \<noteq> LF" "CR \<notin> set cs" "LF \<notin> set cs"
    using ok by (cases reason) (auto simp: reason_ok_def)
  have d1: "drop i d = c # cs @ CR # LF # rest" using d r(1) by simp
  note d2 = drop_append_at [OF d] note d3 = drop_Suc_at [OF d2]
  have 1: "go cfg d s_res_status_start i (\<lambda>_. None) (rq ps m v cl up k st h idx) u
      = go cfg d s_res_status (i + length reason) ((\<lambda>_. None)(FOR_status := Some i)) (rq ps m v cl up (k + length reason) st h 0) u"
    using go_reason_first [OF d1 _ r(2,3), of k cfg] go_reason_rest [OF drop_Suc_at [OF d1] r(4,5), of "Suc k" cfg] k r(1)
    by simp
  obtain st' where 2: "go cfg d s_res_status (i + length reason) ((\<lambda>_. None)(FOR_status := Some i))
        (rq ps m v cl up (k + length reason) st h 0) u
      = go cfg d s_res_line_almost_done (Suc (i + length reason)) (\<lambda>_. None)
        (rq ps m v cl up (Suc (k + length reason)) st' h 0) (eff_data FOR_status i reason u)"
    using go_reason_end [OF d2, of "k + length reason" i ps m v cl up st h 0 u] k byte_range_drop [OF d] by auto
  show ?thesis
    unfolding 1 2 using res_step [OF d3, of "Suc (k + length reason)" s_res_line_almost_done v s_header_field_start v cfg] k
    by (intro exI [of _ st']) simp
qed

lemma go_res_begin:
  assumes d: "drop i d = CHR ''H'' # rest" and ps: "ready_res ps"
  shows "\<exists>st. go cfg d s_start_res i (\<lambda>_. None) ps u = go cfg d s_res_H (Suc i) (\<lambda>_. None)
    (rq ps (p_method ps) (http_major ps, http_minor ps) ULLONG_MAX (upgrade ps) 1 st (header_state ps) (index ps))
    (eff_notify FOR_message_begin u)"
proof -
  let ?l = "(here s_start_res i (\<lambda>_. None) (ps\<lparr>nread := nread ps + 1\<rparr>) u)\<lparr>cur := CHR ''H''\<rparr>"
  let ?ps = "(parser ?l)\<lparr>flags := 0, content_length := ULLONG_MAX\<rparr>"
  have "exec_switch cfg d (CHR ''H'') ?l =
      CALLBACK_NOTIFY_at cfg FOR_message_begin (Suc i) Break (?l\<lparr>parser := ?ps, p_state := s_res_H\<rparr>)"
    by (simp add: exec_switch_def exec_s_start_res_def here_def CALLBACK_NOTIFY_def Let_def)
  with CALLBACK_NOTIFY_at_passive [of "?l\<lparr>parser := ?ps, p_state := s_res_H\<rparr>" FOR_message_begin "Suc i" Break]
  obtain st where "exec_switch cfg d (CHR ''H'') ?l = Break (?l\<lparr>parser := ?ps\<lparr>state := st\<rparr>,
      p_state := s_res_H, user := eff_notify FOR_message_begin u\<rparr>)"
    using ps by (auto simp: here_def ready_res_def)
  moreover have "go cfg d s_start_res i (\<lambda>_. None) ps u = exec_loop cfg d True ?l"
    using ps by (intro go_header [OF d]) (simp_all add: ready_res_def HTTP_MAX_HEADER_SIZE_def PARSING_HEADER_iff)
  moreover have "?ps\<lparr>state := st\<rparr> =
      rq ps (p_method ps) (http_major ps, http_minor ps) ULLONG_MAX (upgrade ps) 1 st (header_state ps) (index ps)"
    using ps by (cases ps) (simp add: rqf_def here_def ready_res_def)
  ultimately show ?thesis
    by (intro exI [of _ st]) (simp add: go_Break here_def)
qed

lemma go_status_line:
  assumes d: "drop i d = status_line n reason @ rest" and ps: "ready_res ps" and n: "100 \<le> n" "n \<le> 999"
    and r: "reason_ok reason" and k: "length (status_line n reason) \<le> HTTP_MAX_HEADER_SIZE"
  shows "\<exists>st. go cfg d s_start_res i (\<lambda>_. None) ps u = go cfg d s_header_field_start (i + length (status_line n reason)) (\<lambda>_. None)
    (rq (ps\<lparr>status_code := of_nat n\<rparr>) (p_method ps) (1, 1) ULLONG_MAX (upgrade ps) (length (status_line n reason)) st (header_state ps) 0)
    (eff_data FOR_status (i + 13) reason (eff_notify FOR_message_begin u))"
proof -
  have d1: "drop i d = CHR ''H'' # ''TTP/1.1 '' @ decimal_string n @ CHR '' '' # reason @ CR # LF # rest"
    using d by (simp add: status_line_def)
  note d2 = drop_Suc_at [OF d1]
  have d3: "drop (i + 9) d = decimal_string n @ CHR '' '' # reason @ CR # LF # rest"
    using drop_append_at [OF d2] by (simp add: eval_nat_numeral)
  have three: "length (decimal_string n) = 3" using decimal_string_3 [OF n] by simp
  have d4: "drop (i + 12) d = CHR '' '' # reason @ CR # LF # rest"
    using drop_append_at [OF d3] three by (simp add: add.assoc)
  have d5: "drop (i + 13) d = reason @ CR # LF # rest" using drop_Suc_at [OF d4] by (simp add: add.commute)
  have len: "length (status_line n reason) = 13 + length reason + 2" by (simp add: status_line_def three)
  let ?ps = "ps\<lparr>status_code := of_nat n\<rparr>"
  obtain st where 1: "go cfg d s_start_res i (\<lambda>_. None) ps u = go cfg d s_res_H (Suc i) (\<lambda>_. None)
      (rq ps (p_method ps) (http_major ps, http_minor ps) ULLONG_MAX (upgrade ps) 1 st (header_state ps) (index ps))
      (eff_notify FOR_message_begin u)"
    using go_res_begin [OF d1 ps, of u] by blast
  note 2 = go_res_version [OF d2, of 1 cfg "\<lambda>_. None" ps "p_method ps" "(http_major ps, http_minor ps)" ULLONG_MAX
      "upgrade ps" st "header_state ps" "index ps" "eff_notify FOR_message_begin u"]
  note 3 = go_status_code [OF d3 n, of 9 cfg "\<lambda>_. None" ps "p_method ps" "(1, 1)" ULLONG_MAX "upgrade ps" st
      "header_state ps" "index ps" "eff_notify FOR_message_begin u"]
  note 4 = res_step [OF d4, of 12 s_res_status_code "(1, 1)" s_res_status_start "(1, 1)" cfg "\<lambda>_. None" ?ps "p_method ps"
      ULLONG_MAX "upgrade ps" st "header_state ps" "index ps" "eff_notify FOR_message_begin u"]
  have big: "12 < HTTP_MAX_HEADER_SIZE" by (simp add: HTTP_MAX_HEADER_SIZE_def)
  have "go cfg d s_start_res i (\<lambda>_. None) ps u = go cfg d s_res_status_start (i + 13) (\<lambda>_. None)
      (rq ?ps (p_method ps) (1, 1) ULLONG_MAX (upgrade ps) 13 st (header_state ps) (index ps)) (eff_notify FOR_message_begin u)"
    using 1 2 3 4 big by (simp add: HTTP_MAX_HEADER_SIZE_def add.commute [of i])
  moreover obtain st' where "go cfg d s_res_status_start (i + 13) (\<lambda>_. None)
      (rq ?ps (p_method ps) (1, 1) ULLONG_MAX (upgrade ps) 13 st (header_state ps) (index ps)) (eff_notify FOR_message_begin u)
    = go cfg d s_header_field_start (i + 13 + length reason + 2) (\<lambda>_. None)
      (rq ?ps (p_method ps) (1, 1) ULLONG_MAX (upgrade ps) (13 + length reason + 2) st' (header_state ps) 0)
      (eff_data FOR_status (i + 13) reason (eff_notify FOR_message_begin u))"
    using go_reason [OF d5 r, of 13 ?ps] k len by fastforce
  moreover have "i + 13 + length reason + 2 = i + length (status_line n reason)" "13 + length reason + 2 = length (status_line n reason)"
    using len by simp_all
  ultimately show ?thesis by (intro exI [of _ st']) (simp only:)
qed

text \<open>The whole response, whose length is declared.\<close>

lemma execute_response:
  assumes ps: "ready_res ps" and n: "100 \<le> n" "n \<le> 999" and r: "reason_ok reason" and hs: "list_all header_ok hs"
    and cl: "foldl header_length ULLONG_MAX hs = of_nat (length body)" and body: "length body < 2 ^ 60"
    and k: "length (status_line n reason @ concat (map header_line hs) @ CRLF) \<le> HTTP_MAX_HEADER_SIZE"
    and d: "d = status_line n reason @ concat (map header_line hs) @ CRLF @ body"
  shows "\<exists>ps'. http_parser_execute cfg d ps u = Some (Returned (length d) ps'
      (eff_notify FOR_message_complete
        ((if body = [] then (\<lambda>u. u) else eff_data FOR_body (length d - length body) body)
          (eff_headers (lines_effect eff_data (length (status_line n reason)) hs
            (eff_data FOR_status 13 reason (eff_notify FOR_message_begin u)))))))
    \<and> http_errno ps' = HPE_OK \<and> state ps' = s_start_res \<and> unat (status_code ps') = n"
proof -
  let ?ps = "ps\<lparr>status_code := of_nat n\<rparr>" and ?m = "p_method ps" and ?up = "upgrade ps"
  let ?i = "length (status_line n reason)" and ?j = "length (concat (map header_line hs))"
  let ?u1 = "eff_data FOR_status 13 reason (eff_notify FOR_message_begin u)"
  let ?u2 = "eff_headers (lines_effect eff_data ?i hs ?u1)"
  have d1: "drop 0 d = status_line n reason @ concat (map header_line hs) @ CR # LF # body" using d by simp
  note d2 = drop_append_at [OF d1] note d3 = drop_append_at [OF d2] note d4 = drop_Suc_at [OF d3] note d5 = drop_Suc_at [OF d4]
  have len: "?i \<le> HTTP_MAX_HEADER_SIZE" "?i + ?j < HTTP_MAX_HEADER_SIZE" "Suc (?i + ?j) < HTTP_MAX_HEADER_SIZE"
    "length d = Suc (Suc (?i + ?j)) + length body" "d \<noteq> []"
    using k d by auto
  have type: "start_state ?ps = s_start_res" "?m \<noteq> HTTP_CONNECT" using ps by (simp_all add: ready_res_def start_state_def)
  have "initial_locals ps u = here s_start_res 0 (\<lambda>_. None) ps u"
    using ps by (simp add: initial_locals_def here_def initial_marks_def ready_res_def)
  then have 0: "http_parser_execute cfg d ps u = go cfg d s_start_res 0 (\<lambda>_. None) ps u"
    using len(5) ps by (simp add: http_parser_execute_def go_def ready_res_def)
  obtain st1 where 1: "go cfg d s_start_res 0 (\<lambda>_. None) ps u = go cfg d s_header_field_start ?i (\<lambda>_. None)
      (rq ?ps ?m (1, 1) ULLONG_MAX ?up ?i st1 (header_state ps) 0) ?u1"
    using go_status_line [OF d1 ps n r len(1), of u] by auto
  obtain st2 h2 idx2 where 2: "go cfg d s_header_field_start ?i (\<lambda>_. None) (rq ?ps ?m (1, 1) ULLONG_MAX ?up ?i st1 (header_state ps) 0) ?u1
      = go cfg d s_header_field_start (?i + ?j) (\<lambda>_. None)
        (rq ?ps ?m (1, 1) (of_nat (length body)) ?up (?i + ?j) st2 h2 idx2) (lines_effect eff_data ?i hs ?u1)"
    using go_header_lines [OF d2 hs, of ?i "?ps\<lparr>flags := 0\<rparr>" ?m "(1, 1)" ULLONG_MAX ?up st1 "header_state ps" 0 ?u1] len(2) cl by auto
  have 3: "go cfg d s_start_res 0 (\<lambda>_. None) ps u = exec_loop cfg d True ((here s_headers_done (Suc (?i + ?j)) (\<lambda>_. None)
      (rq ?ps ?m (1, 1) (of_nat (length body)) False (Suc (Suc (?i + ?j))) st2 h2 idx2) ?u2)\<lparr>cur := LF\<rparr>)"
    using 1 2 go_headers_CR [of "?i + ?j" d _ "?i + ?j" cfg] d3 d4 go_headers_done [of "Suc (?i + ?j)" d body "Suc (?i + ?j)" ?m]
      len type(2) by simp
  show ?thesis
  proof (cases "body = []")
    case True
    obtain st' where "exec_loop cfg d True ((here s_headers_done (Suc (?i + ?j)) (\<lambda>_. None)
        (rq ?ps ?m (1, 1) (of_nat (length body)) False (Suc (Suc (?i + ?j))) st2 h2 idx2) ?u2)\<lparr>cur := LF\<rparr>)
      = go cfg d s_start_res (length d) (\<lambda>_. None) (rq ?ps ?m (1, 1) 0 False 0 st' h2 idx2) (eff_notify FOR_message_complete ?u2)"
      using go_no_body [of 0 ?ps d "Suc (?i + ?j)"] True len(4) type(1) by fastforce
    with True n show ?thesis
      unfolding 0 3 by (simp add: go_end, simp add: rqf_def unat_of_nat_small)
  next
    case False
    have small: "length d < 2 ^ 64" using len(4) body k by (simp add: HTTP_MAX_HEADER_SIZE_def)
    have "unat (of_nat (length body) :: uint64) = length body" using body by (simp add: unat_of_nat_small)
    then have "(of_nat (length body) :: uint64) \<noteq> 0" "(of_nat (length body) :: uint64) \<noteq> ULLONG_MAX"
      using False body by (auto simp: ULLONG_MAX_def)
    then have 4: "exec_loop cfg d True ((here s_headers_done (Suc (?i + ?j)) (\<lambda>_. None)
        (rq ?ps ?m (1, 1) (of_nat (length body)) False (Suc (Suc (?i + ?j))) st2 h2 idx2) ?u2)\<lparr>cur := LF\<rparr>)
      = go cfg d s_body_identity (Suc (Suc (?i + ?j))) (\<lambda>_. None) (rq ?ps ?m (1, 1) (of_nat (length body)) False 0 st2 h2 idx2) ?u2"
      by (rule go_has_body)
    have d6: "drop (Suc (Suc (?i + ?j))) d = body @ []" using d5 by simp
    obtain st' where 5: "go cfg d s_body_identity (Suc (Suc (?i + ?j))) (\<lambda>_. None)
        (rq ?ps ?m (1, 1) (of_nat (length body)) False 0 st2 h2 idx2) ?u2
      = go cfg d s_start_res (length d) (\<lambda>_. None) (rq ?ps ?m (1, 1) 0 False 0 st' h2 idx2)
        (eff_notify FOR_message_complete (eff_data FOR_body (length d - length body) body ?u2))"
      using go_body_identity [OF d6 False small body, of ?ps ?m st2 h2 idx2 ?u2] len(4) type(1) by auto
    show ?thesis
      unfolding 0 3 4 5 using False n by (simp add: go_end, simp add: rqf_def unat_of_nat_small)
  qed
qed

end

section \<open>What end writes is read back\<close>

text \<open>Header names are compared as \<open>tolower\<close> and as \<open>TOKEN\<close> make them.\<close>

lemma LOWER_tolower [rule_format]: "\<forall>c. IS_ALPHA c \<longrightarrow> LOWER c = tolower c"
  by (rule all_bytes) (simp add: by_bytes tolower_def)

lemma token_tolower: "TOKEN c \<noteq> NUL \<Longrightarrow> TOKEN c = tolower c"
  using TOKEN_lower [of c] LOWER_tolower [of c] by (auto simp: tolower_def IS_ALPHA_iff split: if_splits)

lemma token_name: "list_all (\<lambda>b. TOKEN b \<noteq> NUL) n \<Longrightarrow> map TOKEN n = map tolower n"
  by (auto simp: list_all_iff intro: token_tolower)

lemma name_class_length: "name_class w = h_content_length \<longleftrightarrow> w = ''content-length''"
  by (auto simp: name_class_def known_names_def split: option.splits if_splits)

lemma lower_content_length: "map tolower ''Content-Length'' = ''content-length''"
  by (simp add: tolower_def)

text \<open>Where a new entry goes.\<close>

lemma map_assign_new:
  "map_find hs k = None \<Longrightarrow> \<exists>xs ys. hs = xs @ ys \<and> map_assign hs k v = xs @ (k, v) # ys"
proof (induction hs k v rule: map_assign.induct)
  case (2 k' v' m k v)
  show ?case
  proof (cases "ci_less k' k")
    case True
    with 2 obtain xs ys where "m = xs @ ys" "map_assign m k v = xs @ (k, v) # ys" by (auto split: if_splits)
    with True show ?thesis by (intro exI [of _ "(k', v') # xs"] exI [of _ ys]) simp
  next
    case False
    with 2 have "ci_less k k'" by (auto simp: ci_equal_def split: if_splits)
    with False show ?thesis by (intro exI [of _ "[]"] exI [of _ "(k', v') # m"]) simp
  qed
qed simp

lemma not_found: "map_find hs k = None \<Longrightarrow> (n, v) \<in> set hs \<Longrightarrow> map tolower n \<noteq> map tolower k"
  by (induction hs k rule: map_find.induct) (auto simp: ci_equal_lower split: if_splits)

text \<open>The headers that \<open>end\<close> writes declare the length of the body.\<close>

lemma other_lengths:
  assumes "\<forall>nv \<in> set hs. name_class (map TOKEN (fst nv)) \<noteq> h_content_length"
  shows "foldl header_length cl hs = cl"
  using assms by (induction hs arbitrary: cl) (auto simp: header_length_def)

lemma other_names:
  assumes "map_find hs ''Content-Length'' = None" "list_all header_ok hs" "nv \<in> set hs"
  shows "name_class (map TOKEN (fst nv)) \<noteq> h_content_length"
proof -
  obtain n v where nv: "nv = (n, v)" by (cases nv)
  with assms(2,3) have "header_ok (n, v)" by (auto simp: list_all_iff)
  then have "map TOKEN n = map tolower n" by (intro token_name) (simp add: header_ok_def)
  moreover have "map tolower n \<noteq> ''content-length''"
    using not_found [OF assms(1), of n v] assms(3) nv lower_content_length by metis
  ultimately show ?thesis by (simp only: nv fst_conv name_class_length not_False_eq_True)
qed

lemma content_length_name:
  "list_all (\<lambda>b. TOKEN b \<noteq> NUL) ''Content-Length''" "name_class (map TOKEN ''Content-Length'') = h_content_length"
  by (simp_all add: TOKEN_def tokens_def name_class_def known_names_def)

lemma content_length_ok:
  assumes "n < 2 ^ 60"
  shows "header_ok (''Content-Length'', decimal_string n)"
    "header_length cl (''Content-Length'', decimal_string n) = of_nat n"
proof -
  obtain c cs where d: "decimal_string n = c # cs" "list_all IS_NUM (c # cs)"
    using decimal_string_num [of n] by (cases "decimal_string n") auto
  then have "hd (decimal_string n) \<noteq> CHR '' ''" "hd (decimal_string n) \<noteq> TAB" "decimal_string n \<noteq> []"
    using IS_NUM_plain [of c] by simp_all
  moreover have "plain_value h_content_length (decimal_string n)"
    using assms decimal_string_num [of n] by (simp add: plain_value_def decimal_decimal_string)
  ultimately show "header_ok (''Content-Length'', decimal_string n)"
    unfolding header_ok_def case_prod_conv content_length_name(2) using content_length_name(1) by blast
  show "header_length cl (''Content-Length'', decimal_string n) = of_nat n"
    unfolding header_length_def case_prod_conv content_length_name(2) by (simp add: decimal_decimal_string)
qed

lemma end_headers:
  assumes "map_find hs ''Content-Length'' = None" "list_all header_ok hs" "n < 2 ^ 60"
    and "hs' = map_assign hs ''Content-Length'' (decimal_string n)"
  shows "list_all header_ok hs' \<and> foldl header_length ULLONG_MAX hs' = of_nat n"
proof -
  obtain xs ys where split: "hs = xs @ ys" "hs' = xs @ (''Content-Length'', decimal_string n) # ys"
    using map_assign_new [OF assms(1)] assms(4) by blast
  have "foldl header_length cl ys = cl" "foldl header_length cl xs = cl" for cl
    using other_names [OF assms(1,2)] split(1) by (auto intro!: other_lengths)
  then show ?thesis using content_length_ok [OF assms(3)] assms(2) split by simp
qed

lemma status_text_range: "get_status_text status = Some reason \<Longrightarrow> 100 \<le> status \<and> status \<le> 999 \<and> reason_ok reason"
  unfolding get_status_text_def by (auto simp: reason_ok_def split: if_splits)

lemma response_text_line:
  "0 \<le> status \<Longrightarrow> response_text status reason hs body =
     status_line (nat status) reason @ concat (map header_line hs) @ CRLF @ body"
  by (simp add: response_text_def status_line_def int_string_def)

definition response_events :: "byte list \<Rightarrow> headers \<Rightarrow> byte list \<Rightarrow> event list" where
  "response_events reason hs body =
     [Notify FOR_message_begin, Data FOR_status reason] @ concat (map header_events hs)
     @ [Headers_complete] @ (if body = [] then [] else [Data FOR_body body]) @ [Notify FOR_message_complete]"

text \<open>
  C16. What the server writes, the parser reads back. For a response with any status that has a
  text, headers that a parser takes (no Connection, Transfer-Encoding or Upgrade among them) and
  no \<open>Content-Length\<close> yet, a parser for responses that is given the text which \<open>end\<close> makes of it
  reads all of it without an error and shows exactly the status text, the headers of the map in
  their order, with the new \<open>Content-Length\<close>, and the body; it ends with the response's status
  code, ready for the next response.
\<close>

theorem response_read_back:
  assumes "ready_res ps" and "response_end writer r = Some (txt, r')"
    and "map_find (res_headers r) ''Content-Length'' = None" and "list_all header_ok (res_headers r)"
    and "length (res_body r') < 2 ^ 60" and "length txt \<le> HTTP_MAX_HEADER_SIZE + length (res_body r')"
  shows "\<exists>ps' reason. get_status_text (res_status r) = Some reason
    \<and> http_parser_execute observer txt ps es =
        Some (Returned (length txt) ps' (es @ response_events reason (res_headers r') (res_body r')))
    \<and> http_errno ps' = HPE_OK \<and> state ps' = s_start_res \<and> uint (status_code ps') = res_status r
    \<and> map_find (res_headers r') ''Content-Length'' = Some (decimal_string (length (res_body r')))"
proof -
  let ?body = "writer (res_root r)" and ?hs = "res_headers r'"
  obtain reason where reason: "get_status_text (res_status r) = Some reason"
    and made: "?hs = map_assign (res_headers r) ''Content-Length'' (decimal_string (length ?body))"
      "res_body r' = ?body" "txt = response_text (res_status r) reason ?hs ?body"
    using assms(2,3) by (auto simp: response_end_def Let_def split: option.splits)
  have status: "100 \<le> nat (res_status r)" "nat (res_status r) \<le> 999" "0 \<le> res_status r" "reason_ok reason"
    using status_text_range [OF reason] by auto
  have parts: "txt = status_line (nat (res_status r)) reason @ concat (map header_line ?hs) @ CRLF @ ?body"
    using made(3) response_text_line [OF status(3)] by simp
  have "length (status_line (nat (res_status r)) reason @ concat (map header_line ?hs) @ CRLF) \<le> HTTP_MAX_HEADER_SIZE"
    using assms(6) parts made(2) by simp
  with end_headers [OF assms(3,4) _ made(1)] assms(5) made(2)
  obtain ps' where "http_parser_execute observer txt ps es = Some (Returned (length txt) ps'
      (es @ response_events reason ?hs ?body))"
    "http_errno ps' = HPE_OK" "state ps' = s_start_res" "unat (status_code ps') = nat (res_status r)"
    using observing.execute_response [OF assms(1) status(1,2,4) _ _ _ _ parts, of es]
    by (auto simp: observed_lines response_events_def split: if_splits)
  moreover from this(4) have "uint (status_code ps') = res_status r"
    using status(3) by (metis int_nat_eq uint_nat)
  ultimately show ?thesis
    using reason made(2) response_end_header [OF assms(2,3)] by auto
qed

text \<open>The response that the server starts with, and the body \<open>{}\<close>.\<close>

lemma response_read_back_witness:
  "\<exists>txt r' ps'. response_end (\<lambda>_. ''{}'') (response_new ()) = Some (txt, r')
    \<and> http_parser_execute observer txt (http_parser_init blank_parser HTTP_RESPONSE) [] =
        Some (Returned (length txt) ps'
          [Notify FOR_message_begin, Data FOR_status ''OK'', Data FOR_header_field ''Content-Length'',
           Data FOR_header_value ''2'', Data FOR_header_field ''Content-Type'', Data FOR_header_value ''text/json'',
           Headers_complete, Data FOR_body ''{}'', Notify FOR_message_complete])
    \<and> uint (status_code ps') = 200"
proof -
  have two: "decimal_string 2 = ''2''" by (simp add: decimal_string.simps digit_def)
  have none: "map_find (res_headers (response_new ())) ''Content-Length'' = None"
    by (simp add: response_new_def ci_equal_lower tolower_def)
  have type: "header_ok (''Content-Type'', ''text/json'')"
    by (simp add: header_ok_def TOKEN_def tokens_def name_class_def known_names_def plain_value_def)
  let ?hs = "[(''Content-Length'', ''2''), (''Content-Type'', ''text/json'')]"
  have "map_assign (res_headers (response_new ())) ''Content-Length'' ''2'' = ?hs"
    by (simp add: response_new_def ci_less_lower tolower_def)
  note assign = this
  have ok: "get_status_text 200 = Some ''OK''" by (simp add: get_status_text_def)
  have new: "res_status (response_new ()) = 200" "length ''{}'' = 2" by (simp_all add: response_new_def)
  have made: "response_end (\<lambda>_. ''{}'') (response_new ()) =
      Some (response_text 200 ''OK'' ?hs ''{}'', (response_new ())\<lparr>res_headers := ?hs, res_body := ''{}''\<rparr>)"
    by (simp only: response_end_def Let_def none two new ok assign option.case if_True simp_thms)
  have "length (response_text 200 ''OK'' ?hs ''{}'') \<le> 100"
    by (simp add: response_text_line status_line_def header_line_def decimal_string_3)
  then show ?thesis
    using response_read_back [OF init_ready_res made none, of blank_parser "[]"] type made ok
    by (auto simp: response_new_def HTTP_MAX_HEADER_SIZE_def response_events_def header_events_def)
qed

end
