(* ===== verification/Parser_Struct.thy ===== *)
theory Parser_Struct
  imports Parser_Types
begin

text \<open>
  How \<open>struct http_parser\<close> stores a parser. The other theories work on the record
  \<open>http_parser\<close>, in which a field that holds an enumerator has the type of the enumeration; the
  struct stores the enumerator's number in a bit field of a fixed width. Here the numbers are
  those that C gives the enumerators, the words are as wide as the bit fields, and storing and
  reading back is shown to lose nothing.
\<close>

section \<open>Numbers of enumerators\<close>

text \<open>The number of an enumerator is its place in the declaration.\<close>

definition enumerator :: "'a list \<Rightarrow> 'a \<Rightarrow> nat" where
  "enumerator xs x = length (takeWhile ((\<noteq>) x) xs)"

lemma enumerator_less: "x \<in> set xs \<Longrightarrow> enumerator xs x < length xs"
  unfolding enumerator_def by (induction xs) auto

lemma enumerator_nth: "x \<in> set xs \<Longrightarrow> xs ! enumerator xs x = x"
  unfolding enumerator_def by (induction xs) auto

definition parser_types :: "http_parser_type list" where
  "parser_types = [HTTP_REQUEST, HTTP_RESPONSE, HTTP_BOTH]"

definition header_state_enum :: "header_states list" where
  "header_state_enum =
     [h_general, h_C, h_CO, h_CON,
      h_matching_connection, h_matching_proxy_connection, h_matching_content_length,
      h_matching_transfer_encoding, h_matching_upgrade,
      h_connection, h_content_length, h_transfer_encoding, h_upgrade,
      h_matching_transfer_encoding_chunked, h_matching_connection_token_start,
      h_matching_connection_keep_alive, h_matching_connection_close,
      h_matching_connection_upgrade, h_matching_connection_token,
      h_transfer_encoding_chunked, h_connection_keep_alive, h_connection_close,
      h_connection_upgrade]"

definition http_errno_map :: "http_errno list" where
  "http_errno_map =
     [HPE_OK, HPE_CB_message_begin, HPE_CB_url, HPE_CB_header_field, HPE_CB_header_value,
      HPE_CB_headers_complete, HPE_CB_body, HPE_CB_message_complete, HPE_CB_status,
      HPE_CB_chunk_header, HPE_CB_chunk_complete,
      HPE_INVALID_EOF_STATE, HPE_HEADER_OVERFLOW, HPE_CLOSED_CONNECTION,
      HPE_INVALID_VERSION, HPE_INVALID_STATUS, HPE_INVALID_METHOD, HPE_INVALID_URL,
      HPE_INVALID_HOST, HPE_INVALID_PORT, HPE_INVALID_PATH, HPE_INVALID_QUERY_STRING,
      HPE_INVALID_FRAGMENT, HPE_LF_EXPECTED, HPE_INVALID_HEADER_TOKEN,
      HPE_INVALID_CONTENT_LENGTH, HPE_INVALID_CHUNK_SIZE, HPE_INVALID_CONSTANT,
      HPE_INVALID_INTERNAL_STATE, HPE_STRICT, HPE_PAUSED, HPE_UNKNOWN]"

lemma all_enumerators:
  "t \<in> set parser_types" "h \<in> set header_state_enum" "e \<in> set http_errno_map" "m \<in> set http_method_map"
proof -
  show "t \<in> set parser_types" by (cases t) (simp_all add: parser_types_def)
  show "h \<in> set header_state_enum" by (cases h) (simp_all add: header_state_enum_def)
  show "e \<in> set http_errno_map" by (cases e) (simp_all add: http_errno_map_def)
  show "m \<in> set http_method_map" by (cases m) (simp_all add: http_method_map_def)
qed

lemma enumerators_small:
  "enumerator parser_types t < 2 ^ 2" "enumerator header_state_enum h < 2 ^ 8"
  "enumerator http_errno_map e < 2 ^ 7" "enumerator http_method_map m < 2 ^ 8" "state_num s < 2 ^ 7"
  using enumerator_less [OF all_enumerators(1), of t] enumerator_less [OF all_enumerators(2), of h]
    enumerator_less [OF all_enumerators(3), of e] enumerator_less [OF all_enumerators(4), of m]
  by (simp_all add: parser_types_def header_state_enum_def http_errno_map_def http_method_map_def)
    (cases s; simp)

section \<open>The struct\<close>

record http_parser_struct =
  f_type :: "2 word"
  f_flags :: "7 word"
  f_state :: "7 word"
  f_header_state :: "8 word"
  f_index :: "8 word"
  f_nread :: "32 word"
  f_content_length :: "64 word"
  f_http_major :: "16 word"
  f_http_minor :: "16 word"
  f_status_code :: "16 word"
  f_method :: "8 word"
  f_http_errno :: "7 word"
  f_upgrade :: "1 word"
  f_data :: "64 word"

definition to_struct :: "http_parser \<Rightarrow> http_parser_struct" where
  "to_struct ps =
     \<lparr>f_type = of_nat (enumerator parser_types (p_type ps)),
      f_flags = flags ps,
      f_state = of_nat (state_num (state ps)),
      f_header_state = of_nat (enumerator header_state_enum (header_state ps)),
      f_index = index ps,
      f_nread = nread ps,
      f_content_length = content_length ps,
      f_http_major = http_major ps,
      f_http_minor = http_minor ps,
      f_status_code = status_code ps,
      f_method = of_nat (enumerator http_method_map (p_method ps)),
      f_http_errno = of_nat (enumerator http_errno_map (http_errno ps)),
      f_upgrade = of_bool (upgrade ps),
      f_data = p_data ps\<rparr>"

text \<open>\<open>s_dead\<close>, the first state, has the number 1.\<close>

definition of_struct :: "http_parser_struct \<Rightarrow> http_parser" where
  "of_struct st =
     \<lparr>p_type = parser_types ! unat (f_type st),
      flags = f_flags st,
      state = state_enum ! (unat (f_state st) - 1),
      header_state = header_state_enum ! unat (f_header_state st),
      index = f_index st,
      nread = f_nread st,
      content_length = f_content_length st,
      http_major = f_http_major st,
      http_minor = f_http_minor st,
      status_code = f_status_code st,
      p_method = http_method_map ! unat (f_method st),
      http_errno = http_errno_map ! unat (f_http_errno st),
      upgrade = (f_upgrade st \<noteq> 0),
      p_data = f_data st\<rparr>"

lemma stored:
  "unat (of_nat (enumerator parser_types t) :: 2 word) = enumerator parser_types t"
  "unat (of_nat (state_num s) :: 7 word) = state_num s"
  "unat (of_nat (enumerator header_state_enum h) :: 8 word) = enumerator header_state_enum h"
  "unat (of_nat (enumerator http_method_map m) :: 8 word) = enumerator http_method_map m"
  "unat (of_nat (enumerator http_errno_map e) :: 7 word) = enumerator http_errno_map e"
  using enumerators_small(1) [of t] enumerators_small(2) [of h] enumerators_small(3) [of e]
    enumerators_small(4) [of m] enumerators_small(5) [of s]
  by (simp_all add: unat_of_nat)

lemma state_read_back: "state_enum ! (state_num s - Suc 0) = s"
  using state_enum_num [of s] by simp

lemma state_num_pos: "0 < state_num s"
  by (cases s) simp_all

text \<open>
  C34. Every enumerator fits the bit field it is stored in: writing a parser into the struct and
  reading it back gives the same parser, for all types, states, header states, methods and error
  codes, so different parsers are different structs. The number stored for a state is never 0,
  and comparing the stored number with that of \<open>s_headers_done\<close>, as \<open>PARSING_HEADER\<close> does, is
  asking whether the state is one of a header.
\<close>

theorem struct_keeps_parser:
  "of_struct (to_struct ps) = ps \<and> f_state (to_struct ps) \<noteq> 0
   \<and> (f_state (to_struct ps) \<le> of_nat (state_num s_headers_done) \<longleftrightarrow> PARSING_HEADER (state ps))"
proof -
  have "of_struct (to_struct ps) = ps"
    by (simp add: of_struct_def to_struct_def stored state_read_back enumerator_nth all_enumerators)
  moreover have "f_state (to_struct ps) \<noteq> 0"
    using state_num_pos [of "state ps"] stored(2) [of "state ps"]
    by (metis http_parser_struct.select_convs(3) nat_less_le to_struct_def unat_0)
  moreover have "f_state (to_struct ps) \<le> of_nat (state_num s_headers_done) \<longleftrightarrow> PARSING_HEADER (state ps)"
    unfolding word_le_nat_alt PARSING_HEADER_def less_eq_state_def by (simp only: to_struct_def stored http_parser_struct.select_convs)
  ultimately show ?thesis by simp
qed

end
