(* ===== verification/Spec2Isabelle.thy ===== *)
theory Spec2Isabelle
  imports Test_Client Test_Client_Db Http_Server Db_Pool Base64 Session_Portions Session_Chunked Session_Pipeline Response_Read Parser_Struct
begin

text \<open>
  A model of the warehouse server and of what makes it correct.

  The program. \<open>src/UCludeProject.cpp\<close> starts an \<open>http_server\<close> with a message handler and runs
  it. The server (\<open>src/http_server.cpp\<close>) takes its \<open>io_service\<close>s from \<open>src/io_service_pool.cpp\<close>,
  accepts connections and keeps them in a set. A connection (\<open>src/http_session.cpp\<close>) reads
  into a buffer of 2048 bytes and gives every read to \<open>http_parser_execute\<close>
  (\<open>src/http_parser.c\<close>), whose callbacks record where the body is and, when a message is
  complete, call the message handler on it. The handler parses the body as JSON and gives it to
  \<open>client_manager::do_some\<close> (\<open>src/client_manager.cpp\<close>), which works on the clients
  (\<open>src/client.h\<close>) and answers through the response of the connection
  (\<open>src/request_respons.h\<close>); its text is written and the connection closed. The pool of
  database connections (\<open>src/DBConnectPool.cpp\<close>) and Base64 (\<open>src/Base64.cpp\<close>) are used by
  none of these so far.

  Theories, by part of the program:

  \<^item> \<open>Byte_Prelude\<close>: bytes, the C library routines, generic lemmas, and the two collections of
    rewrite rules \<open>byte_simps\<close> and \<open>flag_simps\<close>. \<open>Checked_Int\<close>: the arithmetic of C's \<open>int\<close>, with
    the overflow as None.
  \<^item> \<open>Parser_Types\<close>: \<open>http_parser.h\<close> and the enumerations of \<open>http_parser.c\<close>; a parser is the
    record \<open>http_parser\<close> whose fields have the width of the struct's, a callback is a function
    on the parser, the bytes it is shown and the application's state. \<open>Parser_Struct\<close>: how the struct
    stores such a record in its bit fields.
  \<^item> \<open>Char_Classes\<close>, \<open>Url_Char\<close>: the byte tables, the macros on bytes (in strict mode, as the
    makefile builds it) and \<open>parse_url_char\<close>.
  \<^item> \<open>Parser_Core\<close>, \<open>Parser_Start\<close>, \<open>Parser_Headers\<close>, \<open>Parser_Exec\<close>: \<open>http_parser_execute\<close>. Each
    case of the state switch is a definition \<open>exec_<state>\<close> from the local variables (record
    \<open>locals\<close>) to an \<open>outcome\<close>: \<open>break\<close>, \<open>REEXECUTE\<close>, \<open>goto error\<close>, a return from a callback
    macro, or a fault (a failed assertion, a read past a string). \<open>exec_loop\<close> is the loop over the
    bytes.
  \<^item> \<open>Parser_Invariant\<close>, \<open>Parser_Cases\<close>, \<open>Parser_Safety\<close>: the invariant of a parser and of the
    locals, one lemma per case that keeps it, and, in the locale \<open>parser_client\<close> of what the
    callbacks may do, that a call returns without a fault and keeps the parser usable.
  \<^item> \<open>Parser_Api\<close>: the other functions on a parser, the parsers that can be reached by calling
    them, and the theorems on all of these; \<open>observer\<close> is an application that notes its
    callbacks down.
  \<^item> \<open>Parser_Names\<close>: which header a name is taken for.
  \<^item> \<open>Parser_Steps\<close>, \<open>Parser_Message\<close>: what the parser makes of well-formed requests, as equations
    between snapshots of its loop: the request line, header lines, the end of the headers, the
    body, and any number of requests in one buffer. The locale \<open>passive_client\<close> is that of the
    applications which leave the parser alone; \<open>observer\<close> and the connection interpret it.
    \<open>Parser_Chunked\<close>: the same for a request with a chunked body and a trailer. \<open>Response_Read\<close>:
    the same for a response, which the parser reads back as \<open>end\<close> wrote it.
  \<^item> \<open>Parser_Views\<close>, \<open>Parser_Lockstep\<close>, \<open>Parser_Bulk\<close>, \<open>Parser_Last_Byte\<close>, \<open>Parser_Fragments\<close>: that it
    does not matter how a stream is cut into buffers. Two runs on the same bytes, cut differently,
    are \<open>alike\<close> where what they have shown and what they have seen of open data is the same
    (\<open>view\<close>); every case of the switch keeps that (\<open>outs\<close>), the five that read more than one
    byte are first taken apart into single bytes (\<open>stay\<close>), and \<open>run_bytewise\<close> is the induction over
    the bytes. \<open>Request_Portions\<close>: well-formed requests in any portions. Both are for streams of up
    to 40 KiB: a cut inside a header name or value makes the parser count the bytes before it
    twice, so for longer ones the cutting can decide whether its limit of 80 KiB is reached.
  \<^item> \<open>Parser_Clients\<close>: that the parser treats two passive applications alike, so that what is
    known of the observer is known of the connection. \<open>Body_Events\<close>: in one call the application is
    shown a body in parts that are not empty, the last of which the end of the message follows.
  \<^item> \<open>Url_Parse\<close>, \<open>Url_Fields\<close>, \<open>Url_Round_Trip\<close>: \<open>http_parser_parse_url\<close> and
    \<open>http_parse_host\<close>; the fields they find, and the round trip with the text of a URL. The bytes
    behind the buffer, which \<open>strtoul\<close> can come to, are an argument.
  \<^item> \<open>Request\<close>, \<open>Response\<close>: \<open>request_respons.h\<close>. The header maps are sorted association lists
    under \<open>ci_less\<close>, and interpret the locale \<open>header_map\<close> of the laws of a map.
  \<^item> \<open>Json_Api\<close>: jsoncpp, which is not part of the repository, as a record of functions
    (\<open>jsoncpp\<close>), what its documentation says of them (\<open>json_laws\<close>), and an instance for which
    these laws hold.
  \<^item> \<open>Client_Manager\<close>: the error codes, \<open>client\<close>, \<open>client_manager\<close> and \<open>do_some\<close>.
  \<^item> \<open>Http_Session\<close>: the connection; its handlers are steps (\<open>session_step\<close>), and its callbacks
    interpret the locale \<open>parser_client\<close>.
  \<^item> \<open>Session_Requests\<close>: a whole request in the first read of a connection, and its one answer.
    \<open>Body_Reads\<close>, \<open>Session_Portions\<close>: a request cut anywhere into several reads, of whose body the
    handler gets only what the last read brings. \<open>Session_Chunked\<close>: a chunked body, of which it gets
    only the last chunk. \<open>Session_Pipeline\<close>: several requests in one read.
  \<^item> \<open>Test_Client\<close>: the bytes that \<open>src/client/TestClient.cpp\<close> sends, and its load test: the
    statements of \<open>func\<close> as steps of threads that share \<open>ai_count\<close> (\<open>func_step\<close>, \<open>load_reach\<close>).
    \<open>Test_Client_Db\<close>: its MongoDB functions, as programs in the state monad that keep the list of
    their calls, with the drivers as parameters (\<open>mongoc\<close>, one function for each call, and
    \<open>mongo_cxx\<close>).
  \<^item> \<open>Io_Service_Pool\<close>: the round robin, and the steps of \<open>run\<close>, its threads, \<open>stop\<close> and \<open>wait_init\<close>
    beside each other. \<open>Http_Server\<close>, \<open>Db_Pool\<close>, \<open>Base64\<close>: the parts of these names.

  What the lemmas show. Safety and termination of the parser for every input, in every portions,
  under every application that keeps to the locale; its classification of header names; that
  it calls for well-formed requests, with a body of declared length or in chunks, exactly the
  callbacks it should, in whatever portions they come; what a connection makes of a request that
  comes whole, in several reads, in chunks, or with others in one read, and that the server
  answers one that comes whole with one response of the right length and error code; the
  soundness of the URL parser and its round trip; what the accessors of \<open>url_obj\<close> make of it; the header
  maps and the text of a response; every answer of the message handler, and that no client is
  ever stored; the bounds of the buffer of a connection and that it never gets stuck; the round
  robin, the start and the end of the threads and the accept loop of the server; conservation and
  progress of the database pool; Base64's round trip and lengths; that the test client gives back
  every object it gets from its MongoDB driver, and what the threads of its load test do. Where
  the code does not do what it means to, the theorem says what it does.

  Bounds and fuel. Nothing runs on fuel: the loop of the parser is a \<open>partial_function\<close> whose
  termination is proved (a measure of the bytes left and the rank of the state), and so is the loop
  over a cursor of the test client, which ends if the cursor does; all other loops are structural
  or have a termination proof. The unsigned numbers that the code computes with are words of their
  width; where an \<open>int\<close> can overflow, in Base64 and in the load test, its arithmetic is checked.
  Positions in and lengths of buffers are natural numbers, and a buffer is shorter than 2 to the
  power of 64, as an address space is.

  Not modelled. jsoncpp, boost (sockets, threads, timers, random numbers), libpq and the MongoDB
  drivers are not in the repository; where the code depends on them they are parameters, or
  decide which step is taken next. Operations under one mutex are one step, but for
  \<open>io_service_pool::run\<close>, whose steps show the mutex. Logging,
  argument parsing and \<open>daemon ()\<close> have no effect on what is stated. \<open>src/GameServer.cpp\<close> is not
  built and does not fit the present constructor of the server; the headers \<open>gcc_*.h\<close> are dumps of
  the compiler's predefined macros; \<open>src/client/Base64.cpp\<close> is the same code as
  \<open>src/Base64.cpp\<close>. What \<open>main\<close> of the test client has after its \<open>return\<close> is not reached.
\<close>

section \<open>From a request to its answer\<close>

text \<open>
  C6. The whole way of a request through the parser, the connection, the message handler and the
  response: a connection whose first read is a well-formed request sends back a response
  with status 200 and the right Content-Length, whose JSON value carries the error code that the
  request's body calls for, and its number as the message; it does so in every state the
  manager can come to, and leaves the clients as they are.
\<close>

theorem server_answers_request:
  assumes "json_laws J obj" and "manager_reach J m" and "length data = max_length"
    and "request_ok r" and "set blanks \<subseteq> {CR, LF}" and "length (request_text r @ blanks) \<le> max_length"
  shows "\<exists>ps' s' root. onRead J (server_handler J) (request_text r @ blanks)
      (session_start this_ptr (ps, session_new J data (m, rs))) = Some (ps', s')
    \<and> s_outbox s' = [reply_text (js_write J root)] \<and> answer J root (expected_code J (msg_body r))
    \<and> fst (s_server s') = m \<and> \<not> s_reading s' \<and> \<not> s_closed s'"
proof -
  obtain root where "do_some J (rs 0) (msg_body r) (js_null J) m = Some (root, m)"
    "answer J root (expected_code J (msg_body r))"
    using do_some_expected [OF assms(1) json_null [OF assms(1)] assms(2), of "rs 0" "msg_body r"] by blast
  then have "server_handler J (msg_body r) (js_null J) (m, rs) = Some (root, (m, \<lambda>n. rs (Suc n)))"
    and answered: "answer J root (expected_code J (msg_body r))"
    by (simp_all add: server_handler_def)
  from start_request [where h = "server_handler J", OF assms(3-6) this(1), of this_ptr ps] show ?thesis
    using answered by fastforce
qed

text \<open>The request of the test client, read at once by a server that knows no client: a login.\<close>

lemma server_answers_request_witness:
  "let J = json_instance (\<lambda>bs. if bs = client_json @ [CR]
             then Some (JObject [(''ClientVersion'', JString ''0.0.1''),
               (''SceneId'', JString ''SceneAndroidEnGold_1''), (''UsrID'', JInt 8962)]) else None)
   in \<exists>ps' s' root. onRead J (server_handler J) (client_write_1 @ client_write_2)
        (session_start 0 (blank_parser, session_new J (replicate 2048 NUL) (\<lambda>_. None, \<lambda>_. 42))) = Some (ps', s')
      \<and> s_outbox s' = [reply_text (js_write J root)] \<and> answer J root USER_NOT_EXIST"
proof -
  define J where "J = json_instance (\<lambda>bs. if bs = client_json @ [CR]
     then Some (JObject [(''ClientVersion'', JString ''0.0.1''),
       (''SceneId'', JString ''SceneAndroidEnGold_1''), (''UsrID'', JInt 8962)]) else None)"
  have body: "msg_body client_request = client_json @ [CR]" by (simp add: client_request_def)
  have "expected_code J (client_json @ [CR]) = USER_NOT_EXIST"
    by (simp add: J_def expected_code_def message_values_def json_instance_def)
  moreover have "length (request_text client_request @ [LF]) = 212"
    unfolding client_request_text [symmetric] client_write_1_def client_write_2_def
    by (simp add: client_json_length)
  moreover have "json_laws J json_object" unfolding J_def by (rule json_instance_laws)
  ultimately show ?thesis
    using server_answers_request [OF _ manager_new _ client_request_ok, of J json_object "replicate 2048 NUL" "[LF]" 0
        blank_parser "\<lambda>_. 42"]
    unfolding Let_def J_def [symmetric] client_request_text body by (fastforce simp: max_length_def)
qed

end
